(* ===== verification/Prelude.thy ===== *)
theory Prelude
  imports Complex_Main "HOL-Library.Word" "HOL-Library.Monad_Syntax"
begin

text \<open>
  Shared vocabulary of the development: the C integer types, the conversions between them
  that the wrk2 sources rely on, the outcome of an operation that may abort, and the generic
  lemmas on bits, lists and options that the component theories use.

  Signed C integers (\<open>int\<close>, \<open>int32_t\<close>, \<open>int64_t\<close>, \<open>long\<close>) are values of type
  \<open>int\<close>; a conversion that narrows is written out (\<open>as_int32\<close>, \<open>as_int64\<close>).
  Unsigned integers are words of their width. An operation that can fail an \<open>assert\<close>,
  divide by zero or never return has an \<open>option\<close> result, \<open>None\<close> being the
  execution that does not return normally.
\<close>

unbundle bit_operations_syntax

type_synonym u16 = "16 word"
type_synonym u32 = "32 word"
type_synonym u64 = "64 word"

section \<open>Conversions of C integers\<close>

definition as_int32 :: "int \<Rightarrow> int" where
  "as_int32 x = signed_take_bit 31 x"

definition as_int64 :: "int \<Rightarrow> int" where
  "as_int64 x = signed_take_bit 63 x"

lemma as_int32_id [simp]: "- (2 ^ 31) \<le> x \<Longrightarrow> x < 2 ^ 31 \<Longrightarrow> as_int32 x = x"
  by (simp add: as_int32_def signed_take_bit_int_eq_self)

lemma as_int64_id [simp]: "- (2 ^ 63) \<le> x \<Longrightarrow> x < 2 ^ 63 \<Longrightarrow> as_int64 x = x"
  by (simp add: as_int64_def signed_take_bit_int_eq_self)

lemma as_int32_nonneg: "0 \<le> x \<Longrightarrow> x < 2 ^ 31 \<Longrightarrow> as_int32 x = x"
  by simp

lemma as_int32_power: "k \<le> 30 \<Longrightarrow> as_int32 (2 ^ k) = 2 ^ k"
  by (rule as_int32_nonneg) (simp_all only: power_strict_increasing_iff, simp_all)

section \<open>Assertions and array accesses\<close>

definition c_assert :: "bool \<Rightarrow> unit option" where
  "c_assert b = (if b then Some () else None)"

lemma c_assert_simps [simp]:
  "c_assert True = Some ()"
  "c_assert False = None"
  "(c_assert b = Some u) = b"
  "(c_assert b = None) = (\<not> b)"
  by (simp_all add: c_assert_def)

definition array_get :: "'a list \<Rightarrow> int \<Rightarrow> 'a option" where
  "array_get xs i = (if 0 \<le> i \<and> i < int (length xs) then Some (xs ! nat i) else None)"

lemma array_get_Some [simp]:
  "0 \<le> i \<Longrightarrow> i < int (length xs) \<Longrightarrow> array_get xs i = Some (xs ! nat i)"
  by (simp add: array_get_def)

section \<open>Number of significant bits\<close>

text \<open>
  \<open>bit_width n\<close> is the number of bits of \<open>n\<close>; GCC's \<open>__builtin_clzll\<close> on a
  64-bit operand is 64 minus the width of its two's complement bit pattern.
\<close>

fun bit_width :: "nat \<Rightarrow> nat" where
  "bit_width n = (if n = 0 then 0 else Suc (bit_width (n div 2)))"

declare bit_width.simps [simp del]

lemma bit_width_0 [simp]: "bit_width 0 = 0"
  by (simp add: bit_width.simps)

lemma bit_width_le_iff: "bit_width n \<le> k \<longleftrightarrow> n < 2 ^ k"
proof (induction k arbitrary: n)
  case 0
  show ?case by (simp add: bit_width.simps [of n])
next
  case (Suc k)
  have "n div 2 < 2 ^ k \<longleftrightarrow> n < 2 ^ Suc k"
    by (simp add: div_less_iff_less_mult mult.commute)
  with Suc.IH [of "n div 2"] show ?case
    by (simp add: bit_width.simps [of n])
qed

lemma bit_width_gt_iff: "k < bit_width n \<longleftrightarrow> 2 ^ k \<le> n"
  using bit_width_le_iff [of n k] by linarith

lemma bit_width_mono: "m \<le> n \<Longrightarrow> bit_width m \<le> bit_width n"
  using bit_width_le_iff le_less_trans by blast

lemma bit_width_lower: "0 < n \<Longrightarrow> 2 ^ (bit_width n - 1) \<le> n"
  using bit_width_gt_iff [of "bit_width n - 1" n] bit_width_gt_iff [of 0 n] by simp

lemma bit_width_upper: "n < 2 ^ bit_width n"
  using bit_width_le_iff by blast

definition builtin_clzll :: "int \<Rightarrow> int" where
  "builtin_clzll x = 64 - int (bit_width (nat (take_bit 64 x)))"

lemma bit_width_or:
  assumes "0 \<le> (a::int)" "0 \<le> b"
  shows "bit_width (nat (a OR b)) = max (bit_width (nat a)) (bit_width (nat b))"
proof (rule antisym)
  let ?k = "max (bit_width (nat a)) (bit_width (nat b))"
  have "nat a < 2 ^ ?k" "nat b < 2 ^ ?k"
    using bit_width_le_iff [of "nat a" ?k] bit_width_le_iff [of "nat b" ?k] by auto
  then have "a < 2 ^ ?k" "b < 2 ^ ?k"
    using assms by (simp_all add: nat_less_iff)
  then have "a OR b < 2 ^ ?k"
    using OR_upper assms by blast
  then show "bit_width (nat (a OR b)) \<le> ?k"
    using assms by (simp add: bit_width_le_iff nat_less_iff)
next
  have "a \<le> a OR b" "b \<le> a OR b"
    using or_greater_eq [of b a] or_greater_eq [of a b] assms by (simp_all add: or.commute)
  then show "max (bit_width (nat a)) (bit_width (nat b)) \<le> bit_width (nat (a OR b))"
    by (simp add: bit_width_mono nat_mono)
qed

section \<open>Integer division and truncated subtraction\<close>

lemma le_zdiv_iff: "0 < (b::int) \<Longrightarrow> c \<le> a div b \<longleftrightarrow> c * b \<le> a"
proof
  assume b: "0 < b"
  {
    assume "c \<le> a div b"
    then have "c * b \<le> a div b * b" using b by (intro mult_right_mono) auto
    also have "\<dots> \<le> a" using b by (simp add: minus_mod_eq_div_mult [symmetric])
    finally show "c * b \<le> a" .
  }
  {
    assume "c * b \<le> a"
    then have "(c * b) div b \<le> a div b" using b by (intro zdiv_mono1)
    then show "c \<le> a div b" using b by simp
  }
qed

lemma zdiv_less_iff: "0 < (b::int) \<Longrightarrow> a div b < c \<longleftrightarrow> a < c * b"
  using le_zdiv_iff [of b c a] by linarith

lemma nat_max_diff: "nat (max 0 (int a - int b)) = a - b"
  by simp

section \<open>Sums over an updated list\<close>

lemma sum_list_update_int:
  "i < length xs \<Longrightarrow> sum_list (xs[i := x]) = sum_list xs - xs ! i + (x::int)"
  by (induction xs arbitrary: i) (auto split: nat.split)

lemma sum_list_nonneg_int: "(\<And>x. x \<in> set xs \<Longrightarrow> 0 \<le> (x::int)) \<Longrightarrow> 0 \<le> sum_list xs"
  by (simp add: sum_list_nonneg)

end
