(* ===== verification/Http_Url.thy ===== *)
theory Http_Url
  imports Http_Types
begin

text \<open>
  The URL parser of \<open>wrk2/src/http_parser.c\<close>: the byte automaton \<open>parse_url_char\<close>
  that \<open>http_parser_execute\<close> shares, the host automaton, and \<open>http_parser_parse_url\<close>
  with its field offsets kept in 16 bits.
\<close>

section \<open>The URL automaton\<close>

definition parse_url_char :: "state \<Rightarrow> char \<Rightarrow> state" where
  "parse_url_char s ch =
     (if ch = SP \<or> ch = CR \<or> ch = LF then s_dead
      else if ch = TAB \<or> ch = FF then s_dead
      else case s of
        s_req_spaces_before_url \<Rightarrow>
          if ch = CHR ''/'' \<or> ch = CHR ''*'' then s_req_path
          else if IS_ALPHA ch then s_req_schema else s_dead
      | s_req_schema \<Rightarrow>
          if IS_ALPHA ch then s else if ch = CHR '':'' then s_req_schema_slash else s_dead
      | s_req_schema_slash \<Rightarrow> if ch = CHR ''/'' then s_req_schema_slash_slash else s_dead
      | s_req_schema_slash_slash \<Rightarrow> if ch = CHR ''/'' then s_req_server_start else s_dead
      | s_req_server_with_at \<Rightarrow>
          if ch = CHR ''@'' then s_dead
          else if ch = CHR ''/'' then s_req_path
          else if ch = CHR ''?'' then s_req_query_string_start
          else if IS_USERINFO_CHAR ch \<or> ch = CHR ''['' \<or> ch = CHR '']'' then s_req_server
          else s_dead
      | s_req_server_start \<Rightarrow>
          if ch = CHR ''/'' then s_req_path
          else if ch = CHR ''?'' then s_req_query_string_start
          else if ch = CHR ''@'' then s_req_server_with_at
          else if IS_USERINFO_CHAR ch \<or> ch = CHR ''['' \<or> ch = CHR '']'' then s_req_server
          else s_dead
      | s_req_server \<Rightarrow>
          if ch = CHR ''/'' then s_req_path
          else if ch = CHR ''?'' then s_req_query_string_start
          else if ch = CHR ''@'' then s_req_server_with_at
          else if IS_USERINFO_CHAR ch \<or> ch = CHR ''['' \<or> ch = CHR '']'' then s_req_server
          else s_dead
      | s_req_path \<Rightarrow>
          if IS_URL_CHAR ch then s
          else if ch = CHR ''?'' then s_req_query_string_start
          else if ch = CHR ''#'' then s_req_fragment_start else s_dead
      | s_req_query_string_start \<Rightarrow>
          if IS_URL_CHAR ch then s_req_query_string
          else if ch = CHR ''?'' then s_req_query_string
          else if ch = CHR ''#'' then s_req_fragment_start else s_dead
      | s_req_query_string \<Rightarrow>
          if IS_URL_CHAR ch then s_req_query_string
          else if ch = CHR ''?'' then s_req_query_string
          else if ch = CHR ''#'' then s_req_fragment_start else s_dead
      | s_req_fragment_start \<Rightarrow>
          if IS_URL_CHAR ch then s_req_fragment
          else if ch = CHR ''?'' then s_req_fragment
          else if ch = CHR ''#'' then s else s_dead
      | s_req_fragment \<Rightarrow>
          if IS_URL_CHAR ch then s
          else if ch = CHR ''?'' \<or> ch = CHR ''#'' then s else s_dead
      | _ \<Rightarrow> s_dead)"

section \<open>The host automaton\<close>

definition http_parse_host_char :: "http_host_state \<Rightarrow> char \<Rightarrow> http_host_state" where
  "http_parse_host_char s ch =
     (case s of
        s_http_userinfo \<Rightarrow>
          if ch = CHR ''@'' then s_http_host_start
          else if IS_USERINFO_CHAR ch then s_http_userinfo else s_http_host_dead
      | s_http_userinfo_start \<Rightarrow>
          if ch = CHR ''@'' then s_http_host_start
          else if IS_USERINFO_CHAR ch then s_http_userinfo else s_http_host_dead
      | s_http_host_start \<Rightarrow>
          if ch = CHR ''['' then s_http_host_v6_start
          else if IS_HOST_CHAR ch then s_http_host else s_http_host_dead
      | s_http_host \<Rightarrow>
          if IS_HOST_CHAR ch then s_http_host
          else if ch = CHR '':'' then s_http_host_port_start else s_http_host_dead
      | s_http_host_v6_end \<Rightarrow>
          if ch = CHR '':'' then s_http_host_port_start else s_http_host_dead
      | s_http_host_v6 \<Rightarrow>
          if ch = CHR '']'' then s_http_host_v6_end
          else if IS_HEX ch \<or> ch = CHR '':'' \<or> ch = CHR ''.'' then s_http_host_v6
          else s_http_host_dead
      | s_http_host_v6_start \<Rightarrow>
          if IS_HEX ch \<or> ch = CHR '':'' \<or> ch = CHR ''.'' then s_http_host_v6
          else s_http_host_dead
      | s_http_host_port \<Rightarrow> if IS_NUM ch then s_http_host_port else s_http_host_dead
      | s_http_host_port_start \<Rightarrow> if IS_NUM ch then s_http_host_port else s_http_host_dead
      | _ \<Rightarrow> s_http_host_dead)"

section \<open>The parsed URL\<close>

datatype http_parser_url_fields =
  UF_SCHEMA | UF_HOST | UF_PORT | UF_PATH | UF_QUERY | UF_FRAGMENT | UF_USERINFO | UF_MAX

fun uf_num :: "http_parser_url_fields \<Rightarrow> nat" where
  "uf_num UF_SCHEMA = 0" | "uf_num UF_HOST = 1" | "uf_num UF_PORT = 2" | "uf_num UF_PATH = 3"
| "uf_num UF_QUERY = 4" | "uf_num UF_FRAGMENT = 5" | "uf_num UF_USERINFO = 6" | "uf_num UF_MAX = 7"

text \<open>\<open>field_off\<close> and \<open>field_len\<close> are the two 16-bit members of \<open>field_data[uf]\<close>.\<close>

record http_parser_url =
  field_set :: u16
  port :: u16
  field_off :: "http_parser_url_fields \<Rightarrow> u16"
  field_len :: "http_parser_url_fields \<Rightarrow> u16"

definition uf_bit :: "http_parser_url_fields \<Rightarrow> u16" where
  "uf_bit f = push_bit (uf_num f) 1"

definition has_field :: "http_parser_url \<Rightarrow> http_parser_url_fields \<Rightarrow> bool" where
  "has_field u f \<longleftrightarrow> field_set u AND uf_bit f \<noteq> 0"

definition start_field :: "http_parser_url_fields \<Rightarrow> nat \<Rightarrow> u16 \<Rightarrow> http_parser_url \<Rightarrow> http_parser_url" where
  "start_field f off len u =
     u\<lparr>field_off := (field_off u)(f := of_nat off), field_len := (field_len u)(f := len)\<rparr>"

definition mark_field :: "http_parser_url_fields \<Rightarrow> http_parser_url \<Rightarrow> http_parser_url" where
  "mark_field f u = u\<lparr>field_set := field_set u OR uf_bit f\<rparr>"

definition extend_field :: "http_parser_url_fields \<Rightarrow> http_parser_url \<Rightarrow> http_parser_url" where
  "extend_field f u = u\<lparr>field_len := (field_len u)(f := field_len u f + 1)\<rparr>"

text \<open>The body of the loop of \<open>http_parse_host\<close>: \<open>p\<close> is the offset of the byte.\<close>

definition host_field_step ::
  "http_host_state \<Rightarrow> http_host_state \<Rightarrow> nat \<Rightarrow> http_parser_url \<Rightarrow> http_parser_url" where
  "host_field_step s new_s p u =
     (case new_s of
        s_http_host \<Rightarrow>
          extend_field UF_HOST
            (if s \<noteq> s_http_host then start_field UF_HOST p (field_len u UF_HOST) u else u)
      | s_http_host_v6 \<Rightarrow>
          extend_field UF_HOST
            (if s \<noteq> s_http_host_v6 then start_field UF_HOST p (field_len u UF_HOST) u else u)
      | s_http_host_port \<Rightarrow>
          extend_field UF_PORT
            (if s \<noteq> s_http_host_port then mark_field UF_PORT (start_field UF_PORT p 0 u) else u)
      | s_http_userinfo \<Rightarrow>
          extend_field UF_USERINFO
            (if s \<noteq> s_http_userinfo then mark_field UF_USERINFO (start_field UF_USERINFO p 0 u) else u)
      | _ \<Rightarrow> u)"

text \<open>The loop reads \<open>n\<close> bytes from offset \<open>p\<close>; a read beyond the buffer has no result.\<close>

fun host_loop ::
  "string \<Rightarrow> nat \<Rightarrow> nat \<Rightarrow> http_host_state \<Rightarrow> http_parser_url
    \<Rightarrow> (http_host_state option \<times> http_parser_url) option" where
  "host_loop buf 0 p s u = Some (Some s, u)"
| "host_loop buf (Suc n) p s u =
     (if length buf \<le> p then None
      else let new_s = http_parse_host_char s (buf ! p)
           in if new_s = s_http_host_dead then Some (None, u)
              else host_loop buf n (Suc p) new_s (host_field_step s new_s p u))"

text \<open>The C function returns 0 or 1 and leaves its fields in \<open>u\<close>.\<close>

definition http_parse_host ::
  "string \<Rightarrow> http_parser_url \<Rightarrow> bool \<Rightarrow> (int \<times> http_parser_url) option" where
  "http_parse_host buf u found_at =
     (let off = unat (field_off u UF_HOST);
          len = unat (field_len u UF_HOST);
          u0 = u\<lparr>field_len := (field_len u)(UF_HOST := 0)\<rparr>;
          s0 = (if found_at then s_http_userinfo_start else s_http_host_start)
      in case host_loop buf len off s0 u0 of
           None \<Rightarrow> None
         | Some (None, u') \<Rightarrow> Some (1, u')
         | Some (Some s, u') \<Rightarrow>
             Some (case s of
                s_http_host_start \<Rightarrow> (1, u') | s_http_host_v6_start \<Rightarrow> (1, u')
              | s_http_host_v6 \<Rightarrow> (1, u') | s_http_host_port_start \<Rightarrow> (1, u')
              | s_http_userinfo \<Rightarrow> (1, u') | s_http_userinfo_start \<Rightarrow> (1, u')
              | _ \<Rightarrow> (0, u')))"

text \<open>
  The field a state of the automaton belongs to: \<open>None\<close> for an error,
  \<open>Some None\<close> for a delimiter.
\<close>

definition url_field_of :: "state \<Rightarrow> http_parser_url_fields option option" where
  "url_field_of s =
     (case s of
        s_req_schema_slash \<Rightarrow> Some None | s_req_schema_slash_slash \<Rightarrow> Some None
      | s_req_server_start \<Rightarrow> Some None | s_req_query_string_start \<Rightarrow> Some None
      | s_req_fragment_start \<Rightarrow> Some None
      | s_req_schema \<Rightarrow> Some (Some UF_SCHEMA)
      | s_req_server_with_at \<Rightarrow> Some (Some UF_HOST) | s_req_server \<Rightarrow> Some (Some UF_HOST)
      | s_req_path \<Rightarrow> Some (Some UF_PATH) | s_req_query_string \<Rightarrow> Some (Some UF_QUERY)
      | s_req_fragment \<Rightarrow> Some (Some UF_FRAGMENT)
      | _ \<Rightarrow> None)"

fun url_loop ::
  "string \<Rightarrow> nat \<Rightarrow> state \<Rightarrow> http_parser_url_fields \<Rightarrow> bool \<Rightarrow> http_parser_url
    \<Rightarrow> bool option \<times> http_parser_url" where
  "url_loop [] p s old_uf found_at u = (Some found_at, u)"
| "url_loop (ch # cs) p s old_uf found_at u =
     (let s' = parse_url_char s ch
      in case url_field_of s' of
           None \<Rightarrow> (None, u)
         | Some None \<Rightarrow> url_loop cs (Suc p) s' old_uf found_at u
         | Some (Some uf) \<Rightarrow>
             (let found = (found_at \<or> s' = s_req_server_with_at)
              in if uf = old_uf
                 then url_loop cs (Suc p) s' old_uf found (extend_field uf u)
                 else url_loop cs (Suc p) s' uf found (mark_field uf (start_field uf p 1 u))))"

text \<open>The end of the buffer ends the number, as the terminating null of a C string does.
  The prefix of decimal digits that \<open>strtoul\<close> reads; the value saturates at \<open>ULONG_MAX\<close>.\<close>

fun decimal_value :: "int \<Rightarrow> string \<Rightarrow> int" where
  "decimal_value acc [] = acc"
| "decimal_value acc (c # cs) =
     (if IS_NUM c then decimal_value (10 * acc + digit_value c) cs else acc)"

definition strtoul10 :: "string \<Rightarrow> int" where
  "strtoul10 s = min (decimal_value 0 s) (2 ^ 64 - 1)"

definition http_parser_parse_url ::
  "string \<Rightarrow> bool \<Rightarrow> http_parser_url \<Rightarrow> (int \<times> http_parser_url) option" where
  "http_parser_parse_url buf is_connect u0 =
     (let s = (if is_connect then s_req_server_start else s_req_spaces_before_url)
      in case url_loop buf 0 s UF_MAX False (u0\<lparr>port := 0, field_set := 0\<rparr>) of
           (None, u) \<Rightarrow> Some (1, u)
         | (Some found_at, u) \<Rightarrow>
             (case (if field_set u AND (uf_bit UF_SCHEMA OR uf_bit UF_HOST) \<noteq> 0
                    then http_parse_host buf u found_at else Some (0, u)) of
                None \<Rightarrow> None
              | Some (bad_host, u1) \<Rightarrow>
                  if bad_host \<noteq> 0 then Some (1, u1)
                  else if is_connect \<and> field_set u1 \<noteq> uf_bit UF_HOST OR uf_bit UF_PORT
                  then Some (1, u1)
                  else if has_field u1 UF_PORT
                  then (let v = strtoul10 (drop (unat (field_off u1 UF_PORT)) buf)
                        in if 0xffff < v then Some (1, u1) else Some (0, u1\<lparr>port := of_int v\<rparr>))
                  else Some (0, u1)))"

end
