(* ===== verification/Http_Exec.thy ===== *)
theory Http_Exec
  imports Http_Url
begin

text \<open>
  \<open>http_parser_execute\<close> of \<open>wrk2/src/http_parser.c\<close>, one definition per group of states.

  The local variables of the function are the fields of \<open>exec\<close>: \<open>p\<close> is the offset of the
  current byte, \<open>p_state\<close> the cached state, and a mark the offset where the data of a
  callback began. A state's code ends in \<open>break\<close> (\<open>advance\<close>: the loop goes on with the next
  byte), in \<open>REEXECUTE\<close> (\<open>reexecute\<close>: the same byte again in the new state), in a \<open>return\<close>,
  in \<open>goto error\<close> (\<open>fail\<close>), or in a failed assertion (\<open>None\<close>).
\<close>

section \<open>Queries on the parser\<close>

definition http_message_needs_eof :: "'u http_parser \<Rightarrow> bool" where
  "http_message_needs_eof ps =
     (if parser_type ps = HTTP_REQUEST then False
      else if unat (status_code ps) div 100 = 1 \<or> status_code ps = 204 \<or> status_code ps = 304 \<or>
              flag_set ps F_SKIPBODY then False
      else if flag_set ps F_CHUNKED \<or> content_length ps \<noteq> ULLONG_MAX then False
      else True)"

definition http_should_keep_alive :: "'u http_parser \<Rightarrow> bool" where
  "http_should_keep_alive ps =
     (if 0 < http_major ps \<and> 0 < http_minor ps
      then (if flag_set ps F_CONNECTION_CLOSE then False else \<not> http_message_needs_eof ps)
      else (if \<not> flag_set ps F_CONNECTION_KEEP_ALIVE then False
            else \<not> http_message_needs_eof ps))"

definition start_state :: "'u http_parser \<Rightarrow> state" where
  "start_state ps = (if parser_type ps = HTTP_REQUEST then s_start_req else s_start_res)"

definition NEW_MESSAGE :: "'u http_parser \<Rightarrow> state" where
  "NEW_MESSAGE ps = (if http_should_keep_alive ps then start_state ps else s_dead)"

definition http_parser_init :: "'u http_parser \<Rightarrow> http_parser_type \<Rightarrow> 'u http_parser" where
  "http_parser_init ps t =
     \<lparr>parser_type = t, flags = 0,
      state = (if t = HTTP_REQUEST then s_start_req
               else if t = HTTP_RESPONSE then s_start_res else s_start_req_or_res),
      header_state = h_general, index = 0, nread = 0, content_length = 0,
      http_major = 0, http_minor = 0, status_code = 0, method = HTTP_DELETE,
      http_errno = HPE_OK, upgrade = False, data = data ps\<rparr>"

text \<open>Pausing a parser that has an error fails the assertion.\<close>

definition http_parser_pause :: "'u http_parser \<Rightarrow> int \<Rightarrow> 'u http_parser option" where
  "http_parser_pause ps paused =
     (if http_errno ps = HPE_OK \<or> http_errno ps = HPE_PAUSED
      then Some (ps\<lparr>http_errno := (if paused \<noteq> 0 then HPE_PAUSED else HPE_OK)\<rparr>) else None)"

definition http_body_is_final :: "'u http_parser \<Rightarrow> bool" where
  "http_body_is_final ps \<longleftrightarrow> state ps = s_message_done"

definition http_parser_version :: int where
  "http_parser_version = 2 * 0x10000 OR 4 * 0x00100 OR 2 * 0x00001"

section \<open>The local state of a call\<close>

record 'u exec =
  parser :: "'u http_parser"
  p_state :: state
  p :: nat
  header_field_mark :: "nat option"
  header_value_mark :: "nat option"
  url_mark :: "nat option"
  body_mark :: "nat option"
  status_mark :: "nat option"

datatype 'u step = Continue "'u exec" | Return int "'u http_parser"

definition and_then :: "'u step option \<Rightarrow> ('u exec \<Rightarrow> 'u step option) \<Rightarrow> 'u step option" where
  "and_then r f =
     (case r of None \<Rightarrow> None | Some (Return n ps) \<Rightarrow> Some (Return n ps) | Some (Continue x) \<Rightarrow> f x)"

definition SET_ERRNO :: "http_errno \<Rightarrow> 'u http_parser \<Rightarrow> 'u http_parser" where
  "SET_ERRNO e ps = ps\<lparr>http_errno := e\<rparr>"

definition upd :: "('u http_parser \<Rightarrow> 'u http_parser) \<Rightarrow> 'u exec \<Rightarrow> 'u exec" where
  "upd f x = x\<lparr>parser := f (parser x)\<rparr>"

definition UPDATE_STATE :: "state \<Rightarrow> 'u exec \<Rightarrow> 'u exec" where
  "UPDATE_STATE s x = x\<lparr>p_state := s\<rparr>"

definition RETURN :: "int \<Rightarrow> 'u exec \<Rightarrow> 'u step option" where
  "RETURN n x = Some (Return n ((parser x)\<lparr>state := p_state x\<rparr>))"

definition advance :: "'u exec \<Rightarrow> 'u step option" where
  "advance x = Some (Continue (x\<lparr>p := p x + 1\<rparr>))"

definition reexecute :: "'u exec \<Rightarrow> 'u step option" where
  "reexecute x = Some (Continue x)"

text \<open>\<open>SET_ERRNO(e); goto error\<close> at offset \<open>q\<close>.\<close>

definition fail_at :: "http_errno \<Rightarrow> int \<Rightarrow> 'u exec \<Rightarrow> 'u step option" where
  "fail_at e q x =
     (let ps = SET_ERRNO e (parser x);
          ps' = (if http_errno ps = HPE_OK then SET_ERRNO HPE_UNKNOWN ps else ps)
      in RETURN q (x\<lparr>parser := ps'\<rparr>))"

definition fail :: "http_errno \<Rightarrow> 'u exec \<Rightarrow> 'u step option" where
  "fail e x = fail_at e (int (p x)) x"

definition STRICT_CHECK :: "bool \<Rightarrow> 'u exec \<Rightarrow> 'u step option \<Rightarrow> 'u step option" where
  "STRICT_CHECK cond x k = (if cond then fail HPE_STRICT x else k)"

definition COUNT_HEADER_SIZE :: "int \<Rightarrow> int \<Rightarrow> 'u exec \<Rightarrow> 'u step option" where
  "COUNT_HEADER_SIZE v q x =
     (let x' = upd (\<lambda>ps. ps\<lparr>nread := nread ps + word_of_int v\<rparr>) x
      in if HTTP_MAX_HEADER_SIZE < uint (nread (parser x')) then fail_at HPE_HEADER_OVERFLOW q x'
         else Some (Continue x'))"

section \<open>Callbacks\<close>

text \<open>\<open>CALLBACK_NOTIFY_\<close>: the call returns \<open>er\<close> when the callback failed or paused.\<close>

definition CALLBACK_NOTIFY ::
  "http_errno \<Rightarrow> 'u http_cb option \<Rightarrow> int \<Rightarrow> 'u exec \<Rightarrow> 'u step option" where
  "CALLBACK_NOTIFY hpe cb er x =
     (if http_errno (parser x) \<noteq> HPE_OK then None
      else case cb of
        None \<Rightarrow> Some (Continue x)
      | Some f \<Rightarrow>
          (let (rc, ps) = f ((parser x)\<lparr>state := p_state x\<rparr>);
               ps' = (if rc \<noteq> 0 then SET_ERRNO hpe ps else ps)
           in if http_errno ps' \<noteq> HPE_OK then Some (Return er ps')
              else Some (Continue (x\<lparr>parser := ps', p_state := state ps'\<rparr>))))"

definition slice :: "string \<Rightarrow> nat \<Rightarrow> nat \<Rightarrow> string" where
  "slice d a b = take (b - a) (drop a d)"

text \<open>\<open>CALLBACK_DATA_\<close>: the data runs from the mark to \<open>stop\<close>; \<open>clear\<close> resets the mark.\<close>

definition CALLBACK_DATA ::
  "http_errno \<Rightarrow> 'u http_data_cb option \<Rightarrow> nat option \<Rightarrow> ('u exec \<Rightarrow> 'u exec)
    \<Rightarrow> string \<Rightarrow> nat \<Rightarrow> int \<Rightarrow> 'u exec \<Rightarrow> 'u step option" where
  "CALLBACK_DATA hpe cb mark clear d stop er x =
     (if http_errno (parser x) \<noteq> HPE_OK then None
      else case mark of
        None \<Rightarrow> Some (Continue x)
      | Some m \<Rightarrow>
          (case cb of
             None \<Rightarrow> Some (Continue (clear x))
           | Some f \<Rightarrow>
               (let (rc, ps) = f ((parser x)\<lparr>state := p_state x\<rparr>) (slice d m stop);
                    ps' = (if rc \<noteq> 0 then SET_ERRNO hpe ps else ps)
                in if http_errno ps' \<noteq> HPE_OK then Some (Return er ps')
                   else Some (Continue (clear (x\<lparr>parser := ps', p_state := state ps'\<rparr>))))))"

definition cb_message_begin where
  "cb_message_begin st = CALLBACK_NOTIFY HPE_CB_message_begin (on_message_begin st)"

definition cb_message_complete where
  "cb_message_complete st = CALLBACK_NOTIFY HPE_CB_message_complete (on_message_complete st)"

definition cb_header_field where
  "cb_header_field st d stop er x =
     CALLBACK_DATA HPE_CB_header_field (on_header_field st) (header_field_mark x)
       (\<lambda>x. x\<lparr>header_field_mark := None\<rparr>) d stop er x"

definition cb_header_value where
  "cb_header_value st d stop er x =
     CALLBACK_DATA HPE_CB_header_value (on_header_value st) (header_value_mark x)
       (\<lambda>x. x\<lparr>header_value_mark := None\<rparr>) d stop er x"

definition cb_url where
  "cb_url st d stop er x =
     CALLBACK_DATA HPE_CB_url (on_url st) (url_mark x)
       (\<lambda>x. x\<lparr>url_mark := None\<rparr>) d stop er x"

definition cb_body where
  "cb_body st d stop er x =
     CALLBACK_DATA HPE_CB_body (on_body st) (body_mark x)
       (\<lambda>x. x\<lparr>body_mark := None\<rparr>) d stop er x"

definition cb_status where
  "cb_status st d stop er x =
     CALLBACK_DATA HPE_CB_status (on_status st) (status_mark x)
       (\<lambda>x. x\<lparr>status_mark := None\<rparr>) d stop er x"

definition MARK :: "nat option \<Rightarrow> nat \<Rightarrow> nat option" where
  "MARK m q = (case m of None \<Rightarrow> Some q | Some r \<Rightarrow> Some r)"

section \<open>Start states and the status line\<close>

definition reset_message :: "'u http_parser \<Rightarrow> 'u http_parser" where
  "reset_message ps = ps\<lparr>flags := 0, content_length := ULLONG_MAX\<rparr>"

definition step_start :: "'u http_parser_settings \<Rightarrow> char \<Rightarrow> 'u exec \<Rightarrow> 'u step option" where
  "step_start st ch x =
     (case p_state x of
        s_dead \<Rightarrow> if ch = CR \<or> ch = LF then advance x else fail HPE_CLOSED_CONNECTION x
      | s_start_req_or_res \<Rightarrow>
          if ch = CR \<or> ch = LF then advance x
          else if ch = CHR ''H''
          then and_then (cb_message_begin st (int (p x) + 1)
                           (UPDATE_STATE s_res_or_resp_H (upd reset_message x))) advance
          else reexecute (UPDATE_STATE s_start_req
                 (upd (\<lambda>ps. (reset_message ps)\<lparr>parser_type := HTTP_REQUEST\<rparr>) x))
      | s_res_or_resp_H \<Rightarrow>
          if ch = CHR ''T''
          then advance (UPDATE_STATE s_res_HT (upd (\<lambda>ps. ps\<lparr>parser_type := HTTP_RESPONSE\<rparr>) x))
          else if ch \<noteq> CHR ''E'' then fail HPE_INVALID_CONSTANT x
          else advance (UPDATE_STATE s_req_method
                 (upd (\<lambda>ps. ps\<lparr>parser_type := HTTP_REQUEST, method := HTTP_HEAD, index := 2\<rparr>) x))
      | s_start_res \<Rightarrow>
          (let x1 = upd reset_message x
           in if ch = CHR ''H''
              then and_then (cb_message_begin st (int (p x) + 1) (UPDATE_STATE s_res_H x1)) advance
              else if ch = CR \<or> ch = LF
              then and_then (cb_message_begin st (int (p x) + 1) x1) advance
              else fail HPE_INVALID_CONSTANT x1)
      | _ \<Rightarrow> None)"

text \<open>Another digit of a version number or of the status code: at most 999.\<close>

definition more_digits :: "u16 \<Rightarrow> char \<Rightarrow> u16" where
  "more_digits n ch = n * 10 + word_of_int (digit_value ch)"

definition major_digit :: "char \<Rightarrow> 'u exec \<Rightarrow> 'u step option" where
  "major_digit ch x =
     (if \<not> IS_NUM ch then fail HPE_INVALID_VERSION x
      else let x1 = upd (\<lambda>ps. ps\<lparr>http_major := more_digits (http_major ps) ch\<rparr>) x
           in if 999 < http_major (parser x1) then fail HPE_INVALID_VERSION x1 else advance x1)"

definition minor_digit :: "char \<Rightarrow> 'u exec \<Rightarrow> 'u step option" where
  "minor_digit ch x =
     (if \<not> IS_NUM ch then fail HPE_INVALID_VERSION x
      else let x1 = upd (\<lambda>ps. ps\<lparr>http_minor := more_digits (http_minor ps) ch\<rparr>) x
           in if 999 < http_minor (parser x1) then fail HPE_INVALID_VERSION x1 else advance x1)"

definition first_minor_digit :: "char \<Rightarrow> state \<Rightarrow> 'u exec \<Rightarrow> 'u step option" where
  "first_minor_digit ch next x =
     (if \<not> IS_NUM ch then fail HPE_INVALID_VERSION x
      else advance (UPDATE_STATE next
             (upd (\<lambda>ps. ps\<lparr>http_minor := word_of_int (digit_value ch)\<rparr>) x)))"

definition step_res_version :: "char \<Rightarrow> 'u exec \<Rightarrow> 'u step option" where
  "step_res_version ch x =
     (case p_state x of
        s_res_H \<Rightarrow> STRICT_CHECK (ch \<noteq> CHR ''T'') x (advance (UPDATE_STATE s_res_HT x))
      | s_res_HT \<Rightarrow> STRICT_CHECK (ch \<noteq> CHR ''T'') x (advance (UPDATE_STATE s_res_HTT x))
      | s_res_HTT \<Rightarrow> STRICT_CHECK (ch \<noteq> CHR ''P'') x (advance (UPDATE_STATE s_res_HTTP x))
      | s_res_HTTP \<Rightarrow>
          STRICT_CHECK (ch \<noteq> CHR ''/'') x (advance (UPDATE_STATE s_res_first_http_major x))
      | s_res_first_http_major \<Rightarrow>
          if \<not> (char_le CHR ''0'' ch \<and> char_le ch CHR ''9'') then fail HPE_INVALID_VERSION x
          else advance (UPDATE_STATE s_res_http_major
                 (upd (\<lambda>ps. ps\<lparr>http_major := word_of_int (digit_value ch)\<rparr>) x))
      | s_res_http_major \<Rightarrow>
          if ch = CHR ''.'' then advance (UPDATE_STATE s_res_first_http_minor x)
          else major_digit ch x
      | s_res_first_http_minor \<Rightarrow> first_minor_digit ch s_res_http_minor x
      | s_res_http_minor \<Rightarrow>
          if ch = SP then advance (UPDATE_STATE s_res_first_status_code x)
          else minor_digit ch x
      | _ \<Rightarrow> None)"

definition step_res_status ::
  "'u http_parser_settings \<Rightarrow> string \<Rightarrow> char \<Rightarrow> 'u exec \<Rightarrow> 'u step option" where
  "step_res_status st d ch x =
     (case p_state x of
        s_res_first_status_code \<Rightarrow>
          if \<not> IS_NUM ch then (if ch = SP then advance x else fail HPE_INVALID_STATUS x)
          else advance (UPDATE_STATE s_res_status_code
                 (upd (\<lambda>ps. ps\<lparr>status_code := word_of_int (digit_value ch)\<rparr>) x))
      | s_res_status_code \<Rightarrow>
          if \<not> IS_NUM ch
          then (if ch = SP then advance (UPDATE_STATE s_res_status_start x)
                else if ch = CR then advance (UPDATE_STATE s_res_line_almost_done x)
                else if ch = LF then advance (UPDATE_STATE s_header_field_start x)
                else fail HPE_INVALID_STATUS x)
          else (let x1 = upd (\<lambda>ps. ps\<lparr>status_code := more_digits (status_code ps) ch\<rparr>) x
                in if 999 < status_code (parser x1) then fail HPE_INVALID_STATUS x1
                   else advance x1)
      | s_res_status_start \<Rightarrow>
          if ch = CR then advance (UPDATE_STATE s_res_line_almost_done x)
          else if ch = LF then advance (UPDATE_STATE s_header_field_start x)
          else advance (UPDATE_STATE s_res_status
                 (upd (\<lambda>ps. ps\<lparr>index := 0\<rparr>) (x\<lparr>status_mark := MARK (status_mark x) (p x)\<rparr>)))
      | s_res_status \<Rightarrow>
          if ch = CR
          then and_then (cb_status st d (p x) (int (p x) + 1) (UPDATE_STATE s_res_line_almost_done x))
                 advance
          else if ch = LF
          then and_then (cb_status st d (p x) (int (p x) + 1) (UPDATE_STATE s_header_field_start x))
                 advance
          else advance x
      | s_res_line_almost_done \<Rightarrow>
          STRICT_CHECK (ch \<noteq> LF) x (advance (UPDATE_STATE s_header_field_start x))
      | _ \<Rightarrow> None)"

section \<open>The request line\<close>

definition first_method :: "char \<Rightarrow> http_method option" where
  "first_method ch =
     (if ch = CHR ''C'' then Some HTTP_CONNECT
      else if ch = CHR ''D'' then Some HTTP_DELETE
      else if ch = CHR ''G'' then Some HTTP_GET
      else if ch = CHR ''H'' then Some HTTP_HEAD
      else if ch = CHR ''L'' then Some HTTP_LOCK
      else if ch = CHR ''M'' then Some HTTP_MKCOL
      else if ch = CHR ''N'' then Some HTTP_NOTIFY
      else if ch = CHR ''O'' then Some HTTP_OPTIONS
      else if ch = CHR ''P'' then Some HTTP_POST
      else if ch = CHR ''R'' then Some HTTP_REPORT
      else if ch = CHR ''S'' then Some HTTP_SUBSCRIBE
      else if ch = CHR ''T'' then Some HTTP_TRACE
      else if ch = CHR ''U'' then Some HTTP_UNLOCK
      else None)"

definition step_start_req :: "'u http_parser_settings \<Rightarrow> char \<Rightarrow> 'u exec \<Rightarrow> 'u step option" where
  "step_start_req st ch x =
     (if ch = CR \<or> ch = LF then advance x
      else let x1 = upd reset_message x
        in if \<not> IS_ALPHA ch then fail HPE_INVALID_METHOD x1
           else let x2 = upd (\<lambda>ps. ps\<lparr>method := HTTP_DELETE, index := 1\<rparr>) x1
             in case first_method ch of
                  None \<Rightarrow> fail HPE_INVALID_METHOD x2
                | Some m \<Rightarrow>
                    and_then (cb_message_begin st (int (p x) + 1)
                      (UPDATE_STATE s_req_method (upd (\<lambda>ps. ps\<lparr>method := m\<rparr>) x2))) advance)"

text \<open>Character \<open>i\<close> of a null-terminated string; a read after the null has no result.\<close>

definition c_string_at :: "string \<Rightarrow> nat \<Rightarrow> char option" where
  "c_string_at s i = (if i < length s then Some (s ! i) else if i = length s then Some NUL else None)"

text \<open>The method that the byte at \<open>index\<close> tells apart from the one assumed so far.\<close>

definition next_method :: "http_method \<Rightarrow> nat \<Rightarrow> char \<Rightarrow> http_method option" where
  "next_method m i ch =
     (if m = HTTP_CONNECT
      then (if i = 1 \<and> ch = CHR ''H'' then Some HTTP_CHECKOUT
            else if i = 2 \<and> ch = CHR ''P'' then Some HTTP_COPY else None)
      else if m = HTTP_MKCOL
      then (if i = 1 \<and> ch = CHR ''O'' then Some HTTP_MOVE
            else if i = 1 \<and> ch = CHR ''E'' then Some HTTP_MERGE
            else if i = 1 \<and> ch = CHR ''-'' then Some HTTP_MSEARCH
            else if i = 2 \<and> ch = CHR ''A'' then Some HTTP_MKACTIVITY
            else if i = 3 \<and> ch = CHR ''A'' then Some HTTP_MKCALENDAR else None)
      else if m = HTTP_SUBSCRIBE
      then (if i = 1 \<and> ch = CHR ''E'' then Some HTTP_SEARCH else None)
      else if i = 1 \<and> m = HTTP_POST
      then (if ch = CHR ''R'' then Some HTTP_PROPFIND
            else if ch = CHR ''U'' then Some HTTP_PUT
            else if ch = CHR ''A'' then Some HTTP_PATCH else None)
      else if i = 2
      then (if m = HTTP_PUT then (if ch = CHR ''R'' then Some HTTP_PURGE else None)
            else if m = HTTP_UNLOCK then (if ch = CHR ''S'' then Some HTTP_UNSUBSCRIBE else None)
            else None)
      else if i = 4 \<and> m = HTTP_PROPFIND \<and> ch = CHR ''P'' then Some HTTP_PROPPATCH
      else None)"

definition step_req_method :: "char \<Rightarrow> 'u exec \<Rightarrow> 'u step option" where
  "step_req_method ch x =
     (if ch = NUL then fail HPE_INVALID_METHOD x
      else let i = unat (index (parser x)); m = method (parser x);
               bump = (\<lambda>ps. ps\<lparr>index := index ps + 1\<rparr>)
        in case c_string_at (http_method_str m) i of
             None \<Rightarrow> None
           | Some expected \<Rightarrow>
               if ch = SP \<and> expected = NUL
               then advance (UPDATE_STATE s_req_spaces_before_url (upd bump x))
               else if ch = expected then advance (upd bump x)
               else case next_method m i ch of
                      None \<Rightarrow> fail HPE_INVALID_METHOD x
                    | Some m' \<Rightarrow> advance (upd (\<lambda>ps. bump (ps\<lparr>method := m'\<rparr>)) x))"

text \<open>The transition of the URL automaton inside the parser.\<close>

definition url_byte :: "char \<Rightarrow> 'u exec \<Rightarrow> 'u step option" where
  "url_byte ch x =
     (let x1 = UPDATE_STATE (parse_url_char (p_state x) ch) x
      in if p_state x1 = s_dead then fail HPE_INVALID_URL x1 else advance x1)"

definition step_req_url ::
  "'u http_parser_settings \<Rightarrow> string \<Rightarrow> char \<Rightarrow> 'u exec \<Rightarrow> 'u step option" where
  "step_req_url st d ch x =
     (case p_state x of
        s_req_spaces_before_url \<Rightarrow>
          if ch = SP then advance x
          else (let x1 = x\<lparr>url_mark := MARK (url_mark x) (p x)\<rparr>;
                    x2 = (if method (parser x1) = HTTP_CONNECT
                          then UPDATE_STATE s_req_server_start x1 else x1)
                in url_byte ch x2)
      | s_req_schema \<Rightarrow>
          if ch = SP \<or> ch = CR \<or> ch = LF then fail HPE_INVALID_URL x else url_byte ch x
      | s_req_schema_slash \<Rightarrow>
          if ch = SP \<or> ch = CR \<or> ch = LF then fail HPE_INVALID_URL x else url_byte ch x
      | s_req_schema_slash_slash \<Rightarrow>
          if ch = SP \<or> ch = CR \<or> ch = LF then fail HPE_INVALID_URL x else url_byte ch x
      | s_req_server_start \<Rightarrow>
          if ch = SP \<or> ch = CR \<or> ch = LF then fail HPE_INVALID_URL x else url_byte ch x
      | _ \<Rightarrow>
          if ch = SP
          then and_then (cb_url st d (p x) (int (p x) + 1) (UPDATE_STATE s_req_http_start x)) advance
          else if ch = CR \<or> ch = LF
          then and_then (cb_url st d (p x) (int (p x) + 1)
                 (UPDATE_STATE (if ch = CR then s_req_line_almost_done else s_header_field_start)
                   (upd (\<lambda>ps. ps\<lparr>http_major := 0, http_minor := 9\<rparr>) x))) advance
          else url_byte ch x)"

definition step_req_version :: "char \<Rightarrow> 'u exec \<Rightarrow> 'u step option" where
  "step_req_version ch x =
     (case p_state x of
        s_req_http_start \<Rightarrow>
          if ch = CHR ''H'' then advance (UPDATE_STATE s_req_http_H x)
          else if ch = SP then advance x
          else fail HPE_INVALID_CONSTANT x
      | s_req_http_H \<Rightarrow> STRICT_CHECK (ch \<noteq> CHR ''T'') x (advance (UPDATE_STATE s_req_http_HT x))
      | s_req_http_HT \<Rightarrow> STRICT_CHECK (ch \<noteq> CHR ''T'') x (advance (UPDATE_STATE s_req_http_HTT x))
      | s_req_http_HTT \<Rightarrow> STRICT_CHECK (ch \<noteq> CHR ''P'') x (advance (UPDATE_STATE s_req_http_HTTP x))
      | s_req_http_HTTP \<Rightarrow>
          STRICT_CHECK (ch \<noteq> CHR ''/'') x (advance (UPDATE_STATE s_req_first_http_major x))
      | s_req_first_http_major \<Rightarrow>
          if \<not> (char_le CHR ''1'' ch \<and> char_le ch CHR ''9'') then fail HPE_INVALID_VERSION x
          else advance (UPDATE_STATE s_req_http_major
                 (upd (\<lambda>ps. ps\<lparr>http_major := word_of_int (digit_value ch)\<rparr>) x))
      | s_req_http_major \<Rightarrow>
          if ch = CHR ''.'' then advance (UPDATE_STATE s_req_first_http_minor x)
          else major_digit ch x
      | s_req_first_http_minor \<Rightarrow> first_minor_digit ch s_req_http_minor x
      | s_req_http_minor \<Rightarrow>
          if ch = CR then advance (UPDATE_STATE s_req_line_almost_done x)
          else if ch = LF then advance (UPDATE_STATE s_header_field_start x)
          else minor_digit ch x
      | s_req_line_almost_done \<Rightarrow>
          if ch \<noteq> LF then fail HPE_LF_EXPECTED x
          else advance (UPDATE_STATE s_header_field_start x)
      | _ \<Rightarrow> None)"

section \<open>Header fields\<close>

text \<open>
  One more byte of a header name (or value) that is compared with the string \<open>s\<close>; \<open>other\<close> is
  the state of a mismatch and \<open>found\<close> the one of the last byte.
\<close>

definition match_next ::
  "string \<Rightarrow> char \<Rightarrow> 'h \<Rightarrow> 'h \<Rightarrow> 'h \<Rightarrow> 'u http_parser \<Rightarrow> 'h \<times> 'u http_parser" where
  "match_next s c same other found ps =
     (let ps' = ps\<lparr>index := index ps + 1\<rparr>; i = unat (index ps')
      in if length s < i \<or> c_string_at s i \<noteq> Some c then (other, ps')
         else if i = length s - 1 then (found, ps') else (same, ps'))"

definition match_field ::
  "string \<Rightarrow> char \<Rightarrow> header_states \<Rightarrow> 'u http_parser \<Rightarrow> 'u http_parser" where
  "match_field s c found ps =
     (let (hs, ps') = match_next s c (header_state ps) h_general found ps
      in ps'\<lparr>header_state := hs\<rparr>)"

definition header_field_char :: "'u http_parser \<Rightarrow> char \<Rightarrow> char \<Rightarrow> 'u http_parser option" where
  "header_field_char ps c ch =
     (let bumped = ps\<lparr>index := index ps + 1\<rparr>
      in case header_state ps of
        h_general \<Rightarrow> Some ps
      | h_C \<Rightarrow> Some (bumped\<lparr>header_state := (if c = CHR ''o'' then h_CO else h_general)\<rparr>)
      | h_CO \<Rightarrow> Some (bumped\<lparr>header_state := (if c = CHR ''n'' then h_CON else h_general)\<rparr>)
      | h_CON \<Rightarrow>
          Some (bumped\<lparr>header_state :=
            (if c = CHR ''n'' then h_matching_connection
             else if c = CHR ''t'' then h_matching_content_length else h_general)\<rparr>)
      | h_matching_connection \<Rightarrow> Some (match_field ''connection'' c h_connection ps)
      | h_matching_proxy_connection \<Rightarrow> Some (match_field ''proxy-connection'' c h_connection ps)
      | h_matching_content_length \<Rightarrow> Some (match_field ''content-length'' c h_content_length ps)
      | h_matching_transfer_encoding \<Rightarrow>
          Some (match_field ''transfer-encoding'' c h_transfer_encoding ps)
      | h_matching_upgrade \<Rightarrow> Some (match_field ''upgrade'' c h_upgrade ps)
      | h_connection \<Rightarrow> Some (if ch \<noteq> SP then ps\<lparr>header_state := h_general\<rparr> else ps)
      | h_content_length \<Rightarrow> Some (if ch \<noteq> SP then ps\<lparr>header_state := h_general\<rparr> else ps)
      | h_transfer_encoding \<Rightarrow> Some (if ch \<noteq> SP then ps\<lparr>header_state := h_general\<rparr> else ps)
      | h_upgrade \<Rightarrow> Some (if ch \<noteq> SP then ps\<lparr>header_state := h_general\<rparr> else ps)
      | _ \<Rightarrow> None)"

text \<open>The inner loop over the bytes of a field name: the bytes left, from the first non-token.\<close>

fun header_field_loop :: "string \<Rightarrow> 'u http_parser \<Rightarrow> (string \<times> 'u http_parser) option" where
  "header_field_loop [] ps = Some ([], ps)"
| "header_field_loop (ch # cs) ps =
     (let c = TOKEN ch
      in if c = NUL then Some (ch # cs, ps)
         else case header_field_char ps c ch of
                None \<Rightarrow> None
              | Some ps' \<Rightarrow> header_field_loop cs ps')"

definition step_header_field ::
  "'u http_parser_settings \<Rightarrow> string \<Rightarrow> char \<Rightarrow> 'u exec \<Rightarrow> 'u step option" where
  "step_header_field st d ch x =
     (case p_state x of
        s_header_field_start \<Rightarrow>
          if ch = CR then advance (UPDATE_STATE s_headers_almost_done x)
          else if ch = LF then reexecute (UPDATE_STATE s_headers_almost_done x)
          else (let c = TOKEN ch
            in if c = NUL then fail HPE_INVALID_HEADER_TOKEN x
               else advance (UPDATE_STATE s_header_field
                 (upd (\<lambda>ps. ps\<lparr>index := 0, header_state :=
                    (if c = CHR ''c'' then h_C
                     else if c = CHR ''p'' then h_matching_proxy_connection
                     else if c = CHR ''t'' then h_matching_transfer_encoding
                     else if c = CHR ''u'' then h_matching_upgrade
                     else h_general)\<rparr>)
                   (x\<lparr>header_field_mark := MARK (header_field_mark x) (p x)\<rparr>))))
      | s_header_field \<Rightarrow>
          (case header_field_loop (drop (p x) d) (parser x) of
             None \<Rightarrow> None
           | Some (rest, ps) \<Rightarrow>
               (let start = p x; q = length d - length rest
                in and_then (COUNT_HEADER_SIZE (int q - int start) (int q) (x\<lparr>parser := ps, p := q\<rparr>))
                    (\<lambda>x1. case rest of
                       [] \<Rightarrow> Some (Continue x1)
                     | c # _ \<Rightarrow>
                         if c = CHR '':''
                         then and_then (cb_header_field st d q (int q + 1)
                                (UPDATE_STATE s_header_value_discard_ws x1)) advance
                         else fail HPE_INVALID_HEADER_TOKEN x1)))
      | _ \<Rightarrow> None)"

section \<open>Header values\<close>

definition header_value_start ::
  "char \<Rightarrow> 'u exec \<Rightarrow> 'u step option" where
  "header_value_start ch x0 =
     (let x = UPDATE_STATE s_header_value
                (upd (\<lambda>ps. ps\<lparr>index := 0\<rparr>)
                  (x0\<lparr>header_value_mark := MARK (header_value_mark x0) (p x0)\<rparr>));
          c = LOWER ch;
          goto = (\<lambda>hs. advance (upd (\<lambda>ps. ps\<lparr>header_state := hs\<rparr>) x))
      in case header_state (parser x) of
        h_upgrade \<Rightarrow> advance (upd (\<lambda>ps. (set_flag F_UPGRADE ps)\<lparr>header_state := h_general\<rparr>) x)
      | h_transfer_encoding \<Rightarrow>
          goto (if c = CHR ''c'' then h_matching_transfer_encoding_chunked else h_general)
      | h_content_length \<Rightarrow>
          if \<not> IS_NUM ch then fail HPE_INVALID_CONTENT_LENGTH x
          else advance (upd (\<lambda>ps. ps\<lparr>content_length := word_of_int (digit_value ch)\<rparr>) x)
      | h_connection \<Rightarrow>
          goto (if c = CHR ''k'' then h_matching_connection_keep_alive
                else if c = CHR ''c'' then h_matching_connection_close
                else if c = CHR ''u'' then h_matching_connection_upgrade
                else h_matching_connection_token)
      | h_matching_connection_token_start \<Rightarrow> advance x
      | _ \<Rightarrow> goto h_general)"

text \<open>
  A byte of a value in every header state but \<open>h_general\<close>: the next header state and parser,
  or the error; \<open>None\<close> is the assertion that the state cannot occur.
\<close>

definition header_value_char ::
  "header_states \<Rightarrow> char \<Rightarrow> 'u http_parser \<Rightarrow> (http_errno + header_states \<times> 'u http_parser) option" where
  "header_value_char h_state ch ps =
     (let c = LOWER ch;
          separated = (\<lambda>f. Some (Inr
            (if ch = CHR '','' then (h_matching_connection_token_start, (set_flag f ps)\<lparr>index := 0\<rparr>)
             else if ch \<noteq> SP then (h_matching_connection_token, ps) else (h_state, ps))))
      in case h_state of
        h_connection \<Rightarrow> None
      | h_transfer_encoding \<Rightarrow> None
      | h_content_length \<Rightarrow>
          if ch = SP then Some (Inr (h_state, ps))
          else if \<not> IS_NUM ch then Some (Inl HPE_INVALID_CONTENT_LENGTH)
          else (let t = content_length ps * 10 + word_of_int (digit_value ch)
                in if (ULLONG_MAX - 10) div 10 < content_length ps
                   then Some (Inl HPE_INVALID_CONTENT_LENGTH)
                   else Some (Inr (h_state, ps\<lparr>content_length := t\<rparr>)))
      | h_matching_transfer_encoding_chunked \<Rightarrow>
          Some (Inr (match_next ''chunked'' c h_state h_general h_transfer_encoding_chunked ps))
      | h_matching_connection_token_start \<Rightarrow>
          Some (Inr ((if c = CHR ''k'' then h_matching_connection_keep_alive
                      else if c = CHR ''c'' then h_matching_connection_close
                      else if c = CHR ''u'' then h_matching_connection_upgrade
                      else if TOKEN c \<noteq> NUL then h_matching_connection_token
                      else if c = SP \<or> c = TAB then h_state
                      else h_general), ps))
      | h_matching_connection_keep_alive \<Rightarrow>
          Some (Inr (match_next ''keep-alive'' c h_state h_matching_connection_token
                       h_connection_keep_alive ps))
      | h_matching_connection_close \<Rightarrow>
          Some (Inr (match_next ''close'' c h_state h_matching_connection_token
                       h_connection_close ps))
      | h_matching_connection_upgrade \<Rightarrow>
          Some (Inr (match_next ''upgrade'' c h_state h_matching_connection_token
                       h_connection_upgrade ps))
      | h_matching_connection_token \<Rightarrow>
          Some (Inr (if ch = CHR '','' then (h_matching_connection_token_start, ps\<lparr>index := 0\<rparr>)
                     else (h_state, ps)))
      | h_transfer_encoding_chunked \<Rightarrow>
          Some (Inr ((if ch \<noteq> SP then h_general else h_state), ps))
      | h_connection_keep_alive \<Rightarrow> separated F_CONNECTION_KEEP_ALIVE
      | h_connection_close \<Rightarrow> separated F_CONNECTION_CLOSE
      | h_connection_upgrade \<Rightarrow> separated F_CONNECTION_UPGRADE
      | _ \<Rightarrow> Some (Inr (h_general, ps)))"

text \<open>\<open>memchr\<close>: the offset of the first \<open>c\<close> among the first \<open>limit\<close> bytes.\<close>

definition memchr :: "string \<Rightarrow> char \<Rightarrow> nat \<Rightarrow> nat option" where
  "memchr s c limit =
     (let t = take limit s; n = length (takeWhile (\<lambda>b. b \<noteq> c) t)
      in if n < length t then Some n else None)"

text \<open>
  In \<open>h_general\<close> the rest of the line is skipped: the offset of the next CR or LF, found within
  \<open>HTTP_MAX_HEADER_SIZE\<close> bytes, or the end of the data.
\<close>

definition general_skip :: "string \<Rightarrow> nat \<Rightarrow> nat" where
  "general_skip d q =
     (let rest = drop q d;
          limit = nat (min (int (length d) - int q) HTTP_MAX_HEADER_SIZE);
          p_cr = memchr rest CR limit; p_lf = memchr rest LF limit
      in case p_cr of
           Some i \<Rightarrow> (case p_lf of Some j \<Rightarrow> if j \<le> i then q + j else q + i | None \<Rightarrow> q + i)
         | None \<Rightarrow> (case p_lf of Some j \<Rightarrow> q + j | None \<Rightarrow> length d))"

text \<open>The code after the loop; \<open>q\<close> is \<open>p\<close> there and \<open>next\<close> the offset of the next byte.\<close>

definition header_value_end :: "header_states \<Rightarrow> nat \<Rightarrow> int \<Rightarrow> nat \<Rightarrow> 'u exec \<Rightarrow> 'u step option" where
  "header_value_end h_state start q next x =
     COUNT_HEADER_SIZE (q - int start) q
       (upd (\<lambda>ps. ps\<lparr>header_state := h_state\<rparr>) (x\<lparr>p := next\<rparr>))"

datatype 'u value_loop = Stay header_states "'u exec" | Leave "'u step option"

definition header_value_byte ::
  "'u http_parser_settings \<Rightarrow> string \<Rightarrow> nat \<Rightarrow> header_states \<Rightarrow> 'u exec \<Rightarrow> 'u value_loop" where
  "header_value_byte st d start h_state x =
     (let q = p x; ch = d ! q; keep = upd (\<lambda>ps. ps\<lparr>header_state := h_state\<rparr>)
      in if ch = CR
         then Leave (and_then (cb_header_value st d q (int q + 1) (keep (UPDATE_STATE s_header_almost_done x)))
                (header_value_end h_state start (int q) (q + 1)))
         else if ch = LF
         then Leave (and_then (COUNT_HEADER_SIZE (int q - int start) (int q) (UPDATE_STATE s_header_almost_done x))
                (\<lambda>x1. and_then (cb_header_value st d q (int q) (keep x1))
                  (header_value_end h_state start (int q - 1) q)))
         else if h_state = h_general
         then Stay h_state (x\<lparr>p := general_skip d q\<rparr>)
         else case header_value_char h_state ch (parser x) of
                None \<Rightarrow> Leave None
              | Some (Inl e) \<Rightarrow> Leave (fail e (keep x))
              | Some (Inr (hs, ps)) \<Rightarrow> Stay hs (x\<lparr>parser := ps, p := q + 1\<rparr>))"

lemma general_skip_bounds:
  assumes "q < length d" "d ! q \<noteq> CR" "d ! q \<noteq> LF"
  shows "q < general_skip d q" "general_skip d q \<le> length d"
proof -
  let ?l = "nat (min (int (length d) - int q) HTTP_MAX_HEADER_SIZE)"
  have "0 < ?l" using assms(1) by (simp add: HTTP_MAX_HEADER_SIZE_def)
  then have t: "\<exists>t. take ?l (drop q d) = (d ! q) # t"
    using assms(1) by (metis Cons_nth_drop_Suc Suc_pred take_Suc_Cons)
  have m: "0 < i \<and> q + i < length d" if "memchr (drop q d) c ?l = Some i" "d ! q \<noteq> c" for c i
    using that t assms(1) by (auto simp: memchr_def Let_def split: if_splits)
  show "q < general_skip d q" "general_skip d q \<le> length d"
    using m assms by (auto simp: general_skip_def Let_def split: option.splits if_splits dest!: m)
qed

lemma header_value_byte_progress:
  assumes "header_value_byte st d start h_state x = Stay hs x'" "p x < length d"
  shows "p x < p x'" "p x' \<le> length d"
  using assms general_skip_bounds [of "p x" d]
  by (auto simp: header_value_byte_def Let_def split: if_splits option.splits sum.splits prod.splits)

function header_value_loop ::
  "'u http_parser_settings \<Rightarrow> string \<Rightarrow> nat \<Rightarrow> header_states \<Rightarrow> 'u exec \<Rightarrow> 'u step option" where
  "header_value_loop st d start h_state x =
     (if p x < length d
      then (case header_value_byte st d start h_state x of
              Leave r \<Rightarrow> r
            | Stay hs x' \<Rightarrow> header_value_loop st d start hs x')
      else header_value_end h_state start (int (p x)) (p x) x)"
  by pat_completeness auto
termination
  by (relation "measure (\<lambda>(st, d, start, h_state, x). length d - p x)")
    (auto dest: header_value_byte_progress)

declare header_value_loop.simps [simp del]

text \<open>The flag that a finished header sets.\<close>

definition finish_header :: "'u http_parser \<Rightarrow> 'u http_parser" where
  "finish_header ps =
     (case header_state ps of
        h_connection_keep_alive \<Rightarrow> set_flag F_CONNECTION_KEEP_ALIVE ps
      | h_connection_close \<Rightarrow> set_flag F_CONNECTION_CLOSE ps
      | h_transfer_encoding_chunked \<Rightarrow> set_flag F_CHUNKED ps
      | h_connection_upgrade \<Rightarrow> set_flag F_CONNECTION_UPGRADE ps
      | _ \<Rightarrow> ps)"

definition step_header_value ::
  "'u http_parser_settings \<Rightarrow> string \<Rightarrow> char \<Rightarrow> 'u exec \<Rightarrow> 'u step option" where
  "step_header_value st d ch x =
     (case p_state x of
        s_header_value_discard_ws \<Rightarrow>
          if ch = SP \<or> ch = TAB then advance x
          else if ch = CR then advance (UPDATE_STATE s_header_value_discard_ws_almost_done x)
          else if ch = LF then advance (UPDATE_STATE s_header_value_discard_lws x)
          else header_value_start ch x
      | s_header_value_start \<Rightarrow> header_value_start ch x
      | s_header_value \<Rightarrow> header_value_loop st d (p x) (header_state (parser x)) x
      | s_header_almost_done \<Rightarrow>
          STRICT_CHECK (ch \<noteq> LF) x (advance (UPDATE_STATE s_header_value_lws x))
      | s_header_value_lws \<Rightarrow>
          if ch = SP \<or> ch = TAB then reexecute (UPDATE_STATE s_header_value_start x)
          else reexecute (UPDATE_STATE s_header_field_start (upd finish_header x))
      | s_header_value_discard_ws_almost_done \<Rightarrow>
          STRICT_CHECK (ch \<noteq> LF) x (advance (UPDATE_STATE s_header_value_discard_lws x))
      | s_header_value_discard_lws \<Rightarrow>
          if ch = SP \<or> ch = TAB then advance (UPDATE_STATE s_header_value_discard_ws x)
          else (let x1 = upd finish_header x;
                    x2 = x1\<lparr>header_value_mark := MARK (header_value_mark x1) (p x)\<rparr>
                in and_then (cb_header_value st d (p x) (int (p x))
                     (UPDATE_STATE s_header_field_start x2)) reexecute)
      | _ \<Rightarrow> None)"

section \<open>The end of the headers\<close>

text \<open>\<open>on_headers_complete\<close> sees the \<open>state\<close> field as the last callback left it.\<close>

definition headers_complete :: "'u http_parser_settings \<Rightarrow> 'u exec \<Rightarrow> 'u step option" where
  "headers_complete st x =
     (case on_headers_complete st of
        None \<Rightarrow> Some (Continue x)
      | Some f \<Rightarrow>
          (let (rc, ps) = f (parser x); x1 = x\<lparr>parser := ps\<rparr>
           in if rc = 0 then Some (Continue x1)
              else if rc = 1 then Some (Continue (upd (set_flag F_SKIPBODY) x1))
              else RETURN (int (p x)) (upd (SET_ERRNO HPE_CB_headers_complete) x1)))"

definition step_headers_almost_done ::
  "'u http_parser_settings \<Rightarrow> char \<Rightarrow> 'u exec \<Rightarrow> 'u step option" where
  "step_headers_almost_done st ch x =
     STRICT_CHECK (ch \<noteq> LF) x
       (if flag_set (parser x) F_TRAILING
        then and_then (cb_message_complete st (int (p x) + 1)
                         (UPDATE_STATE (NEW_MESSAGE (parser x)) x)) advance
        else
          (let x1 = UPDATE_STATE s_headers_done x;
               both = F_UPGRADE OR F_CONNECTION_UPGRADE;
               x2 = upd (\<lambda>ps. ps\<lparr>upgrade :=
                 (uint (flags ps) AND both = both \<or> method ps = HTTP_CONNECT)\<rparr>) x1
           in and_then (headers_complete st x2)
                (\<lambda>x3. if http_errno (parser x3) \<noteq> HPE_OK then RETURN (int (p x3)) x3
                      else reexecute x3)))"

definition step_headers_done ::
  "'u http_parser_settings \<Rightarrow> char \<Rightarrow> 'u exec \<Rightarrow> 'u step option" where
  "step_headers_done st ch x0 =
     STRICT_CHECK (ch \<noteq> LF) x0
       (let x = upd (\<lambda>ps. ps\<lparr>nread := 0\<rparr>) x0;
            ps = parser x;
            complete = cb_message_complete st (int (p x) + 1) (UPDATE_STATE (NEW_MESSAGE ps) x)
        in if upgrade ps
           then and_then complete (\<lambda>x1. RETURN (int (p x1) + 1) x1)
           else if flag_set ps F_SKIPBODY then and_then complete advance
           else if flag_set ps F_CHUNKED then advance (UPDATE_STATE s_chunk_size_start x)
           else if content_length ps = 0 then and_then complete advance
           else if content_length ps \<noteq> ULLONG_MAX then advance (UPDATE_STATE s_body_identity x)
           else if parser_type ps = HTTP_REQUEST \<or> \<not> http_message_needs_eof ps
           then and_then complete advance
           else advance (UPDATE_STATE s_body_identity_eof x))"

section \<open>The body\<close>

definition body_to_read :: "string \<Rightarrow> 'u exec \<Rightarrow> u64" where
  "body_to_read d x = min (content_length (parser x)) (of_nat (length d - p x))"

definition step_body ::
  "'u http_parser_settings \<Rightarrow> string \<Rightarrow> char \<Rightarrow> 'u exec \<Rightarrow> 'u step option" where
  "step_body st d ch x =
     (case p_state x of
        s_body_identity \<Rightarrow>
          (let to_read = body_to_read d x; cl = content_length (parser x)
           in if cl = 0 \<or> cl = ULLONG_MAX then None
              else let x1 = upd (\<lambda>ps. ps\<lparr>content_length := cl - to_read\<rparr>)
                              (x\<lparr>body_mark := MARK (body_mark x) (p x)\<rparr>);
                       stop = p x + unat to_read
                in if cl - to_read = 0
                   then and_then (cb_body st d stop (int stop - 1)
                          (UPDATE_STATE s_message_done (x1\<lparr>p := stop - 1\<rparr>))) reexecute
                   else Some (Continue (x1\<lparr>p := stop\<rparr>)))
      | s_body_identity_eof \<Rightarrow>
          Some (Continue (x\<lparr>body_mark := MARK (body_mark x) (p x), p := length d\<rparr>))
      | s_message_done \<Rightarrow>
          and_then (cb_message_complete st (int (p x) + 1)
                      (UPDATE_STATE (NEW_MESSAGE (parser x)) x)) advance
      | _ \<Rightarrow> None)"

definition step_chunk_size :: "char \<Rightarrow> 'u exec \<Rightarrow> 'u step option" where
  "step_chunk_size ch x =
     (let unhex_val = unhex_at ch; cl = content_length (parser x)
      in case p_state x of
        s_chunk_size_start \<Rightarrow>
          if nread (parser x) \<noteq> 1 \<or> \<not> flag_set (parser x) F_CHUNKED then None
          else if unhex_val = -1 then fail HPE_INVALID_CHUNK_SIZE x
          else advance (UPDATE_STATE s_chunk_size
                 (upd (\<lambda>ps. ps\<lparr>content_length := word_of_int unhex_val\<rparr>) x))
      | s_chunk_size \<Rightarrow>
          if \<not> flag_set (parser x) F_CHUNKED then None
          else if ch = CR then advance (UPDATE_STATE s_chunk_size_almost_done x)
          else if unhex_val = -1
          then (if ch = CHR '';'' \<or> ch = SP then advance (UPDATE_STATE s_chunk_parameters x)
                else fail HPE_INVALID_CHUNK_SIZE x)
          else if (ULLONG_MAX - 16) div 16 < cl then fail HPE_INVALID_CONTENT_LENGTH x
          else advance (upd (\<lambda>ps. ps\<lparr>content_length := cl * 16 + word_of_int unhex_val\<rparr>) x)
      | s_chunk_parameters \<Rightarrow>
          if \<not> flag_set (parser x) F_CHUNKED then None
          else if ch = CR then advance (UPDATE_STATE s_chunk_size_almost_done x)
          else advance x
      | s_chunk_size_almost_done \<Rightarrow>
          if \<not> flag_set (parser x) F_CHUNKED then None
          else STRICT_CHECK (ch \<noteq> LF) x
            (let x1 = upd (\<lambda>ps. ps\<lparr>nread := 0\<rparr>) x
             in if cl = 0
                then advance (UPDATE_STATE s_header_field_start (upd (set_flag F_TRAILING) x1))
                else advance (UPDATE_STATE s_chunk_data x1))
      | _ \<Rightarrow> None)"

definition step_chunk_data ::
  "'u http_parser_settings \<Rightarrow> string \<Rightarrow> char \<Rightarrow> 'u exec \<Rightarrow> 'u step option" where
  "step_chunk_data st d ch x =
     (let cl = content_length (parser x)
      in if \<not> flag_set (parser x) F_CHUNKED then None
         else case p_state x of
           s_chunk_data \<Rightarrow>
             (let to_read = body_to_read d x
              in if cl = 0 \<or> cl = ULLONG_MAX then None
                 else let x1 = upd (\<lambda>ps. ps\<lparr>content_length := cl - to_read\<rparr>)
                        (x\<lparr>body_mark := MARK (body_mark x) (p x), p := p x + unat to_read\<rparr>)
                   in Some (Continue (if cl - to_read = 0
                                      then UPDATE_STATE s_chunk_data_almost_done x1 else x1)))
         | s_chunk_data_almost_done \<Rightarrow>
             if cl \<noteq> 0 then None
             else STRICT_CHECK (ch \<noteq> CR) x
               (and_then (cb_body st d (p x) (int (p x) + 1) (UPDATE_STATE s_chunk_data_done x))
                  advance)
         | s_chunk_data_done \<Rightarrow>
             STRICT_CHECK (ch \<noteq> LF) x
               (advance (UPDATE_STATE s_chunk_size_start (upd (\<lambda>ps. ps\<lparr>nread := 0\<rparr>) x)))
         | _ \<Rightarrow> None)"

section \<open>The loop over the data\<close>

definition exec_state ::
  "'u http_parser_settings \<Rightarrow> string \<Rightarrow> char \<Rightarrow> 'u exec \<Rightarrow> 'u step option" where
  "exec_state st d ch x =
     (case p_state x of
     s_dead \<Rightarrow> step_start st ch x
   | s_start_req_or_res \<Rightarrow> step_start st ch x
   | s_res_or_resp_H \<Rightarrow> step_start st ch x
   | s_start_res \<Rightarrow> step_start st ch x
   | s_res_H \<Rightarrow> step_res_version ch x
   | s_res_HT \<Rightarrow> step_res_version ch x
   | s_res_HTT \<Rightarrow> step_res_version ch x
   | s_res_HTTP \<Rightarrow> step_res_version ch x
   | s_res_first_http_major \<Rightarrow> step_res_version ch x
   | s_res_http_major \<Rightarrow> step_res_version ch x
   | s_res_first_http_minor \<Rightarrow> step_res_version ch x
   | s_res_http_minor \<Rightarrow> step_res_version ch x
   | s_res_first_status_code \<Rightarrow> step_res_status st d ch x
   | s_res_status_code \<Rightarrow> step_res_status st d ch x
   | s_res_status_start \<Rightarrow> step_res_status st d ch x
   | s_res_status \<Rightarrow> step_res_status st d ch x
   | s_res_line_almost_done \<Rightarrow> step_res_status st d ch x
   | s_start_req \<Rightarrow> step_start_req st ch x
   | s_req_method \<Rightarrow> step_req_method ch x
   | s_req_spaces_before_url \<Rightarrow> step_req_url st d ch x
   | s_req_schema \<Rightarrow> step_req_url st d ch x
   | s_req_schema_slash \<Rightarrow> step_req_url st d ch x
   | s_req_schema_slash_slash \<Rightarrow> step_req_url st d ch x
   | s_req_server_start \<Rightarrow> step_req_url st d ch x
   | s_req_server \<Rightarrow> step_req_url st d ch x
   | s_req_server_with_at \<Rightarrow> step_req_url st d ch x
   | s_req_path \<Rightarrow> step_req_url st d ch x
   | s_req_query_string_start \<Rightarrow> step_req_url st d ch x
   | s_req_query_string \<Rightarrow> step_req_url st d ch x
   | s_req_fragment_start \<Rightarrow> step_req_url st d ch x
   | s_req_fragment \<Rightarrow> step_req_url st d ch x
   | s_req_http_start \<Rightarrow> step_req_version ch x
   | s_req_http_H \<Rightarrow> step_req_version ch x
   | s_req_http_HT \<Rightarrow> step_req_version ch x
   | s_req_http_HTT \<Rightarrow> step_req_version ch x
   | s_req_http_HTTP \<Rightarrow> step_req_version ch x
   | s_req_first_http_major \<Rightarrow> step_req_version ch x
   | s_req_http_major \<Rightarrow> step_req_version ch x
   | s_req_first_http_minor \<Rightarrow> step_req_version ch x
   | s_req_http_minor \<Rightarrow> step_req_version ch x
   | s_req_line_almost_done \<Rightarrow> step_req_version ch x
   | s_header_field_start \<Rightarrow> step_header_field st d ch x
   | s_header_field \<Rightarrow> step_header_field st d ch x
   | s_header_value_discard_ws \<Rightarrow> step_header_value st d ch x
   | s_header_value_discard_ws_almost_done \<Rightarrow> step_header_value st d ch x
   | s_header_value_discard_lws \<Rightarrow> step_header_value st d ch x
   | s_header_value_start \<Rightarrow> step_header_value st d ch x
   | s_header_value \<Rightarrow> step_header_value st d ch x
   | s_header_value_lws \<Rightarrow> step_header_value st d ch x
   | s_header_almost_done \<Rightarrow> step_header_value st d ch x
   | s_chunk_size_start \<Rightarrow> step_chunk_size ch x
   | s_chunk_size \<Rightarrow> step_chunk_size ch x
   | s_chunk_parameters \<Rightarrow> step_chunk_size ch x
   | s_chunk_size_almost_done \<Rightarrow> step_chunk_size ch x
   | s_headers_almost_done \<Rightarrow> step_headers_almost_done st ch x
   | s_headers_done \<Rightarrow> step_headers_done st ch x
   | s_chunk_data \<Rightarrow> step_chunk_data st d ch x
   | s_chunk_data_almost_done \<Rightarrow> step_chunk_data st d ch x
   | s_chunk_data_done \<Rightarrow> step_chunk_data st d ch x
   | s_body_identity \<Rightarrow> step_body st d ch x
   | s_body_identity_eof \<Rightarrow> step_body st d ch x
   | s_message_done \<Rightarrow> step_body st d ch x)"

definition exec_byte :: "'u http_parser_settings \<Rightarrow> string \<Rightarrow> 'u exec \<Rightarrow> 'u step option" where
  "exec_byte st d x =
     (if PARSING_HEADER (p_state x)
      then and_then (COUNT_HEADER_SIZE 1 (int (p x)) x) (exec_state st d (d ! p x))
      else exec_state st d (d ! p x) x)"

text \<open>No result: a failed assertion, or a loop that never ends.\<close>

partial_function (option) exec_loop ::
  "'u http_parser_settings \<Rightarrow> string \<Rightarrow> 'u exec \<Rightarrow> 'u step option" where
  "exec_loop st d x =
     (if p x = length d then Some (Continue x)
      else case exec_byte st d x of
             None \<Rightarrow> None
           | Some (Return n ps) \<Rightarrow> Some (Return n ps)
           | Some (Continue x') \<Rightarrow> exec_loop st d x')"

declare exec_loop.simps [code]

definition count_mark :: "nat option \<Rightarrow> nat" where
  "count_mark m = (case m of None \<Rightarrow> 0 | Some _ \<Rightarrow> 1)"

definition exec_end :: "'u http_parser_settings \<Rightarrow> string \<Rightarrow> 'u exec \<Rightarrow> 'u step option" where
  "exec_end st d x =
     (let n = length d; e = int n
      in if 1 < count_mark (header_field_mark x) + count_mark (header_value_mark x) +
                count_mark (url_mark x) + count_mark (body_mark x) + count_mark (status_mark x)
         then None
         else and_then (cb_header_field st d n e x)
           (\<lambda>x. and_then (cb_header_value st d n e x)
           (\<lambda>x. and_then (cb_url st d n e x)
           (\<lambda>x. and_then (cb_body st d n e x)
           (\<lambda>x. and_then (cb_status st d n e x)
           (\<lambda>x. RETURN e x))))))"

text \<open>At the start of a call the mark of the token that the previous call left open is set.\<close>

definition is_url_state :: "state \<Rightarrow> bool" where
  "is_url_state s \<longleftrightarrow> s \<in> {s_req_path, s_req_schema, s_req_schema_slash, s_req_schema_slash_slash,
     s_req_server_start, s_req_server, s_req_server_with_at, s_req_query_string_start,
     s_req_query_string, s_req_fragment_start, s_req_fragment}"

definition exec_start :: "'u http_parser \<Rightarrow> 'u exec" where
  "exec_start ps =
     \<lparr>parser = ps, p_state = state ps, p = 0,
      header_field_mark = (if state ps = s_header_field then Some 0 else None),
      header_value_mark = (if state ps = s_header_value then Some 0 else None),
      url_mark = (if is_url_state (state ps) then Some 0 else None),
      body_mark = None,
      status_mark = (if state ps = s_res_status then Some 0 else None)\<rparr>"

definition step_result :: "'u step option \<Rightarrow> (int \<times> 'u http_parser) option" where
  "step_result r =
     (case r of None \<Rightarrow> None
      | Some (Return n ps) \<Rightarrow> Some (n, ps)
      | Some (Continue x) \<Rightarrow> Some (0, parser x))"

text \<open>An empty buffer announces the end of the stream.\<close>

definition exec_eof ::
  "'u http_parser_settings \<Rightarrow> 'u http_parser \<Rightarrow> (int \<times> 'u http_parser) option" where
  "exec_eof st ps =
     (case state ps of
        s_body_identity_eof \<Rightarrow> step_result (cb_message_complete st 0 (exec_start ps))
      | s_dead \<Rightarrow> Some (0, ps)
      | s_start_req_or_res \<Rightarrow> Some (0, ps)
      | s_start_res \<Rightarrow> Some (0, ps)
      | s_start_req \<Rightarrow> Some (0, ps)
      | _ \<Rightarrow> Some (1, SET_ERRNO HPE_INVALID_EOF_STATE ps))"

definition http_parser_execute ::
  "'u http_parser_settings \<Rightarrow> 'u http_parser \<Rightarrow> string \<Rightarrow> (int \<times> 'u http_parser) option" where
  "http_parser_execute st ps d =
     (if http_errno ps \<noteq> HPE_OK then Some (0, ps)
      else if d = [] then exec_eof st ps
      else step_result (and_then (exec_loop st d (exec_start ps)) (exec_end st d)))"

end
