(* ===== verification/Http_Inv.thy ===== *)
theory Http_Inv
  imports Http_Exec
begin

text \<open>
  The invariant of a parser between two calls (\<open>parser_ok\<close>) and of a call between two bytes
  (\<open>core\<close>), the contract of the callbacks, and the steps of the status and request lines: each
  keeps the invariant and either advances or descends in the order of the re-executed states.
\<close>

section \<open>The invariant of a parser\<close>

definition live_errno :: "http_errno \<Rightarrow> bool" where
  "live_errno e \<longleftrightarrow> e = HPE_OK \<or> e = HPE_PAUSED"

definition limits_ok :: "'u http_parser \<Rightarrow> bool" where
  "limits_ok ps \<longleftrightarrow> uint (nread ps) \<le> HTTP_MAX_HEADER_SIZE \<and> http_major ps \<le> 999 \<and>
     http_minor ps \<le> 999 \<and> status_code ps \<le> 999"

definition field_state :: "header_states \<Rightarrow> bool" where
  "field_state hs \<longleftrightarrow> hs \<in> {h_general, h_C, h_CO, h_CON, h_matching_connection,
     h_matching_proxy_connection, h_matching_content_length, h_matching_transfer_encoding,
     h_matching_upgrade, h_connection, h_content_length, h_transfer_encoding, h_upgrade}"

text \<open>
  What the code of a state assumes of the parser. \<open>n\<close> is the header count of the chunk size's
  first byte: 0 between two bytes, 1 once the byte has been counted.
\<close>

definition state_ok :: "u32 \<Rightarrow> state \<Rightarrow> 'u http_parser \<Rightarrow> bool" where
  "state_ok n s ps =
     (case s of
        s_req_method \<Rightarrow> unat (index ps) \<le> length (http_method_str (method ps))
      | s_header_field \<Rightarrow> field_state (header_state ps)
      | s_header_value \<Rightarrow> header_state ps \<noteq> h_connection \<and> header_state ps \<noteq> h_transfer_encoding
      | s_chunk_size_start \<Rightarrow> nread ps = n \<and> flag_set ps F_CHUNKED
      | s_chunk_size \<Rightarrow> flag_set ps F_CHUNKED \<and> content_length ps \<noteq> ULLONG_MAX
      | s_chunk_parameters \<Rightarrow> flag_set ps F_CHUNKED \<and> content_length ps \<noteq> ULLONG_MAX
      | s_chunk_size_almost_done \<Rightarrow> flag_set ps F_CHUNKED \<and> content_length ps \<noteq> ULLONG_MAX
      | s_chunk_data \<Rightarrow>
          flag_set ps F_CHUNKED \<and> content_length ps \<noteq> 0 \<and> content_length ps \<noteq> ULLONG_MAX
      | s_chunk_data_almost_done \<Rightarrow> flag_set ps F_CHUNKED \<and> content_length ps = 0
      | s_chunk_data_done \<Rightarrow> flag_set ps F_CHUNKED
      | s_body_identity \<Rightarrow> content_length ps \<noteq> 0 \<and> content_length ps \<noteq> ULLONG_MAX
      | _ \<Rightarrow> True)"

definition parser_ok :: "'u http_parser \<Rightarrow> bool" where
  "parser_ok ps \<longleftrightarrow> (live_errno (http_errno ps) \<longrightarrow> limits_ok ps \<and> state_ok 0 (state ps) ps)"

section \<open>The contract of the callbacks\<close>

definition notify_ok :: "'u http_cb option \<Rightarrow> bool" where
  "notify_ok cb \<longleftrightarrow> (\<forall>f ps. cb = Some f \<longrightarrow> parser_ok ps \<longrightarrow> parser_ok (snd (f ps)))"

definition data_ok :: "'u http_data_cb option \<Rightarrow> bool" where
  "data_ok cb \<longleftrightarrow> (\<forall>f ps s. cb = Some f \<longrightarrow> parser_ok ps \<longrightarrow> parser_ok (snd (f ps s)))"

text \<open>
  A callback after which the same byte is read again must leave the state and the header
  count alone.
\<close>

definition keeps_state :: "'u http_data_cb option \<Rightarrow> bool" where
  "keeps_state cb \<longleftrightarrow> (\<forall>f ps s ps'. cb = Some f \<longrightarrow> f ps s = (0, ps') \<longrightarrow>
     http_errno ps' = HPE_OK \<longrightarrow> state ps' = state ps \<and> nread ps' = nread ps)"

definition complete_ok :: "'u http_cb option \<Rightarrow> bool" where
  "complete_ok cb \<longleftrightarrow> (\<forall>f ps. cb = Some f \<longrightarrow> parser_ok (ps\<lparr>state := s_headers_done\<rparr>) \<longrightarrow>
     parser_ok ((snd (f ps))\<lparr>state := s_headers_done\<rparr>))"

definition callbacks_ok :: "'u http_parser_settings \<Rightarrow> bool" where
  "callbacks_ok st \<longleftrightarrow> notify_ok (on_message_begin st) \<and> notify_ok (on_message_complete st) \<and>
     data_ok (on_url st) \<and> data_ok (on_status st) \<and> data_ok (on_header_field st) \<and>
     data_ok (on_header_value st) \<and> data_ok (on_body st) \<and> complete_ok (on_headers_complete st) \<and>
     keeps_state (on_header_value st) \<and> keeps_state (on_body st)"

section \<open>The invariant of a call\<close>

definition marks_ok :: "'u exec \<Rightarrow> bool" where
  "marks_ok x \<longleftrightarrow>
     (header_field_mark x = None \<or> p_state x = s_header_field) \<and>
     (header_value_mark x = None \<or> p_state x = s_header_value) \<and>
     (url_mark x = None \<or> is_url_state (p_state x)) \<and>
     (status_mark x = None \<or> p_state x = s_res_status) \<and>
     (body_mark x = None \<or> p_state x = s_body_identity \<or> p_state x = s_body_identity_eof \<or>
        p_state x = s_chunk_data \<or> p_state x = s_chunk_data_almost_done)"

definition core :: "u32 \<Rightarrow> 'u exec \<Rightarrow> bool" where
  "core n x \<longleftrightarrow> http_errno (parser x) = HPE_OK \<and> limits_ok (parser x) \<and>
     state_ok n (p_state x) (parser x) \<and> marks_ok x"

text \<open>The transitions that read the same byte again descend in this order.\<close>

definition rank :: "state \<Rightarrow> nat" where
  "rank s = (case s of
     s_start_req_or_res \<Rightarrow> 1 | s_header_value \<Rightarrow> 1 | s_header_value_lws \<Rightarrow> 4
   | s_header_value_discard_lws \<Rightarrow> 4 | s_header_field_start \<Rightarrow> 3 | s_headers_almost_done \<Rightarrow> 2
   | s_headers_done \<Rightarrow> 1 | s_body_identity \<Rightarrow> 1 | _ \<Rightarrow> 0)"

definition good :: "string \<Rightarrow> 'u exec \<Rightarrow> 'u step option \<Rightarrow> bool" where
  "good d x0 r =
     (case r of
        None \<Rightarrow> False
      | Some (Return n ps) \<Rightarrow> 0 \<le> n \<and> n \<le> int (length d) \<and> parser_ok ps
      | Some (Continue x) \<Rightarrow> core 0 x \<and> p x \<le> length d \<and>
          (p x0 < p x \<or> p x = p x0 \<and> rank (p_state x) < rank (p_state x0)))"

lemma good_advance:
  "core 0 x \<Longrightarrow> p x = p x0 \<Longrightarrow> p x0 < length d \<Longrightarrow> good d x0 (advance x)"
  by (simp add: good_def advance_def core_def marks_ok_def)

lemma good_reexecute:
  "core 0 x \<Longrightarrow> p x = p x0 \<Longrightarrow> p x0 < length d \<Longrightarrow> rank (p_state x) < rank (p_state x0) \<Longrightarrow>
    good d x0 (reexecute x)"
  by (simp add: good_def reexecute_def)

lemma good_fail_at:
  "\<not> live_errno e \<Longrightarrow> 0 \<le> q \<Longrightarrow> q \<le> int (length d) \<Longrightarrow> good d x0 (fail_at e q x)"
  by (simp add: good_def fail_at_def Let_def RETURN_def SET_ERRNO_def parser_ok_def live_errno_def)

lemma good_fail:
  "\<not> live_errno e \<Longrightarrow> p x \<le> length d \<Longrightarrow> good d x0 (fail e x)"
  by (simp add: fail_def good_fail_at)

lemma good_and_then_notify:
  assumes cb: "notify_ok cb" and hpe: "\<not> live_errno hpe" and c: "core 0 x"
    and nm: "header_field_mark x = None" "header_value_mark x = None" "url_mark x = None"
      "body_mark x = None" "status_mark x = None"
    and er: "0 \<le> er" "er \<le> int (length d)"
    and k: "\<And>x'. core 0 x' \<Longrightarrow> p x' = p x \<Longrightarrow> good d x0 (k x')"
  shows "good d x0 (and_then (CALLBACK_NOTIFY hpe cb er x) k)"
proof (cases cb)
  case None
  then show ?thesis using c k by (simp add: and_then_def CALLBACK_NOTIFY_def core_def)
next
  case (Some f)
  obtain rc ps where f: "f ((parser x)\<lparr>state := p_state x\<rparr>) = (rc, ps)" by force
  have "parser_ok ((parser x)\<lparr>state := p_state x\<rparr>)"
    using c by (simp add: core_def parser_ok_def limits_ok_def state_ok_def flag_set_def cong: state.case_cong)
  then have ok: "parser_ok ps" using cb Some f by (metis notify_ok_def snd_conv)
  show ?thesis
  proof (cases "rc = 0 \<and> http_errno ps = HPE_OK")
    case True
    then have "core 0 (x\<lparr>parser := ps, p_state := state ps\<rparr>)"
      using ok nm by (simp add: core_def marks_ok_def parser_ok_def live_errno_def)
    with True Some f c k show ?thesis
      by (simp add: and_then_def CALLBACK_NOTIFY_def core_def Let_def)
  next
    case False
    then show ?thesis using Some f c ok er hpe
      by (auto simp: and_then_def CALLBACK_NOTIFY_def core_def Let_def good_def SET_ERRNO_def
        parser_ok_def live_errno_def)
  qed
qed

lemma good_and_then_data:
  assumes cb: "data_ok cb" and hpe: "\<not> live_errno hpe" and c: "core 0 (clear x)"
    and nm: "header_field_mark (clear x) = None" "header_value_mark (clear x) = None"
      "url_mark (clear x) = None" "body_mark (clear x) = None" "status_mark (clear x) = None"
    and cl: "\<And>x. parser (clear x) = parser x" "\<And>x. p (clear x) = p x"
      "\<And>x. p_state (clear x) = p_state x"
      "\<And>ps. clear (x\<lparr>parser := ps, p_state := state ps\<rparr>) = (clear x)\<lparr>parser := ps, p_state := state ps\<rparr>"
      "mark = None \<Longrightarrow> clear x = x"
    and er: "0 \<le> er" "er \<le> int (length d)"
    and k: "\<And>x'. core 0 x' \<Longrightarrow> p x' = p x \<Longrightarrow> 
      (keeps_state cb \<Longrightarrow> p_state x' = p_state x \<and> nread (parser x') = nread (parser x)) \<Longrightarrow>
      header_field_mark x' = None \<Longrightarrow> header_value_mark x' = None \<Longrightarrow> url_mark x' = None \<Longrightarrow>
      body_mark x' = None \<Longrightarrow> status_mark x' = None \<Longrightarrow> good d x0 (k x')"
  shows "good d x0 (and_then (CALLBACK_DATA hpe cb mark clear d stop er x) k)"
proof -
  have e: "http_errno (parser x) = HPE_OK" using c cl(1) by (simp add: core_def)
  have kc: "good d x0 (k (clear x))" by (rule k [OF c]) (simp_all add: cl nm)
  show ?thesis
  proof (cases mark)
    case None
    then show ?thesis using kc e cl(5) by (simp add: and_then_def CALLBACK_DATA_def)
  next
    case m: (Some m)
    show ?thesis
    proof (cases cb)
      case None
      then show ?thesis using kc e m by (simp add: and_then_def CALLBACK_DATA_def)
    next
      case (Some f)
      let ?ps = "(parser x)\<lparr>state := p_state x\<rparr>"
      obtain rc ps where f: "f ?ps (slice d m stop) = (rc, ps)" by force
      have "parser_ok ?ps"
        using c cl by (simp add: core_def parser_ok_def limits_ok_def state_ok_def flag_set_def cong: state.case_cong)
      then have ok: "parser_ok ps" using cb Some f by (metis data_ok_def snd_conv)
      show ?thesis
      proof (cases "rc = 0 \<and> http_errno ps = HPE_OK")
        case True
        let ?x = "(clear x)\<lparr>parser := ps, p_state := state ps\<rparr>"
        have "keeps_state cb \<Longrightarrow> state ps = p_state x \<and> nread ps = nread (parser x)"
          using True Some f by (simp add: keeps_state_def)
        moreover have "core 0 ?x"
          using ok nm True by (simp add: core_def marks_ok_def parser_ok_def live_errno_def)
        ultimately have "good d x0 (k ?x)" by (intro k) (simp_all add: cl nm)
        with True Some f m e show ?thesis
          by (simp add: and_then_def CALLBACK_DATA_def Let_def cl(4))
      next
        case False
        then show ?thesis using Some f m e ok er hpe
          by (auto simp: and_then_def CALLBACK_DATA_def Let_def good_def SET_ERRNO_def
            parser_ok_def live_errno_def)
      qed
    qed
  qed
qed


section \<open>Every state keeps the invariant\<close>

lemma core_weaken: "core n x \<Longrightarrow> p_state x \<noteq> s_chunk_size_start \<Longrightarrow> core m x"
  by (cases "p_state x") (simp_all add: core_def state_ok_def)

lemmas exec_defs = UPDATE_STATE_def upd_def core_def limits_ok_def marks_ok_def state_ok_def
  reset_message_def rank_def live_errno_def is_url_state_def MARK_def

lemma digit_le: "IS_NUM ch \<Longrightarrow> 0 \<le> digit_value ch \<and> digit_value ch \<le> 9"
proof -
  have "(of_char ch :: int) = int (of_char ch)" by (simp only: of_nat_of_char)
  then show "IS_NUM ch \<Longrightarrow> 0 \<le> digit_value ch \<and> digit_value ch \<le> 9"
    unfolding IS_NUM_def char_le_def digit_value_def by simp
qed
lemma digit_small [simp]: "IS_NUM ch \<Longrightarrow> (word_of_int (digit_value ch) :: u16) \<le> 999"
  using digit_le [of ch] by (simp add: word_le_def uint_word_of_int_eq take_bit_int_eq_self)

lemma num_range: "char_le CHR ''1'' ch \<Longrightarrow> char_le ch CHR ''9'' \<Longrightarrow> IS_NUM ch"
  by (simp add: IS_NUM_def char_le_def)

lemma unhex_range: "-1 \<le> unhex_at c \<and> unhex_at c \<le> 15"
proof -
  have "\<forall>v \<in> set unhex. -1 \<le> v \<and> v \<le> 15" by (simp add: unhex_def)
  then show ?thesis using nth_mem by (force simp: unhex_at_def table_at_def Let_def)
qed

lemma callbacks_okD:
  assumes "callbacks_ok st"
  shows "notify_ok (on_message_begin st)" "notify_ok (on_message_complete st)"
    "data_ok (on_url st)" "data_ok (on_status st)" "data_ok (on_header_field st)"
    "data_ok (on_header_value st)" "data_ok (on_body st)" "complete_ok (on_headers_complete st)"
    "keeps_state (on_header_value st)" "keeps_state (on_body st)"
  using assms by (simp_all add: callbacks_ok_def)



named_theorems step_good \<open>the steps keep the invariant\<close>

lemmas good_intros = good_advance good_reexecute good_fail good_and_then_notify

lemma step_start_good [step_good]:
  assumes "callbacks_ok st" "core 1 x" "p x < length d"
    and "p_state x \<in> {s_dead, s_start_req_or_res, s_res_or_resp_H, s_start_res}"
  shows "good d x (step_start st ch x)"
  using assms(4) assms(2,3) callbacks_okD [OF assms(1)]
  by (elim insertE emptyE; simp add: step_start_def exec_defs cb_message_begin_def Let_def;
    auto intro!: good_intros simp: exec_defs)

lemma step_res_version_good [step_good]:
  assumes "core 1 x" "p x < length d"
    and "p_state x \<in> {s_res_H, s_res_HT, s_res_HTT, s_res_HTTP, s_res_first_http_major,
      s_res_http_major, s_res_first_http_minor, s_res_http_minor}"
  shows "good d x (step_res_version ch x)"
  using assms(3) assms(1,2)
  by (elim insertE emptyE; simp add: step_res_version_def STRICT_CHECK_def major_digit_def
    minor_digit_def first_minor_digit_def IS_NUM_def [symmetric] exec_defs Let_def not_less;
    auto intro!: good_intros simp: exec_defs)

lemma good_status:
  assumes "callbacks_ok st" "core 0 (x\<lparr>status_mark := None\<rparr>)" "p x = p x0" "p x < length d"
    "header_field_mark x = None" "header_value_mark x = None" "url_mark x = None" "body_mark x = None"
    "er = int (p x) + 1"
  shows "good d x0 (and_then (cb_status st d stop er x) advance)"
  unfolding cb_status_def
  by (rule good_and_then_data) (use assms callbacks_okD [OF assms(1)] in
    \<open>simp_all add: live_errno_def good_advance\<close>)

lemma good_url:
  assumes "callbacks_ok st" "core 0 (x\<lparr>url_mark := None\<rparr>)" "p x = p x0" "p x < length d"
    "header_field_mark x = None" "header_value_mark x = None" "status_mark x = None" "body_mark x = None"
    "er = int (p x) + 1"
  shows "good d x0 (and_then (cb_url st d stop er x) advance)"
  unfolding cb_url_def
  by (rule good_and_then_data) (use assms callbacks_okD [OF assms(1)] in
    \<open>simp_all add: live_errno_def good_advance\<close>)

lemma step_res_status_good [step_good]:
  assumes "callbacks_ok st" "core 1 x" "p x < length d"
    and "p_state x \<in> {s_res_first_status_code, s_res_status_code, s_res_status_start, s_res_status,
      s_res_line_almost_done}"
  shows "good d x (step_res_status st d ch x)"
  using assms(4) assms(1,2,3)
  by (elim insertE emptyE; simp add: step_res_status_def STRICT_CHECK_def exec_defs Let_def not_less;
    auto intro!: good_intros good_status simp: exec_defs split: option.splits)

lemma parse_url_char_range:
  "parse_url_char s ch = s_dead \<or> is_url_state (parse_url_char s ch)"
  by (cases s) (simp_all add: parse_url_char_def is_url_state_def)

lemma method_str_length: "1 \<le> length (http_method_str m)" "length (http_method_str m) \<le> 11"
  by (cases m; simp)+

lemma step_start_req_good [step_good]:
  assumes "callbacks_ok st" "core 1 x" "p x < length d" and "p_state x = s_start_req"
  shows "good d x (step_start_req st ch x)"
  using assms(4) assms(2,3) callbacks_okD [OF assms(1)]
  by (simp add: step_start_req_def exec_defs cb_message_begin_def Let_def;
    auto intro!: good_intros simp: cb_message_begin_def exec_defs method_str_length [simplified] split: option.splits)

lemma next_method_length:
  "next_method m i ch = Some m' \<Longrightarrow> i + 1 \<le> length (http_method_str m')"
  by (cases m) (auto simp: next_method_def split: if_splits)

lemma unat_bump: "unat (i :: 8 word) < 255 \<Longrightarrow> unat (i + 1) = Suc (unat i)"
  by (simp add: unat_word_ariths)

lemma step_req_method_good [step_good]:
  assumes "core 1 x" "p x < length d" and "p_state x = s_req_method"
  shows "good d x (step_req_method ch x)"
proof -
  let ?i = "unat (index (parser x))" and ?m = "method (parser x)"
  have i: "?i \<le> length (http_method_str ?m)" using assms by (simp add: exec_defs)
  have b: "unat (index (parser x) + 1) = Suc ?i"
    using i method_str_length(2) [of ?m] by (intro unat_bump) simp
  have bumped: "good d x (advance (upd (\<lambda>ps. ps\<lparr>index := index ps + 1\<rparr>) (upd (\<lambda>ps. ps\<lparr>method := m'\<rparr>) x)))"
    if "Suc ?i \<le> length (http_method_str m')" for m'
    using assms that b by (intro good_advance) (simp_all add: exec_defs)
  obtain e where e: "c_string_at (http_method_str ?m) ?i = Some e"
    using i by (cases "?i < length (http_method_str ?m)") (simp_all add: c_string_at_def)
  show ?thesis
  proof (cases "ch = NUL")
    case True
    then show ?thesis using assms(2) by (simp add: step_req_method_def good_fail live_errno_def)
  next
    case nul: False
    consider (url) "ch = SP" "e = NUL" | (same) "ch = e" "\<not> (ch = SP \<and> e = NUL)"
      | (other) "ch \<noteq> e" "\<not> (ch = SP \<and> e = NUL)" by blast
    then show ?thesis
    proof cases
      case url
      then have "step_req_method ch x =
          advance (UPDATE_STATE s_req_spaces_before_url (upd (\<lambda>ps. ps\<lparr>index := index ps + 1\<rparr>) x))"
        using nul e by (simp add: step_req_method_def Let_def)
      then show ?thesis using assms by (auto intro!: good_advance simp: exec_defs)
    next
      case same
      then have "Suc ?i \<le> length (http_method_str ?m)"
        using e nul by (auto simp: c_string_at_def split: if_splits)
      from bumped [OF this] same nul e show ?thesis
        by (simp add: step_req_method_def Let_def upd_def)
    next
      case other
      then show ?thesis
        using nul e assms(2) next_method_length [of ?m ?i ch] bumped
        by (auto simp: step_req_method_def Let_def upd_def good_fail live_errno_def split: option.splits)
    qed
  qed
qed

lemma url_byte_good:
  assumes "http_errno (parser x) = HPE_OK" "limits_ok (parser x)" "p x = p x0" "p x < length d"
    "header_field_mark x = None" "header_value_mark x = None" "status_mark x = None" "body_mark x = None"
  shows "good d x0 (url_byte ch x)"
proof (cases "parse_url_char (p_state x) ch = s_dead")
  case True
  then show ?thesis using assms by (simp add: url_byte_def Let_def exec_defs good_fail)
next
  case False
  then have "is_url_state (parse_url_char (p_state x) ch)" using parse_url_char_range by blast
  then have "core 0 (UPDATE_STATE (parse_url_char (p_state x) ch) x)"
    using assms by (cases "parse_url_char (p_state x) ch") (simp_all add: exec_defs)
  with False assms show ?thesis by (simp add: url_byte_def Let_def UPDATE_STATE_def good_advance)
qed

lemma url_state_marks:
  assumes "marks_ok x" "p_state x = s_req_spaces_before_url \<or> is_url_state (p_state x)"
  shows "header_field_mark x = None" "header_value_mark x = None" "status_mark x = None" "body_mark x = None"
  using assms by (cases "p_state x"; simp add: marks_ok_def is_url_state_def)+

lemma step_req_url_good [step_good]:
  assumes cbs: "callbacks_ok st" and c: "core 1 x" and px: "p x < length d"
    and s: "p_state x = s_req_spaces_before_url \<or> is_url_state (p_state x)"
  shows "good d x (step_req_url st d ch x)"
proof -
  have e: "http_errno (parser x) = HPE_OK" "limits_ok (parser x)" "marks_ok x"
    using c unfolding core_def by simp_all
  note m = url_state_marks [OF e(3) s]
  have byte: "good d x (url_byte ch (UPDATE_STATE s' x))" "good d x (url_byte ch x)"
    "good d x (url_byte ch (UPDATE_STATE s' (x\<lparr>url_mark := um\<rparr>)))" "good d x (url_byte ch (x\<lparr>url_mark := um\<rparr>))"
    for s' um using e m px by (auto intro!: url_byte_good simp: UPDATE_STATE_def)
  have f: "good d x (fail HPE_INVALID_URL x)" using px by (simp add: good_fail live_errno_def)
  have cb: "good d x (and_then (cb_url st d (p x) (int (p x) + 1) (UPDATE_STATE s' (upd g x))) advance)"
    if "s' \<in> {s_req_http_start, s_req_line_almost_done, s_header_field_start}"
      "limits_ok (g (parser x))" "http_errno (g (parser x)) = HPE_OK" for s' g
    using that e m px by (intro good_url [OF cbs])
      (auto simp: core_def UPDATE_STATE_def upd_def marks_ok_def state_ok_def)
  have cb0: "good d x (and_then (cb_url st d (p x) (int (p x) + 1) (UPDATE_STATE s_req_http_start x)) advance)"
    using cb [of s_req_http_start "\<lambda>ps. ps"] e by (simp add: upd_def)
  have cb1: "good d x (and_then (cb_url st d (p x) (int (p x) + 1)
      (UPDATE_STATE (if ch = CR then s_req_line_almost_done else s_header_field_start)
        (upd (\<lambda>ps. ps\<lparr>http_major := 0, http_minor := 9\<rparr>) x))) advance)"
    using e by (intro cb) (simp_all add: limits_ok_def)
  have sp: "good d x (advance x)" if "p_state x = s_req_spaces_before_url"
    using that e px by (intro good_advance) (simp_all add: core_def state_ok_def)
  show ?thesis
    using s byte f cb0 cb1 sp
    by (cases "p_state x"; simp add: step_req_url_def Let_def is_url_state_def)
qed

lemma step_req_version_good [step_good]:
  assumes "core 1 x" "p x < length d"
    and "p_state x \<in> {s_req_http_start, s_req_http_H, s_req_http_HT, s_req_http_HTT, s_req_http_HTTP,
      s_req_first_http_major, s_req_http_major, s_req_first_http_minor, s_req_http_minor,
      s_req_line_almost_done}"
  shows "good d x (step_req_version ch x)"
  using assms(3) assms(1,2)
  by (elim insertE emptyE; simp add: step_req_version_def STRICT_CHECK_def major_digit_def
    minor_digit_def first_minor_digit_def exec_defs Let_def not_less;
    auto intro!: good_intros simp: exec_defs num_range)

end
