(* ===== verification/Http_Safety.thy ===== *)
theory Http_Safety
  imports Http_Inv
begin

text \<open>
  The rest of the steps of \<open>http_parser_execute\<close> (headers, bodies, chunks), the loop, and the
  result for the whole call: no assertion fails, the call returns, what it consumed lies within
  the buffer, and the parser keeps its invariant.
\<close>

section \<open>Header lines\<close>

lemma good_and_then_count:
  assumes e: "http_errno (parser x) = HPE_OK" and q: "0 \<le> q" "q \<le> int (length d)"
    and k: "\<And>n. n = nread (parser x) + word_of_int v \<Longrightarrow> uint n \<le> HTTP_MAX_HEADER_SIZE \<Longrightarrow>
      good d x0 (k (x\<lparr>parser := (parser x)\<lparr>nread := n\<rparr>\<rparr>))"
  shows "good d x0 (and_then (COUNT_HEADER_SIZE v q x) k)"
proof (cases "HTTP_MAX_HEADER_SIZE < uint (nread (parser x) + word_of_int v)")
  case True
  then show ?thesis
    using q by (simp add: COUNT_HEADER_SIZE_def upd_def and_then_def fail_at_def Let_def RETURN_def
      SET_ERRNO_def good_def parser_ok_def live_errno_def)
next
  case False
  with k [OF refl] show ?thesis
    by (simp add: COUNT_HEADER_SIZE_def and_then_def Let_def upd_def)
qed

text \<open>What the inner loops over a header leave alone.\<close>

definition same_limits :: "'u http_parser \<Rightarrow> 'u http_parser \<Rightarrow> bool" where
  "same_limits ps ps' \<longleftrightarrow> http_errno ps' = http_errno ps \<and> nread ps' = nread ps \<and>
     http_major ps' = http_major ps \<and> http_minor ps' = http_minor ps \<and>
     status_code ps' = status_code ps"

lemma same_limits_refl: "same_limits ps ps"
  by (simp add: same_limits_def)

lemma same_limits_trans: "same_limits a b \<Longrightarrow> same_limits b c \<Longrightarrow> same_limits a c"
  by (simp add: same_limits_def)

lemma header_field_char_ok:
  assumes "field_state (header_state ps)"
  shows "\<exists>ps'. header_field_char ps c ch = Some ps' \<and> same_limits ps ps' \<and>
    field_state (header_state ps')"
  using assms unfolding field_state_def
  by (elim insertE emptyE) (auto simp: header_field_char_def match_field_def match_next_def
    same_limits_def Let_def)

lemma header_field_loop_ok:
  "field_state (header_state ps) \<Longrightarrow>
    \<exists>rest ps'. header_field_loop cs ps = Some (rest, ps') \<and> length rest \<le> length cs \<and>
      same_limits ps ps' \<and> field_state (header_state ps')"
proof (induction cs arbitrary: ps)
  case Nil
  then show ?case by (simp add: same_limits_refl)
next
  case (Cons ch cs)
  show ?case
  proof (cases "TOKEN ch = NUL")
    case True
    then show ?thesis using Cons.prems by (simp add: same_limits_refl)
  next
    case False
    obtain ps1 where ps1: "header_field_char ps (TOKEN ch) ch = Some ps1" "same_limits ps ps1"
      "field_state (header_state ps1)" using header_field_char_ok [OF Cons.prems] by blast
    obtain rest ps2 where "header_field_loop cs ps1 = Some (rest, ps2)" "length rest \<le> length cs"
      "same_limits ps1 ps2" "field_state (header_state ps2)" using Cons.IH [OF ps1(3)] by blast
    then show ?thesis using False ps1 by (auto intro: same_limits_trans le_SucI)
  qed
qed

lemma good_header_field:
  assumes "callbacks_ok st" "core 0 (x\<lparr>header_field_mark := None\<rparr>)" "p x < length d" "p x0 \<le> p x"
    "header_value_mark x = None" "url_mark x = None" "status_mark x = None" "body_mark x = None"
    "er = int (p x) + 1"
  shows "good d x0 (and_then (cb_header_field st d stop er x) advance)"
  unfolding cb_header_field_def
proof (rule good_and_then_data)
  fix x' :: "'a exec"
  assume "core 0 x'" "p x' = p x"
  then show "good d x0 (advance x')"
    using assms(3,4) by (simp add: good_def advance_def core_def marks_ok_def)
qed (use assms callbacks_okD [OF assms(1)] in \<open>simp_all add: live_errno_def\<close>)

lemma step_header_field_good [step_good]:
  assumes cbs: "callbacks_ok st" and c: "core 1 x" and px: "p x < length d"
    and s: "p_state x = s_header_field_start \<or> p_state x = s_header_field"
  shows "good d x (step_header_field st d ch x)"
  using s
proof
  assume s: "p_state x = s_header_field_start"
  then show ?thesis using c px
    by (simp add: step_header_field_def exec_defs Let_def;
      auto intro!: good_intros simp: exec_defs field_state_def)
next
  assume s: "p_state x = s_header_field"
  then have f: "field_state (header_state (parser x))" using c by (simp add: exec_defs)
  obtain rest ps where l: "header_field_loop (drop (p x) d) (parser x) = Some (rest, ps)"
    "length rest \<le> length (drop (p x) d)" "same_limits (parser x) ps" "field_state (header_state ps)"
    using header_field_loop_ok [OF f] by blast
  define q where "q = length d - length rest"
  have q: "q \<le> length d" "p x \<le> q" using l(2) px by (auto simp: q_def)
  let ?x = "\<lambda>n. x\<lparr>p := q, parser := ps\<lparr>nread := n\<rparr>\<rparr>"
  have e: "http_errno ps = HPE_OK" "http_major ps \<le> 999" "http_minor ps \<le> 999" "status_code ps \<le> 999"
    using c l(3) by (simp_all add: same_limits_def core_def limits_ok_def)
  have m: "header_value_mark x = None" "url_mark x = None" "status_mark x = None" "body_mark x = None"
    using c s by (simp_all add: exec_defs)
  define k where "k = (\<lambda>x1. case rest of [] \<Rightarrow> Some (Continue x1)
      | c # _ \<Rightarrow> if c = CHR '':''
          then and_then (cb_header_field st d q (int q + 1)
                 (UPDATE_STATE s_header_value_discard_ws x1)) advance
          else fail HPE_INVALID_HEADER_TOKEN x1)"
  have step: "step_header_field st d ch x =
      and_then (COUNT_HEADER_SIZE (int q - int (p x)) (int q) (x\<lparr>parser := ps, p := q\<rparr>)) k"
    unfolding k_def q_def using l(1) s by (simp add: step_header_field_def Let_def)
  have "good d x (k (?x n))" if n: "uint n \<le> HTTP_MAX_HEADER_SIZE" for n
  proof (cases rest)
    case Nil
    then have "q = length d" by (simp add: q_def)
    then show ?thesis using Nil px n e m l(4) s by (simp add: k_def good_def exec_defs)
  next
    case (Cons c cs)
    then have "q < length d" using l(2) px by (auto simp: q_def)
    then show ?thesis using Cons q n e m cbs
      by (auto intro!: good_header_field good_fail simp: k_def exec_defs)
  qed
  then show ?thesis
    unfolding step using q e by (intro good_and_then_count) simp_all
qed


section \<open>Header values\<close>

definition value_state :: "header_states \<Rightarrow> bool" where
  "value_state hs \<longleftrightarrow> hs \<noteq> h_connection \<and> hs \<noteq> h_transfer_encoding"

lemma header_value_char_ok:
  assumes "value_state hs"
  shows "(\<exists>e. header_value_char hs ch ps = Some (Inl e) \<and> \<not> live_errno e) \<or>
    (\<exists>hs' ps'. header_value_char hs ch ps = Some (Inr (hs', ps')) \<and> same_limits ps ps' \<and>
      value_state hs')"
  using assms unfolding value_state_def
  by (cases hs) (auto simp: header_value_char_def match_next_def same_limits_def Let_def live_errno_def
    set_flag_def)

text \<open>The value callback comes before the rest of the line end.\<close>

lemma good_header_value:
  assumes cbs: "callbacks_ok st" and e: "http_errno (parser x) = HPE_OK" and lim: "limits_ok (parser x)"
    and s: "p_state x = s_header_almost_done \<or> p_state x = s_header_field_start"
    and m: "header_field_mark x = None" "url_mark x = None" "status_mark x = None" "body_mark x = None"
    and er: "0 \<le> er" "er \<le> int (length d)"
    and k: "\<And>x'. core 0 x' \<Longrightarrow> p x' = p x \<Longrightarrow> p_state x' = p_state x \<Longrightarrow>
      nread (parser x') = nread (parser x) \<Longrightarrow> header_field_mark x' = None \<Longrightarrow>
      header_value_mark x' = None \<Longrightarrow> url_mark x' = None \<Longrightarrow> body_mark x' = None \<Longrightarrow>
      status_mark x' = None \<Longrightarrow> good d x0 (k x')"
  shows "good d x0 (and_then (cb_header_value st d stop er x) k)"
  unfolding cb_header_value_def
proof (rule good_and_then_data)
  show "core 0 (x\<lparr>header_value_mark := None\<rparr>)"
    using e lim s m by (auto simp: core_def marks_ok_def state_ok_def)
qed (use assms callbacks_okD [OF cbs] in \<open>simp_all add: live_errno_def\<close>)

lemma good_value_end:
  assumes "core 0 x" "p_state x = s_header_almost_done"
    "header_field_mark x = None" "header_value_mark x = None" "url_mark x = None"
    "body_mark x = None" "status_mark x = None"
    and q: "q \<le> int (length d)" "0 \<le> q \<or> nread (parser x) \<noteq> 0 \<and> q = -1 \<and> start = 0"
    and n: "n \<le> length d" "p x0 < n \<or> p x0 = n \<and> rank s_header_almost_done < rank (p_state x0)"
  shows "good d x0 (header_value_end hs start q n x)"
proof -
  let ?y = "upd (\<lambda>ps. ps\<lparr>header_state := hs\<rparr>) (x\<lparr>p := n\<rparr>)"
  have step: "good d x0 (Some (Continue (?y\<lparr>parser := (parser ?y)\<lparr>nread := m\<rparr>\<rparr>)))"
    if "uint m \<le> HTTP_MAX_HEADER_SIZE" for m
    using assms that by (auto simp: good_def exec_defs)
  show ?thesis
  proof (cases "0 \<le> q")
    case True
    have "good d x0 (and_then (COUNT_HEADER_SIZE (q - int start) q ?y) (\<lambda>x. Some (Continue x)))"
      using True q(1) assms(1) step by (intro good_and_then_count) (simp_all add: core_def upd_def)
    then show ?thesis
      unfolding header_value_end_def and_then_def by (simp split: option.splits step.splits)
  next
    case False
    with q(2) have nz: "nread (parser x) \<noteq> 0" "q = -1" "start = 0" by auto
    have u: "uint (nread (parser x) + - 1) \<le> uint (nread (parser x))"
      using unat_minus_one [OF nz(1)] by (simp add: word_le_def [symmetric] word_le_nat_alt)
    also have "\<dots> \<le> HTTP_MAX_HEADER_SIZE" using assms(1) by (simp add: core_def limits_ok_def)
    finally have "uint (nread (parser x) + - 1) \<le> HTTP_MAX_HEADER_SIZE" .
    with step [OF this] show ?thesis
      using nz by (simp add: header_value_end_def COUNT_HEADER_SIZE_def Let_def upd_def)
  qed
qed


lemma header_value_byte_good:
  assumes cbs: "callbacks_ok st"
    and e: "http_errno (parser x) = HPE_OK" and lim: "limits_ok (parser x)" and nr: "nread (parser x) \<noteq> 0"
    and s: "p_state x = s_header_value" and hs: "value_state hs"
    and m: "header_field_mark x = None" "url_mark x = None" "status_mark x = None" "body_mark x = None"
    and px: "p x0 \<le> p x" "p x < length d" and s0: "p_state x0 = s_header_value"
  shows "case header_value_byte st d (p x0) hs x of
      Leave r \<Rightarrow> good d x0 r
    | Stay hs' x' \<Rightarrow> value_state hs' \<and> same_limits (parser x) (parser x') \<and> p_state x' = s_header_value \<and>
        header_field_mark x' = None \<and> url_mark x' = None \<and> status_mark x' = None \<and> body_mark x' = None"
proof -
  let ?ch = "d ! p x" and ?keep = "upd (\<lambda>ps. ps\<lparr>header_state := hs\<rparr>)"
  have ends: "good d x0 (header_value_end hs (p x0) (int (p x)) (p x + 1) y)"
    if "core 0 y" "p_state y = s_header_almost_done"
      "header_field_mark y = None" "header_value_mark y = None" "url_mark y = None"
      "body_mark y = None" "status_mark y = None" for y :: "'a exec"
    using that px by (intro good_value_end) auto
  have endl: "good d x0 (header_value_end hs (p x0) (int (p x) - 1) (p x) y)"
    if "core 0 y" "p_state y = s_header_almost_done" "p x = p x0 \<Longrightarrow> nread (parser y) \<noteq> 0"
      "header_field_mark y = None" "header_value_mark y = None" "url_mark y = None"
      "body_mark y = None" "status_mark y = None" for y :: "'a exec"
    using that px s0 by (intro good_value_end) (auto simp: rank_def)
  consider "?ch = CR" | "?ch \<noteq> CR" "?ch = LF" | "?ch \<noteq> CR" "?ch \<noteq> LF" "hs = h_general"
    | "?ch \<noteq> CR" "?ch \<noteq> LF" "hs \<noteq> h_general" by blast
  then show ?thesis
  proof cases
    case 1
    have "good d x0 (and_then (cb_header_value st d (p x) (int (p x) + 1)
        (?keep (UPDATE_STATE s_header_almost_done x))) (header_value_end hs (p x0) (int (p x)) (p x + 1)))"
      using cbs e lim m px
      by (intro good_header_value ends) (simp_all add: upd_def UPDATE_STATE_def limits_ok_def)
    with 1 show ?thesis by (simp add: header_value_byte_def Let_def)
  next
    case 2
    have "good d x0 (and_then (COUNT_HEADER_SIZE (int (p x) - int (p x0)) (int (p x)) (UPDATE_STATE s_header_almost_done x))
        (\<lambda>x1. and_then (cb_header_value st d (p x) (int (p x)) (?keep x1))
          (header_value_end hs (p x0) (int (p x) - 1) (p x))))"
    proof (rule good_and_then_count)
      fix n assume n: "n = nread (parser (UPDATE_STATE s_header_almost_done x)) + word_of_int (int (p x) - int (p x0))"
        "uint n \<le> HTTP_MAX_HEADER_SIZE"
      have nz: "p x = p x0 \<Longrightarrow> n \<noteq> 0" using n(1) nr by (simp add: UPDATE_STATE_def)
      let ?y = "(UPDATE_STATE s_header_almost_done x)\<lparr>parser := (parser (UPDATE_STATE s_header_almost_done x))\<lparr>nread := n\<rparr>\<rparr>"
      show "good d x0 (and_then (cb_header_value st d (p x) (int (p x)) (?keep ?y))
          (header_value_end hs (p x0) (int (p x) - 1) (p x)))"
        using cbs e lim m px n(2) nz
        by (intro good_header_value endl) (simp_all add: upd_def UPDATE_STATE_def limits_ok_def)
    qed (use e px in \<open>simp_all add: UPDATE_STATE_def\<close>)
    with 2 show ?thesis by (simp add: header_value_byte_def Let_def)
  next
    case 3
    then show ?thesis using s hs m by (simp add: header_value_byte_def Let_def same_limits_refl)
  next
    case 4
    consider (err) er where "header_value_char hs ?ch (parser x) = Some (Inl er)" "\<not> live_errno er"
      | (ok) hs' ps' where "header_value_char hs ?ch (parser x) = Some (Inr (hs', ps'))"
        "same_limits (parser x) ps'" "value_state hs'"
      using header_value_char_ok [OF hs, of ?ch "parser x"] by blast
    then show ?thesis
    proof cases
      case err
      then have "good d x0 (fail er (?keep x))" using px by (intro good_fail) (simp_all add: upd_def)
      with err 4 show ?thesis by (simp add: header_value_byte_def Let_def)
    next
      case ok
      with 4 s m show ?thesis by (simp add: header_value_byte_def Let_def)
    qed
  qed
qed

lemma header_value_loop_good:
  assumes cbs: "callbacks_ok st"
    and "http_errno (parser x) = HPE_OK" "limits_ok (parser x)" "nread (parser x) \<noteq> 0"
    and "p_state x = s_header_value" "value_state hs"
    and "header_field_mark x = None" "url_mark x = None" "status_mark x = None" "body_mark x = None"
    and "p x0 \<le> p x" "p x \<le> length d" and x0: "p_state x0 = s_header_value" "p x0 < length d"
  shows "good d x0 (header_value_loop st d (p x0) hs x)"
  using assms(2-12)
proof (induction "length d - p x" arbitrary: hs x rule: less_induct)
  case less
  show ?case
  proof (cases "p x < length d")
    case True
    note b = header_value_byte_good [OF cbs less.prems(1-10) True x0(1)]
    show ?thesis
    proof (cases "header_value_byte st d (p x0) hs x")
      case (Leave r)
      with b True show ?thesis by (simp add: header_value_loop.simps [of st d "p x0" hs x])
    next
      case (Stay hs' x')
      note pr = header_value_byte_progress [OF Stay True]
      have "good d x0 (header_value_loop st d (p x0) hs' x')"
        by (rule less.hyps)
          (use b Stay pr less.prems in \<open>simp_all add: same_limits_def limits_ok_def\<close>)
      with Stay True show ?thesis by (simp add: header_value_loop.simps [of st d "p x0" hs x])
    qed
  next
    case False
    then have px: "p x = length d" using less.prems by simp
    let ?y = "upd (\<lambda>ps. ps\<lparr>header_state := hs\<rparr>) (x\<lparr>p := p x\<rparr>)"
    have "good d x0 (and_then (COUNT_HEADER_SIZE (int (p x) - int (p x0)) (int (p x)) ?y) (\<lambda>x. Some (Continue x)))"
    proof (rule good_and_then_count)
      fix n :: u32 assume "uint n \<le> HTTP_MAX_HEADER_SIZE"
      then show "good d x0 (Some (Continue (?y\<lparr>parser := (parser ?y)\<lparr>nread := n\<rparr>\<rparr>)))"
        using less.prems px x0 by (auto simp: good_def exec_defs value_state_def)
    qed (use less.prems px in \<open>simp_all add: upd_def\<close>)
    then have "good d x0 (header_value_end hs (p x0) (int (p x)) (p x) x)"
      unfolding header_value_end_def and_then_def by (simp split: option.splits step.splits)
    with False show ?thesis by (simp add: header_value_loop.simps [of st d "p x0" hs x])
  qed
qed

lemma header_value_start_good:
  assumes c: "core 0 (x\<lparr>header_value_mark := None\<rparr>)" and px: "p x = p x0" "p x < length d"
    and s: "p_state x = s_header_value_discard_ws \<or> p_state x = s_header_value_start"
  shows "good d x0 (header_value_start ch x)"
proof -
  let ?x = "UPDATE_STATE s_header_value (upd (\<lambda>ps. ps\<lparr>index := 0\<rparr>)
    (x\<lparr>header_value_mark := MARK (header_value_mark x) (p x)\<rparr>))"
  have e: "http_errno (parser x) = HPE_OK" "limits_ok (parser x)" "marks_ok (x\<lparr>header_value_mark := None\<rparr>)"
    using c unfolding core_def by simp_all
  have m: "header_field_mark x = None" "url_mark x = None" "body_mark x = None" "status_mark x = None"
    using s e(3) by (elim disjE; simp add: marks_ok_def is_url_state_def)+
  have l: "http_errno (parser ?x) = HPE_OK" "limits_ok (parser ?x)" "p ?x = p x0" "p ?x < length d"
    "p_state ?x = s_header_value" "header_field_mark ?x = None" "url_mark ?x = None"
    "body_mark ?x = None" "status_mark ?x = None" "header_state (parser ?x) = header_state (parser x)"
    using e(1,2) m px by (simp_all add: UPDATE_STATE_def upd_def limits_ok_def)
  have adv: "good d x0 (advance (upd g ?x))"
    if "same_limits (parser ?x) (g (parser ?x))" "value_state (header_state (g (parser ?x)))" for g
    using that l px by (intro good_advance)
      (simp_all add: core_def same_limits_def limits_ok_def state_ok_def value_state_def marks_ok_def upd_def)
  have adv0: "good d x0 (advance ?x)" if "value_state (header_state (parser x))"
    using adv [of "\<lambda>ps. ps"] that l(10) by (simp add: upd_def same_limits_refl)
  have fl: "good d x0 (fail HPE_INVALID_CONTENT_LENGTH ?x)"
    using l px by (intro good_fail) (simp_all add: live_errno_def)
  have hs: "good d x0 (advance (upd (\<lambda>ps. ps\<lparr>header_state := h\<rparr>) ?x))" if "value_state h" for h
    using that by (intro adv) (simp_all add: same_limits_def)
  note unf = header_value_start_def Let_def l(10)
  show ?thesis
  proof (cases "header_state (parser x)")
    case h_upgrade
    show ?thesis unfolding unf unfolding h_upgrade header_states.case
      by (rule adv) (simp_all add: same_limits_def set_flag_def value_state_def)
  next
    case h_transfer_encoding
    show ?thesis unfolding unf unfolding h_transfer_encoding header_states.case
      by (rule hs) (simp add: value_state_def)
  next
    case h_content_length
    have "good d x0 (advance (upd (\<lambda>ps. ps\<lparr>content_length := word_of_int (digit_value ch)\<rparr>) ?x))"
      using h_content_length l(10) by (intro adv) (simp_all add: same_limits_def value_state_def)
    with fl show ?thesis unfolding unf unfolding h_content_length header_states.case by simp
  next
    case h_connection
    show ?thesis unfolding unf unfolding h_connection header_states.case
      by (rule hs) (simp add: value_state_def)
  next
    case h_matching_connection_token_start
    with adv0 show ?thesis unfolding unf unfolding h_matching_connection_token_start header_states.case
      by (simp add: value_state_def)
  qed (unfold unf, simp_all only: header_states.case, (rule hs, simp add: value_state_def)+)
qed

lemma finish_header_same: "same_limits ps (finish_header ps)"
  by (cases "header_state ps") (simp_all add: finish_header_def same_limits_def set_flag_def)

lemma step_header_value_good [step_good]:
  assumes cbs: "callbacks_ok st" and c: "core 1 x" and px: "p x < length d" and nr: "nread (parser x) \<noteq> 0"
    and s: "p_state x \<in> {s_header_value_discard_ws, s_header_value_discard_ws_almost_done,
      s_header_value_discard_lws, s_header_value_start, s_header_value, s_header_value_lws,
      s_header_almost_done}"
  shows "good d x (step_header_value st d ch x)"
proof -
  note f = finish_header_same [of "parser x", unfolded same_limits_def]
  consider "p_state x = s_header_value" | "p_state x = s_header_value_discard_lws"
    | "p_state x \<in> {s_header_value_discard_ws, s_header_value_discard_ws_almost_done,
      s_header_value_start, s_header_value_lws, s_header_almost_done}"
    using s by blast
  then show ?thesis
  proof cases
    case 1
    then have "good d x (header_value_loop st d (p x) (header_state (parser x)) x)"
      using c px nr by (intro header_value_loop_good [OF cbs])
        (simp_all add: exec_defs value_state_def)
    with 1 show ?thesis by (simp add: step_header_value_def)
  next
    case 2
    let ?x = "(upd finish_header x)\<lparr>header_value_mark := MARK (header_value_mark x) (p x)\<rparr>"
    have "good d x (and_then (cb_header_value st d (p x) (int (p x))
        (UPDATE_STATE s_header_field_start ?x)) reexecute)"
    proof (rule good_header_value [OF cbs])
      fix x' :: "'a exec"
      assume "core 0 x'" "p x' = p (UPDATE_STATE s_header_field_start ?x)"
        "p_state x' = p_state (UPDATE_STATE s_header_field_start ?x)"
      with 2 px show "good d x (reexecute x')"
        by (intro good_reexecute) (simp_all add: UPDATE_STATE_def upd_def rank_def)
    qed (use 2 c px f in \<open>simp_all add: exec_defs\<close>)
    moreover have "good d x (advance (UPDATE_STATE s_header_value_discard_ws x))"
      using 2 c px by (intro good_advance) (simp_all add: exec_defs)
    ultimately show ?thesis using 2 by (simp add: step_header_value_def Let_def upd_def)
  next
    case 3
    then show ?thesis using c px f
      by (elim insertE emptyE; simp add: step_header_value_def STRICT_CHECK_def;
        auto intro!: good_intros header_value_start_good simp: exec_defs)
  qed
qed

section \<open>The end of the headers\<close>

lemma good_complete:
  assumes "callbacks_ok st" "core 0 x" "p x = p x0" "p x < length d"
    "header_field_mark x = None" "header_value_mark x = None" "url_mark x = None"
    "body_mark x = None" "status_mark x = None" "er = int (p x) + 1"
  shows "good d x0 (and_then (cb_message_complete st er x) advance)"
  unfolding cb_message_complete_def
  by (rule good_and_then_notify) (use assms callbacks_okD [OF assms(1)] in
    \<open>simp_all add: live_errno_def good_advance\<close>)

lemma NEW_MESSAGE_state: "state_ok n (NEW_MESSAGE ps) ps'"
  by (simp add: NEW_MESSAGE_def start_state_def state_ok_def)

lemma core_new_message:
  assumes "http_errno (parser x) = HPE_OK" "limits_ok (parser x)"
    "header_field_mark x = None" "header_value_mark x = None" "url_mark x = None"
    "body_mark x = None" "status_mark x = None"
  shows "core 0 (UPDATE_STATE (NEW_MESSAGE ps) x)"
  using assms NEW_MESSAGE_state by (simp add: core_def marks_ok_def UPDATE_STATE_def)

lemma headers_complete_good:
  assumes cbs: "callbacks_ok st" and c: "core 0 x" and s: "p_state x = s_headers_done"
    and px: "p x = p x0" "p x < length d" and r: "0 < rank (p_state x0) \<and> rank s_headers_done < rank (p_state x0)"
  shows "good d x0 (and_then (headers_complete st x)
    (\<lambda>x3. if http_errno (parser x3) \<noteq> HPE_OK then RETURN (int (p x3)) x3 else reexecute x3))"
proof (cases "on_headers_complete st")
  case None
  then show ?thesis using c s px r
    by (simp add: headers_complete_def and_then_def good_reexecute core_def)
next
  case (Some f)
  obtain rc ps where f: "f (parser x) = (rc, ps)" by force
  have "parser_ok ((parser x)\<lparr>state := s_headers_done\<rparr>)"
    using c by (simp add: parser_ok_def core_def limits_ok_def state_ok_def)
  then have ok: "parser_ok (ps\<lparr>state := s_headers_done\<rparr>)"
    using callbacks_okD(8) [OF cbs] Some f unfolding complete_ok_def by (metis snd_conv)
  have tail: "good d x0 (if http_errno ps' \<noteq> HPE_OK then RETURN (int (p x)) (x\<lparr>parser := ps'\<rparr>)
      else reexecute (x\<lparr>parser := ps'\<rparr>))"
    if "same_limits ps ps'" for ps'
    using that ok c s px r
    by (auto simp: good_def RETURN_def reexecute_def core_def marks_ok_def parser_ok_def limits_ok_def
      state_ok_def same_limits_def live_errno_def)
  consider "rc = 0" | "rc = 1" | "rc \<noteq> 0" "rc \<noteq> 1" by blast
  then show ?thesis
  proof cases
    case 1
    then show ?thesis using Some f tail [OF same_limits_refl]
      by (simp add: headers_complete_def and_then_def Let_def split: if_splits)
  next
    case 2
    have "same_limits ps (set_flag F_SKIPBODY ps)" by (simp add: same_limits_def set_flag_def)
    from tail [OF this] 2 Some f show ?thesis
      by (simp add: headers_complete_def and_then_def Let_def upd_def split: if_splits)
  next
    case 3
    then show ?thesis using Some f px
      by (simp add: headers_complete_def and_then_def Let_def upd_def RETURN_def good_def
        SET_ERRNO_def parser_ok_def live_errno_def)
  qed
qed

lemma step_headers_almost_done_good [step_good]:
  assumes cbs: "callbacks_ok st" and c: "core 1 x" and px: "p x < length d"
    and s: "p_state x = s_headers_almost_done"
  shows "good d x (step_headers_almost_done st ch x)"
proof -
  have m: "header_field_mark x = None" "header_value_mark x = None" "url_mark x = None"
    "body_mark x = None" "status_mark x = None" using c s by (simp_all add: exec_defs)
  have l: "http_errno (parser x) = HPE_OK" "limits_ok (parser x)" using c by (simp_all add: core_def)
  let ?up = "\<lambda>ps. ps\<lparr>upgrade := (uint (flags ps) AND (F_UPGRADE OR F_CONNECTION_UPGRADE)
    = F_UPGRADE OR F_CONNECTION_UPGRADE \<or> method ps = HTTP_CONNECT)\<rparr>"
  have "core 0 (upd ?up (UPDATE_STATE s_headers_done x))"
    using m l by (simp add: exec_defs)
  then have "good d x (and_then (headers_complete st (upd ?up (UPDATE_STATE s_headers_done x)))
    (\<lambda>x3. if http_errno (parser x3) \<noteq> HPE_OK then RETURN (int (p x3)) x3 else reexecute x3))"
    using px s by (intro headers_complete_good [OF cbs])
      (simp_all add: UPDATE_STATE_def upd_def rank_def)
  moreover have "good d x (and_then (cb_message_complete st (int (p x) + 1)
      (UPDATE_STATE (NEW_MESSAGE (parser x)) x)) advance)"
    using m px by (intro good_complete [OF cbs] core_new_message l) (simp_all add: UPDATE_STATE_def)
  moreover have "good d x (fail HPE_STRICT x)"
    using px by (intro good_fail) (simp_all add: live_errno_def)
  ultimately show ?thesis
    unfolding step_headers_almost_done_def STRICT_CHECK_def Let_def by simp
qed

lemma step_headers_done_good [step_good]:
  assumes cbs: "callbacks_ok st" and c: "core 1 x" and px: "p x < length d"
    and s: "p_state x = s_headers_done"
  shows "good d x (step_headers_done st ch x)"
proof -
  have e: "http_errno (parser x) = HPE_OK" "limits_ok (parser x)" "marks_ok x"
    using c unfolding core_def by simp_all
  have m: "header_field_mark x = None" "header_value_mark x = None" "url_mark x = None"
    "body_mark x = None" "status_mark x = None" using e(3) s by (simp_all add: marks_ok_def is_url_state_def)
  let ?x = "upd (\<lambda>ps. ps\<lparr>nread := 0\<rparr>) x"
  have n: "core 0 (UPDATE_STATE (NEW_MESSAGE (parser ?x)) ?x)"
    using e(1,2) m by (intro core_new_message)
      (simp_all add: upd_def limits_ok_def HTTP_MAX_HEADER_SIZE_def)
  have cp: "good d x (and_then (cb_message_complete st (int (p ?x) + 1)
      (UPDATE_STATE (NEW_MESSAGE (parser ?x)) ?x)) advance)"
    using m px by (intro good_complete [OF cbs n]) (simp_all add: UPDATE_STATE_def upd_def)
  have ret: "good d x (and_then (cb_message_complete st (int (p ?x) + 1)
      (UPDATE_STATE (NEW_MESSAGE (parser ?x)) ?x)) (\<lambda>x1. RETURN (int (p x1) + 1) x1))"
    unfolding cb_message_complete_def
  proof (rule good_and_then_notify [OF callbacks_okD(2) [OF cbs] _ n])
    fix x' :: "'a exec" assume "core 0 x'" "p x' = p (UPDATE_STATE (NEW_MESSAGE (parser ?x)) ?x)"
    then show "good d x (RETURN (int (p x') + 1) x')"
      using px by (simp add: good_def RETURN_def core_def parser_ok_def limits_ok_def state_ok_def
        flag_set_def UPDATE_STATE_def upd_def cong: state.case_cong)
  qed (use m px in \<open>simp_all add: UPDATE_STATE_def upd_def live_errno_def\<close>)
  have adv: "good d x (advance (UPDATE_STATE s' ?x))" if "state_ok 0 s' (parser ?x)" for s'
    using that e(1,2) m px by (intro good_advance)
      (simp_all add: core_def UPDATE_STATE_def upd_def marks_ok_def limits_ok_def HTTP_MAX_HEADER_SIZE_def)
  have f: "good d x (fail HPE_STRICT x)" using px by (simp add: good_fail live_errno_def)
  have fs: "flag_set (parser ?x) f = flag_set (parser x) f" for f by (simp add: upd_def flag_set_def)
  have a: "flag_set (parser ?x) F_CHUNKED \<Longrightarrow> good d x (advance (UPDATE_STATE s_chunk_size_start ?x))"
    "content_length (parser ?x) \<noteq> 0 \<Longrightarrow> content_length (parser ?x) \<noteq> ULLONG_MAX \<Longrightarrow>
      good d x (advance (UPDATE_STATE s_body_identity ?x))"
    "good d x (advance (UPDATE_STATE s_body_identity_eof ?x))"
    by (rule adv, simp add: state_ok_def upd_def)+
  show ?thesis
    unfolding step_headers_done_def STRICT_CHECK_def Let_def using f cp ret a by simp
qed

section \<open>Bodies\<close>

lemma body_to_read_bounds:
  assumes "p x < length d" "content_length (parser x) \<noteq> 0"
  shows "unat (body_to_read d x) \<le> length d - p x"
    "content_length (parser x) - body_to_read d x \<noteq> ULLONG_MAX \<or> content_length (parser x) = ULLONG_MAX"
proof -
  show "unat (body_to_read d x) \<le> length d - p x"
    by (auto simp: body_to_read_def min_def unat_of_nat word_le_nat_alt intro: order_trans [OF _ mod_less_eq_dividend])
  have le: "body_to_read d x \<le> content_length (parser x)" by (simp add: body_to_read_def)
  show "content_length (parser x) - body_to_read d x \<noteq> ULLONG_MAX \<or> content_length (parser x) = ULLONG_MAX"
  proof (rule disjCI)
    assume n: "content_length (parser x) \<noteq> ULLONG_MAX"
    have "content_length (parser x) - body_to_read d x \<le> content_length (parser x)"
      using le by (simp add: word_sub_le)
    moreover have "content_length (parser x) < ULLONG_MAX" using n by (simp add: ULLONG_MAX_def word_order.not_eq_extremum)
    ultimately show "content_length (parser x) - body_to_read d x \<noteq> ULLONG_MAX" by auto
  qed
qed

text \<open>On a buffer whose length fits 64 bits a body byte is consumed.\<close>

lemma body_to_read_pos:
  assumes "p x < length d" "content_length (parser x) \<noteq> 0" "length d < 2 ^ 64"
  shows "0 < unat (body_to_read d x)"
proof -
  have "unat (of_nat (length d - p x) :: u64) = length d - p x"
    unfolding unat_of_nat by (rule mod_less) (use assms in simp)
  then have "of_nat (length d - p x) \<noteq> (0 :: u64)" using assms(1)
    by (metis diff_is_0_eq linorder_not_less unat_0)
  then have "body_to_read d x \<noteq> 0" using assms(2) by (auto simp: body_to_read_def min_def)
  then show ?thesis by (simp add: unat_gt_0)
qed

lemma good_if:
  "(b \<Longrightarrow> good d x r) \<Longrightarrow> (\<not> b \<Longrightarrow> good d x s) \<Longrightarrow> good d x (if b then r else s)"
  by simp

lemma good_if_state:
  "(b \<Longrightarrow> good d x (Some (Continue r))) \<Longrightarrow> (\<not> b \<Longrightarrow> good d x (Some (Continue s))) \<Longrightarrow>
    good d x (Some (Continue (if b then r else s)))"
  by simp

lemma body_finished_good:
  fixes x :: "'a exec"
  assumes cbs: "callbacks_ok st" and c: "core 1 x" and px: "p x < length d" and len: "length d < 2 ^ 64"
    and s: "p_state x = s_body_identity"
    and m: "header_field_mark x = None" "header_value_mark x = None" "url_mark x = None" "status_mark x = None"
  defines "y \<equiv> UPDATE_STATE s_message_done ((upd (\<lambda>ps. ps\<lparr>content_length := content_length (parser x) - body_to_read d x\<rparr>)
    (x\<lparr>body_mark := MARK (body_mark x) (p x)\<rparr>))\<lparr>p := p x + unat (body_to_read d x) - 1\<rparr>)"
  shows "good d x (and_then (cb_body st d (p x + unat (body_to_read d x)) (int (p x + unat (body_to_read d x)) - 1) y) reexecute)"
  unfolding cb_body_def
proof (rule good_and_then_data)
  have e: "http_errno (parser x) = HPE_OK" "limits_ok (parser x)" using c unfolding core_def by simp_all
  have cl: "content_length (parser x) \<noteq> 0" using c s by (simp add: core_def state_ok_def)
  note b = body_to_read_bounds [OF px cl] body_to_read_pos [OF px cl len]
  fix x' :: "'a exec"
  assume x': "core 0 x'" "p x' = p y" "keeps_state (on_body st) \<Longrightarrow> p_state x' = p_state y \<and> nread (parser x') = nread (parser y)"
  then have "p_state x' = s_message_done" "p x' = p x + unat (body_to_read d x) - 1"
    using callbacks_okD(10) [OF cbs] by (simp_all add: y_def UPDATE_STATE_def upd_def)
  then show "good d x (reexecute x')" using x'(1) px b s by (auto simp: good_def reexecute_def rank_def)
next
  have e: "http_errno (parser x) = HPE_OK" "limits_ok (parser x)" using c unfolding core_def by simp_all
  then show "core 0 (y\<lparr>body_mark := None\<rparr>)"
    unfolding core_def y_def using m by (simp add: UPDATE_STATE_def upd_def limits_ok_def marks_ok_def state_ok_def)
  have cl: "content_length (parser x) \<noteq> 0" using c s by (simp add: core_def state_ok_def)
  note b = body_to_read_bounds [OF px cl] body_to_read_pos [OF px cl len]
  show "0 \<le> int (p x + unat (body_to_read d x)) - 1" "int (p x + unat (body_to_read d x)) - 1 \<le> int (length d)"
    using b px by linarith+
qed (use m callbacks_okD [OF cbs] in \<open>simp_all add: y_def UPDATE_STATE_def upd_def live_errno_def\<close>)

lemma step_body_good [step_good]:
  assumes cbs: "callbacks_ok st" and c: "core 1 x" and px: "p x < length d" and len: "length d < 2 ^ 64"
    and s: "p_state x \<in> {s_body_identity, s_body_identity_eof, s_message_done}"
  shows "good d x (step_body st d ch x)"
proof -
  have e: "http_errno (parser x) = HPE_OK" "limits_ok (parser x)" "marks_ok x" "state_ok 1 (p_state x) (parser x)"
    using c unfolding core_def by simp_all
  have m: "header_field_mark x = None" "header_value_mark x = None" "url_mark x = None" "status_mark x = None"
    using s e(3) by (elim insertE emptyE; simp add: marks_ok_def is_url_state_def)+
  consider "p_state x = s_body_identity" | "p_state x = s_body_identity_eof" | "p_state x = s_message_done"
    using s by blast
  then show ?thesis
  proof cases
    case 1
    let ?cl = "content_length (parser x)" and ?r = "body_to_read d x"
    have cl: "?cl \<noteq> 0" "?cl \<noteq> ULLONG_MAX" using e(4) 1 by (simp_all add: state_ok_def)
    note b = body_to_read_bounds [OF px cl(1)] body_to_read_pos [OF px cl(1) len]
    let ?x = "upd (\<lambda>ps. ps\<lparr>content_length := ?cl - ?r\<rparr>) (x\<lparr>body_mark := MARK (body_mark x) (p x)\<rparr>)"
    let ?stop = "p x + unat ?r"
    have finished: "good d x (and_then (cb_body st d ?stop (int ?stop - 1)
        (UPDATE_STATE s_message_done (?x\<lparr>p := ?stop - 1\<rparr>))) reexecute)"
      by (rule body_finished_good [OF cbs c px len 1 m])
    have more: "good d x (Some (Continue (?x\<lparr>p := ?stop\<rparr>)))" if "?cl - ?r \<noteq> 0"
      using that e m b px 1 cl by (auto simp: good_def core_def upd_def marks_ok_def limits_ok_def
        state_ok_def)
    have step: "step_body st d ch x = (if ?cl - ?r = 0
        then and_then (cb_body st d ?stop (int ?stop - 1)
          (UPDATE_STATE s_message_done (?x\<lparr>p := ?stop - 1\<rparr>))) reexecute
        else Some (Continue (?x\<lparr>p := ?stop\<rparr>)))"
      unfolding step_body_def Let_def 1 state.case using cl by (simp only: simp_thms if_False)
    show ?thesis unfolding step by (rule good_if [OF finished more])
  next
    case 2
    then show ?thesis using e m px
      by (simp add: step_body_def good_def core_def marks_ok_def state_ok_def limits_ok_def)
  next
    case 3
    have bm: "body_mark x = None" using e(3) 3 by (simp add: marks_ok_def)
    have "good d x (and_then (cb_message_complete st (int (p x) + 1)
        (UPDATE_STATE (NEW_MESSAGE (parser x)) x)) advance)"
      using m bm px by (intro good_complete [OF cbs core_new_message [OF e(1,2)]])
        (simp_all add: UPDATE_STATE_def)
    with 3 show ?thesis by (simp add: step_body_def)
  qed
qed

lemma chunk_small:
  assumes "\<not> (ULLONG_MAX - 16) div 16 < (cl :: u64)" "0 \<le> v" "v \<le> 15"
  shows "cl * 16 + word_of_int v \<noteq> ULLONG_MAX"
proof -
  have m: "(ULLONG_MAX - 16) div 16 = (1152921504606846974 :: u64)" by (simp add: ULLONG_MAX_def)
  have c: "uint cl \<le> 1152921504606846974"
    using assms(1) unfolding m by (simp add: not_less word_le_def)
  have n: "0 \<le> uint cl * 16 + v" "uint cl * 16 + v < 2 ^ 64 - 1" using c assms(2,3) by simp_all
  have "cl * 16 + word_of_int v = word_of_int (uint cl * 16 + v)" by simp
  then have "uint (cl * 16 + word_of_int v) = uint cl * 16 + v"
    using n by (simp only: uint_word_of_int_eq) (simp add: take_bit_int_eq_self)
  moreover have "uint ULLONG_MAX = 2 ^ 64 - 1"
    by (simp add: ULLONG_MAX_def unsigned_minus_1_eq_mask mask_eq_exp_minus_1)
  ultimately show ?thesis using n by auto
qed

text \<open>The states of a chunk's size leave no marks, and moving on needs only what the next state asks for.\<close>

abbreviation chunk_size_states :: "state set" where
  "chunk_size_states \<equiv> {s_chunk_size_start, s_chunk_size, s_chunk_parameters, s_chunk_size_almost_done}"

lemma chunk_size_facts:
  assumes c: "core 1 x" and s: "p_state x \<in> chunk_size_states"
  shows "http_errno (parser x) = HPE_OK" "limits_ok (parser x)" "state_ok 1 (p_state x) (parser x)"
    "header_field_mark x = None" "header_value_mark x = None" "url_mark x = None" "status_mark x = None" "body_mark x = None"
proof -
  have e: "marks_ok x" "http_errno (parser x) = HPE_OK" "limits_ok (parser x)" "state_ok 1 (p_state x) (parser x)"
    using c unfolding core_def by simp_all
  then show "http_errno (parser x) = HPE_OK" "limits_ok (parser x)" "state_ok 1 (p_state x) (parser x)" by simp_all
  show "header_field_mark x = None" "header_value_mark x = None" "url_mark x = None" "status_mark x = None" "body_mark x = None"
    using s e(1) by (elim insertE emptyE; simp add: marks_ok_def is_url_state_def)+
qed

lemma chunk_size_advance:
  assumes c: "core 1 x" and s: "p_state x \<in> chunk_size_states" and px: "p x < length d"
    and l: "same_limits ((parser x)\<lparr>nread := nread (g (parser x))\<rparr>) (g (parser x))" "uint (nread (g (parser x))) \<le> HTTP_MAX_HEADER_SIZE"
    and ok: "state_ok 0 s' (g (parser x))"
  shows "good d x (advance (UPDATE_STATE s' (upd g x)))"
  using chunk_size_facts [OF c s] px l ok
  by (intro good_advance) (simp_all add: core_def UPDATE_STATE_def upd_def marks_ok_def limits_ok_def same_limits_def)

lemma chunk_size_advance_same:
  assumes c: "core 1 x" and s: "p_state x \<in> chunk_size_states" and px: "p x < length d" and ok: "state_ok 0 s' (parser x)"
  shows "good d x (advance (UPDATE_STATE s' x))"
  using chunk_size_facts [OF c s] px ok
  by (intro good_advance) (simp_all add: core_def UPDATE_STATE_def marks_ok_def limits_ok_def)

lemma chunk_size_start_good:
  assumes c: "core 1 x" and px: "p x < length d" and s: "p_state x = s_chunk_size_start"
  shows "good d x (step_chunk_size ch x)"
proof -
  note f = chunk_size_facts [OF c, unfolded s, simplified]
  have k: "nread (parser x) = 1" "flag_set (parser x) F_CHUNKED" using f(3) s by (simp_all add: state_ok_def)
  have "good d x (advance (UPDATE_STATE s_chunk_size
      (upd (\<lambda>ps. ps\<lparr>content_length := word_of_int (unhex_at ch)\<rparr>) x)))" if "unhex_at ch \<noteq> -1"
  proof (rule chunk_size_advance [OF c _ px])
    have "word_of_int (unhex_at ch) \<noteq> ULLONG_MAX"
      using chunk_small [of 0 "unhex_at ch"] unhex_range [of ch] that by (simp add: ULLONG_MAX_def)
    then show "state_ok 0 s_chunk_size ((parser x)\<lparr>content_length := word_of_int (unhex_at ch)\<rparr>)"
      using k by (simp add: state_ok_def flag_set_def)
  qed (use f(2) s in \<open>simp_all add: same_limits_def limits_ok_def\<close>)
  then show ?thesis using s k px by (simp add: step_chunk_size_def Let_def live_errno_def good_fail)
qed

lemma chunk_size_digits_good:
  assumes c: "core 1 x" and px: "p x < length d" and s: "p_state x = s_chunk_size"
  shows "good d x (step_chunk_size ch x)"
proof -
  have S: "p_state x \<in> chunk_size_states" using s by simp
  note f = chunk_size_facts [OF c S]
  have k: "flag_set (parser x) F_CHUNKED" "content_length (parser x) \<noteq> ULLONG_MAX" using f(3) s by (simp_all add: state_ok_def)
  have "good d x (advance (upd (\<lambda>ps. ps\<lparr>content_length := content_length (parser x) * 16 + word_of_int (unhex_at ch)\<rparr>) x))"
    if "unhex_at ch \<noteq> -1" "\<not> (ULLONG_MAX - 16) div 16 < content_length (parser x)"
    using chunk_small [OF that(2), of "unhex_at ch"] unhex_range [of ch] that(1) f px s k
    by (intro good_advance) (simp_all add: core_def upd_def marks_ok_def limits_ok_def state_ok_def flag_set_def)
  moreover have "good d x (advance (UPDATE_STATE s_chunk_size_almost_done x))" "good d x (advance (UPDATE_STATE s_chunk_parameters x))"
    using k by (auto intro!: chunk_size_advance_same [OF c S px] simp: state_ok_def)
  ultimately show ?thesis using s k px by (simp add: step_chunk_size_def Let_def live_errno_def good_fail)
qed

lemma chunk_parameters_good:
  assumes c: "core 1 x" and px: "p x < length d" and s: "p_state x = s_chunk_parameters"
  shows "good d x (step_chunk_size ch x)"
proof -
  have S: "p_state x \<in> chunk_size_states" using s by simp
  note f = chunk_size_facts [OF c S]
  have k: "flag_set (parser x) F_CHUNKED" "content_length (parser x) \<noteq> ULLONG_MAX" using f(3) s by (simp_all add: state_ok_def)
  have "good d x (advance x)" using k s f px by (auto intro!: good_advance simp: state_ok_def core_def marks_ok_def)
  moreover have "good d x (advance (UPDATE_STATE s_chunk_size_almost_done x))"
    using k by (auto intro!: chunk_size_advance_same [OF c S px] simp: state_ok_def)
  ultimately show ?thesis using s k by (simp add: step_chunk_size_def)
qed

lemma chunk_size_done_good:
  assumes c: "core 1 x" and px: "p x < length d" and s: "p_state x = s_chunk_size_almost_done"
  shows "good d x (step_chunk_size ch x)"
proof -
  have S: "p_state x \<in> chunk_size_states" using s by simp
  have k: "flag_set (parser x) F_CHUNKED" "content_length (parser x) \<noteq> ULLONG_MAX"
    using chunk_size_facts(3) [OF c S] s by (simp_all add: state_ok_def)
  have "good d x (advance (UPDATE_STATE s_header_field_start (upd (\<lambda>ps. set_flag F_TRAILING (ps\<lparr>nread := 0\<rparr>)) x)))"
    by (rule chunk_size_advance [OF c S px]) (simp_all add: same_limits_def set_flag_def HTTP_MAX_HEADER_SIZE_def state_ok_def)
  moreover have "good d x (advance (UPDATE_STATE s_chunk_data (upd (\<lambda>ps. ps\<lparr>nread := 0\<rparr>) x)))" if "content_length (parser x) \<noteq> 0"
    by (rule chunk_size_advance [OF c S px])
      (use that k in \<open>simp_all add: same_limits_def HTTP_MAX_HEADER_SIZE_def state_ok_def flag_set_def\<close>)
  ultimately show ?thesis using s k px
    by (simp add: step_chunk_size_def live_errno_def STRICT_CHECK_def Let_def upd_def good_fail)
qed

lemma step_chunk_size_good [step_good]:
  assumes "core 1 x" "p x < length d" "p_state x \<in> chunk_size_states"
  shows "good d x (step_chunk_size ch x)"
  using assms chunk_size_start_good chunk_size_digits_good chunk_parameters_good chunk_size_done_good by fastforce

lemma step_chunk_data_good [step_good]:
  assumes cbs: "callbacks_ok st" and c: "core 1 x" and px: "p x < length d" and len: "length d < 2 ^ 64"
    and s: "p_state x \<in> {s_chunk_data, s_chunk_data_almost_done, s_chunk_data_done}"
  shows "good d x (step_chunk_data st d ch x)"
proof -
  have e: "http_errno (parser x) = HPE_OK" "limits_ok (parser x)" "marks_ok x" "state_ok 1 (p_state x) (parser x)"
    using c unfolding core_def by simp_all
  have m: "header_field_mark x = None" "header_value_mark x = None" "url_mark x = None" "status_mark x = None"
    using s e(3) by (elim insertE emptyE; simp add: marks_ok_def is_url_state_def)+
  have k: "flag_set (parser x) F_CHUNKED"
    using s e(4) by (elim insertE emptyE; simp add: state_ok_def)
  have f: "good d x (fail HPE_STRICT x)" using px by (simp add: good_fail live_errno_def)
  consider "p_state x = s_chunk_data" | "p_state x = s_chunk_data_almost_done"
    | "p_state x = s_chunk_data_done" using s by blast
  then show ?thesis
  proof cases
    case 1
    let ?cl = "content_length (parser x)" and ?r = "body_to_read d x"
    have cl: "?cl \<noteq> 0" "?cl \<noteq> ULLONG_MAX" using e(4) 1 by (simp_all add: state_ok_def)
    note b = body_to_read_bounds [OF px cl(1)] body_to_read_pos [OF px cl(1) len]
    let ?x = "upd (\<lambda>ps. ps\<lparr>content_length := ?cl - ?r\<rparr>)
      (x\<lparr>body_mark := MARK (body_mark x) (p x), p := p x + unat ?r\<rparr>)"
    have more: "good d x (Some (Continue ?x))" if "?cl - ?r \<noteq> 0"
      using that e(1,2) m b px 1 cl k unfolding good_def core_def
      by (simp add: upd_def marks_ok_def limits_ok_def state_ok_def flag_set_def)
    have finished: "good d x (Some (Continue (UPDATE_STATE s_chunk_data_almost_done ?x)))" if "?cl - ?r = 0"
      using that e(1,2) m b px k unfolding good_def core_def
      by (simp add: upd_def UPDATE_STATE_def marks_ok_def limits_ok_def state_ok_def flag_set_def)
    have step: "step_chunk_data st d ch x = Some (Continue
        (if ?cl - ?r = 0 then UPDATE_STATE s_chunk_data_almost_done ?x else ?x))"
      unfolding step_chunk_data_def Let_def 1 state.case using cl k by (simp only: simp_thms if_False)
    show ?thesis unfolding step by (rule good_if_state [OF finished more])
  next
    case 2
    have cl: "content_length (parser x) = 0" using e(4) 2 by (simp add: state_ok_def)
    have "good d x (and_then (cb_body st d (p x) (int (p x) + 1) (UPDATE_STATE s_chunk_data_done x)) advance)"
      unfolding cb_body_def
    proof (rule good_and_then_data)
      show "core 0 ((UPDATE_STATE s_chunk_data_done x)\<lparr>body_mark := None\<rparr>)"
        unfolding core_def using e(1,2) m k
        by (simp add: UPDATE_STATE_def limits_ok_def marks_ok_def state_ok_def)
    qed (use m px callbacks_okD [OF cbs] in \<open>simp_all add: UPDATE_STATE_def live_errno_def good_advance\<close>)
    with 2 cl k f show ?thesis by (simp add: step_chunk_data_def STRICT_CHECK_def)
  next
    case 3
    have bm: "body_mark x = None" using e(3) 3 by (simp add: marks_ok_def)
    have "good d x (advance (UPDATE_STATE s_chunk_size_start (upd (\<lambda>ps. ps\<lparr>nread := 0\<rparr>) x)))"
      using e(1,2) m bm px k by (intro good_advance)
        (simp_all add: core_def UPDATE_STATE_def upd_def marks_ok_def limits_ok_def state_ok_def
          flag_set_def HTTP_MAX_HEADER_SIZE_def)
    with 3 k f show ?thesis by (simp add: step_chunk_data_def STRICT_CHECK_def)
  qed
qed

section \<open>The whole call\<close>

lemma exec_state_good:
  assumes cbs: "callbacks_ok st" and c: "core 1 x" and px: "p x < length d" and len: "length d < 2 ^ 64"
    and nr: "PARSING_HEADER (p_state x) \<Longrightarrow> nread (parser x) \<noteq> 0"
  shows "good d x (exec_state st d ch x)"
proof (cases "p_state x = s_header_value \<or> p_state x = s_header_value_discard_ws \<or>
    p_state x = s_header_value_discard_ws_almost_done \<or> p_state x = s_header_value_discard_lws \<or>
    p_state x = s_header_value_start \<or> p_state x = s_header_value_lws \<or> p_state x = s_header_almost_done")
  case True
  then have "nread (parser x) \<noteq> 0" using nr by (elim disjE; simp add: PARSING_HEADER_def)
  then have "good d x (step_header_value st d ch x)"
    using True by (intro step_header_value_good cbs c px) auto
  then show ?thesis using True by (elim disjE; simp add: exec_state_def)
next
  case False
  note g = step_start_good [OF cbs c px] step_res_version_good [OF c px]
    step_res_status_good [OF cbs c px] step_start_req_good [OF cbs c px]
    step_req_method_good [OF c px] step_req_url_good [OF cbs c px, unfolded is_url_state_def]
    step_req_version_good [OF c px] step_header_field_good [OF cbs c px]
    step_chunk_size_good [OF c px] step_headers_almost_done_good [OF cbs c px]
    step_headers_done_good [OF cbs c px] step_chunk_data_good [OF cbs c px len]
    step_body_good [OF cbs c px len]
  show ?thesis
    using False g by (cases "p_state x"; simp add: exec_state_def)
qed

lemma good_same_start: "p x = p y \<Longrightarrow> p_state x = p_state y \<Longrightarrow> good d x r \<Longrightarrow> good d y r"
  by (simp add: good_def split: option.splits step.splits)

lemma exec_byte_good:
  assumes cbs: "callbacks_ok st" and c: "core 0 x" and px: "p x < length d" and len: "length d < 2 ^ 64"
  shows "good d x (exec_byte st d x)"
proof (cases "PARSING_HEADER (p_state x)")
  case True
  have e: "http_errno (parser x) = HPE_OK" "limits_ok (parser x)" "marks_ok x" "state_ok 0 (p_state x) (parser x)"
    using c unfolding core_def by simp_all
  have "good d x (and_then (COUNT_HEADER_SIZE 1 (int (p x)) x) (exec_state st d (d ! p x)))"
  proof (rule good_and_then_count)
    fix n assume n: "n = nread (parser x) + word_of_int 1" "uint n \<le> HTTP_MAX_HEADER_SIZE"
    let ?x = "x\<lparr>parser := (parser x)\<lparr>nread := n\<rparr>\<rparr>"
    have "uint (nread (parser x)) \<le> 81920" using e(2) by (simp add: limits_ok_def HTTP_MAX_HEADER_SIZE_def)
    then have "uint (nread (parser x) + 1) = uint (nread (parser x)) + 1"
      by (simp add: uint_word_ariths)
    then have nz: "n \<noteq> 0" using n(1) by (metis add_cancel_right_left uint_0_eq uint_ge_0 word_of_int_1 zero_le_one
      add_nonneg_eq_0_iff zero_neq_one)
    have "core 1 ?x"
      unfolding core_def using e n
      by (cases "p_state x") (simp_all add: limits_ok_def marks_ok_def state_ok_def flag_set_def)
    then have "good d ?x (exec_state st d (d ! p x) ?x)"
      using px nz by (intro exec_state_good [OF cbs _ _ len]) simp_all
    then show "good d x (exec_state st d (d ! p x) ?x)"
      by (rule good_same_start [rotated 2]) simp_all
  qed (use e px in simp_all)
  with True show ?thesis by (simp add: exec_byte_def)
next
  case False
  then have "p_state x \<noteq> s_chunk_size_start" by (auto simp: PARSING_HEADER_def)
  then have "core 1 x" by (rule core_weaken [OF c])
  from exec_state_good [OF cbs this px len] False show ?thesis by (simp add: exec_byte_def)
qed

text \<open>The loop ends, at the end of the data or with a \<open>return\<close>.\<close>

lemma exec_loop_ok:
  assumes cbs: "callbacks_ok st" and len: "length d < 2 ^ 64" and c: "core 0 x" "p x \<le> length d"
  shows "(\<exists>x'. exec_loop st d x = Some (Continue x') \<and> core 0 x' \<and> p x' = length d) \<or>
    (\<exists>n ps. exec_loop st d x = Some (Return n ps) \<and> 0 \<le> n \<and> n \<le> int (length d) \<and> parser_ok ps)"
  using c
proof (induction "(length d - p x, rank (p_state x))" arbitrary: x
    rule: wf_induct_rule [OF wf_lex_prod [OF wf_less_than wf_less_than], consumes 0, case_names less])
  case (less x)
  show ?case
  proof (cases "p x = length d")
    case True
    then show ?thesis using less.prems by (simp add: exec_loop.simps [of st d x])
  next
    case False
    then have px: "p x < length d" using less.prems by simp
    note g = exec_byte_good [OF cbs less.prems(1) px len]
    show ?thesis
    proof (cases "exec_byte st d x")
      case None
      then show ?thesis using g by (simp add: good_def)
    next
      case (Some r)
      show ?thesis
      proof (cases r)
        case (Return n ps)
        then show ?thesis using Some g False by (simp add: good_def exec_loop.simps [of st d x])
      next
        case (Continue x')
        with Some g have x': "core 0 x'" "p x' \<le> length d"
          "p x < p x' \<or> p x' = p x \<and> rank (p_state x') < rank (p_state x)" by (simp_all add: good_def)
        then have "((length d - p x', rank (p_state x')), (length d - p x, rank (p_state x)))
            \<in> less_than <*lex*> less_than" using px by auto
        from less.hyps [OF this x'(1,2)] Some Continue False show ?thesis
          by (simp add: exec_loop.simps [of st d x])
      qed
    qed
  qed
qed

lemma callback_no_mark:
  "http_errno (parser x) = HPE_OK \<Longrightarrow> and_then (CALLBACK_DATA hpe cb None clear d stop er x) k = k x"
  by (simp add: CALLBACK_DATA_def and_then_def)

lemma good_RETURN: "core 0 x \<Longrightarrow> good d x0 (RETURN (int (length d)) x)"
  by (simp add: good_def RETURN_def core_def parser_ok_def limits_ok_def state_ok_def flag_set_def
    cong: state.case_cong)

definition no_marks :: "'u exec \<Rightarrow> bool" where
  "no_marks x \<longleftrightarrow> header_field_mark x = None \<and> header_value_mark x = None \<and>
     url_mark x = None \<and> body_mark x = None \<and> status_mark x = None"

lemma one_mark:
  assumes "marks_ok x"
  obtains (hf) "no_marks (x\<lparr>header_field_mark := None\<rparr>)" "header_field_mark x \<noteq> None"
  | (hv) "no_marks (x\<lparr>header_value_mark := None\<rparr>)" "header_value_mark x \<noteq> None"
  | (url) "no_marks (x\<lparr>url_mark := None\<rparr>)" "url_mark x \<noteq> None"
  | (body) "no_marks (x\<lparr>body_mark := None\<rparr>)" "body_mark x \<noteq> None"
  | (status) "no_marks (x\<lparr>status_mark := None\<rparr>)" "status_mark x \<noteq> None"
  | (none) "no_marks x"
proof -
  consider "p_state x = s_header_field" | "p_state x = s_header_value" | "p_state x = s_res_status"
    | "is_url_state (p_state x)"
    | "p_state x \<noteq> s_header_field" "p_state x \<noteq> s_header_value" "p_state x \<noteq> s_res_status"
      "\<not> is_url_state (p_state x)" by blast
  then show thesis
  proof cases
    case 1
    then show thesis using assms hf none
      by (cases "header_field_mark x") (simp_all add: marks_ok_def no_marks_def is_url_state_def)
  next
    case 2
    then show thesis using assms hv none
      by (cases "header_value_mark x") (simp_all add: marks_ok_def no_marks_def is_url_state_def)
  next
    case 3
    then show thesis using assms status none
      by (cases "status_mark x") (simp_all add: marks_ok_def no_marks_def is_url_state_def)
  next
    case 4
    then have "p_state x \<noteq> s_header_field" "p_state x \<noteq> s_header_value" "p_state x \<noteq> s_res_status"
      "p_state x \<noteq> s_body_identity" "p_state x \<noteq> s_body_identity_eof" "p_state x \<noteq> s_chunk_data"
      "p_state x \<noteq> s_chunk_data_almost_done" by (auto simp: is_url_state_def)
    then show thesis using assms url none
      by (cases "url_mark x") (simp_all add: marks_ok_def no_marks_def)
  next
    case 5
    then show thesis using assms body none
      by (cases "body_mark x") (simp_all add: marks_ok_def no_marks_def)
  qed
qed

text \<open>What is left to do at the end of the buffer, from the last callback to the first; at most one of them has a mark.\<close>

definition end_status :: "'u http_parser_settings \<Rightarrow> string \<Rightarrow> 'u exec \<Rightarrow> 'u step option" where
  "end_status st d x = and_then (cb_status st d (length d) (int (length d)) x) (RETURN (int (length d)))"

definition end_body :: "'u http_parser_settings \<Rightarrow> string \<Rightarrow> 'u exec \<Rightarrow> 'u step option" where
  "end_body st d x = and_then (cb_body st d (length d) (int (length d)) x) (end_status st d)"

definition end_url :: "'u http_parser_settings \<Rightarrow> string \<Rightarrow> 'u exec \<Rightarrow> 'u step option" where
  "end_url st d x = and_then (cb_url st d (length d) (int (length d)) x) (end_body st d)"

definition end_value :: "'u http_parser_settings \<Rightarrow> string \<Rightarrow> 'u exec \<Rightarrow> 'u step option" where
  "end_value st d x = and_then (cb_header_value st d (length d) (int (length d)) x) (end_url st d)"

lemmas end_defs = end_status_def end_body_def end_url_def end_value_def

lemmas skip_callback = cb_header_field_def cb_header_value_def cb_url_def cb_body_def cb_status_def
  callback_no_mark no_marks_def core_def

lemma exec_end_eq:
  assumes "count_mark (header_field_mark x) + count_mark (header_value_mark x) +
    count_mark (url_mark x) + count_mark (body_mark x) + count_mark (status_mark x) \<le> 1"
  shows "exec_end st d x = and_then (cb_header_field st d (length d) (int (length d)) x) (end_value st d)"
  using assms by (simp add: exec_end_def Let_def end_defs [abs_def])

lemma end_without_marks:
  assumes "core 0 y" "no_marks y"
  shows "good d x0 (end_status st d y)" "good d x0 (end_body st d y)" "good d x0 (end_url st d y)" "good d x0 (end_value st d y)"
proof -
  show s: "good d x0 (end_status st d y)" using assms good_RETURN [OF assms(1)] by (simp add: end_status_def skip_callback)
  show b: "good d x0 (end_body st d y)" using assms s by (simp add: end_body_def skip_callback)
  show u: "good d x0 (end_url st d y)" using assms b by (simp add: end_url_def skip_callback)
  show "good d x0 (end_value st d y)" using assms u by (simp add: end_value_def skip_callback)
qed

lemma exec_end_good:
  assumes cbs: "callbacks_ok st" and c: "core 0 x"
  shows "good d x0 (exec_end st d x)"
proof -
  have e: "http_errno (parser x) = HPE_OK" "limits_ok (parser x)" "marks_ok x" "state_ok 0 (p_state x) (parser x)"
    using c unfolding core_def by simp_all
  note cb = callbacks_okD [OF cbs] and n = end_without_marks [of _ d x0 st]
  have c': "core 0 (x\<lparr>header_field_mark := None\<rparr>)" "core 0 (x\<lparr>header_value_mark := None\<rparr>)"
    "core 0 (x\<lparr>url_mark := None\<rparr>)" "core 0 (x\<lparr>body_mark := None\<rparr>)" "core 0 (x\<lparr>status_mark := None\<rparr>)"
    using e by (simp_all add: core_def marks_ok_def)
  note data = good_and_then_data [where d = d and x = x and stop = "length d" and er = "int (length d)"]
  from e(3) show ?thesis
  proof (cases rule: one_mark)
    case hf
    have "good d x0 (and_then (cb_header_field st d (length d) (int (length d)) x) (end_value st d))"
      unfolding cb_header_field_def
      by (rule data [OF cb(5)]) (use hf c' n in \<open>simp_all add: live_errno_def no_marks_def\<close>)
    with hf show ?thesis by (subst exec_end_eq) (auto simp: count_mark_def no_marks_def)
  next
    case hv
    have "good d x0 (end_value st d x)" unfolding end_value_def cb_header_value_def
      by (rule data [OF cb(6)]) (use hv c' n in \<open>simp_all add: live_errno_def no_marks_def\<close>)
    with hv e(1) show ?thesis by (subst exec_end_eq) (auto simp: count_mark_def skip_callback)
  next
    case url
    have "good d x0 (end_url st d x)" unfolding end_url_def cb_url_def
      by (rule data [OF cb(3)]) (use url c' n in \<open>simp_all add: live_errno_def no_marks_def\<close>)
    with url e(1) show ?thesis by (subst exec_end_eq) (auto simp: count_mark_def end_value_def skip_callback)
  next
    case body
    have "good d x0 (end_body st d x)" unfolding end_body_def cb_body_def
      by (rule data [OF cb(7)]) (use body c' n in \<open>simp_all add: live_errno_def no_marks_def\<close>)
    with body e(1) show ?thesis by (subst exec_end_eq) (auto simp: count_mark_def end_value_def end_url_def skip_callback)
  next
    case status
    have "good d x0 (end_status st d x)" unfolding end_status_def cb_status_def
      by (rule data [OF cb(4)]) (use status c' good_RETURN in \<open>simp_all add: live_errno_def no_marks_def\<close>)
    with status e(1) show ?thesis
      by (subst exec_end_eq) (auto simp: count_mark_def end_value_def end_url_def end_body_def skip_callback)
  next
    case none
    from n(4) [OF c none] none e(1) show ?thesis by (subst exec_end_eq) (auto simp: count_mark_def skip_callback)
  qed
qed

lemma core_exec_start:
  assumes "parser_ok ps" "http_errno ps = HPE_OK"
  shows "core 0 (exec_start ps)"
  using assms by (auto simp: core_def exec_start_def parser_ok_def live_errno_def marks_ok_def)

lemma exec_start_sel [simp]:
  "parser (exec_start ps) = ps" "p_state (exec_start ps) = state ps" "p (exec_start ps) = 0"
  by (simp_all add: exec_start_def)

lemma exec_eof_ok:
  assumes cbs: "callbacks_ok st" and ok: "parser_ok ps" and e: "http_errno ps = HPE_OK"
  shows "\<exists>n ps'. exec_eof st ps = Some (n, ps') \<and> 0 \<le> n \<and> n \<le> 1 \<and> parser_ok ps'"
proof -
  have err: "parser_ok (SET_ERRNO HPE_INVALID_EOF_STATE ps)"
    by (simp add: parser_ok_def SET_ERRNO_def live_errno_def)
  have call: "\<exists>ps'. step_result (cb_message_complete st 0 (exec_start ps)) = Some (0, ps') \<and> parser_ok ps'"
  proof (cases "on_message_complete st")
    case None
    then show ?thesis using ok e
      by (simp add: cb_message_complete_def CALLBACK_NOTIFY_def Let_def step_result_def)
  next
    case (Some f)
    obtain rc ps' where f: "f ps = (rc, ps')" by force
    have "parser_ok ps'"
      using callbacks_okD(2) [OF cbs] Some f ok unfolding notify_ok_def by (metis snd_conv)
    moreover have "parser_ok (SET_ERRNO HPE_CB_message_complete ps')"
      by (simp add: parser_ok_def SET_ERRNO_def live_errno_def)
    ultimately show ?thesis using Some f e
      by (simp add: cb_message_complete_def CALLBACK_NOTIFY_def Let_def step_result_def)
  qed
  show ?thesis using ok err call by (cases "state ps"; auto simp: exec_eof_def)
qed

lemma execute_ok:
  assumes cbs: "callbacks_ok st" and ok: "parser_ok ps" and len: "length d < 2 ^ 64"
  shows "\<exists>n ps'. http_parser_execute st ps d = Some (n, ps') \<and> 0 \<le> n \<and>
    n \<le> max 1 (int (length d)) \<and> (d \<noteq> [] \<longrightarrow> n \<le> int (length d)) \<and> parser_ok ps'"
proof (cases "http_errno ps = HPE_OK \<and> d \<noteq> []")
  case False
  then consider "http_errno ps \<noteq> HPE_OK" | "http_errno ps = HPE_OK" "d = []" by blast
  then show ?thesis
  proof cases
    case 1
    then show ?thesis using ok by (simp add: http_parser_execute_def)
  next
    case 2
    with exec_eof_ok [OF cbs ok 2(1)] show ?thesis by (auto simp: http_parser_execute_def)
  qed
next
  case True
  have c: "core 0 (exec_start ps)" using ok True by (intro core_exec_start) simp_all
  have "p (exec_start ps) \<le> length d" by (simp add: exec_start_def)
  from exec_loop_ok [OF cbs len c this]
  consider (cont) x where "exec_loop st d (exec_start ps) = Some (Continue x)" "core 0 x"
    | (ret) n ps' where "exec_loop st d (exec_start ps) = Some (Return n ps')" "0 \<le> n"
      "n \<le> int (length d)" "parser_ok ps'" by blast
  then show ?thesis
  proof cases
    case ret
    then show ?thesis using True by (simp add: http_parser_execute_def and_then_def step_result_def)
  next
    case cont
    have g: "good d x (exec_end st d x)" by (rule exec_end_good [OF cbs cont(2)])
    have nc: "exec_end st d x \<noteq> Some (Continue y)" for y
      by (auto simp: exec_end_def Let_def and_then_def RETURN_def split: option.splits step.splits if_splits)
    obtain n ps' where "exec_end st d x = Some (Return n ps')"
      using g nc by (auto simp: good_def split: option.splits step.splits)
    with g cont True show ?thesis
      by (auto simp: http_parser_execute_def and_then_def step_result_def good_def)
  qed
qed

section \<open>The client of the parser\<close>

text \<open>
  A client that gives the parser callbacks within the contract can feed it any sequence of
  buffers: every call returns, and the parser stays within its invariant.
\<close>

fun feed :: "'u http_parser_settings \<Rightarrow> 'u http_parser \<Rightarrow> string list \<Rightarrow> (int list \<times> 'u http_parser) option" where
  "feed st ps [] = Some ([], ps)"
| "feed st ps (d # ds) =
     (case http_parser_execute st ps d of None \<Rightarrow> None
      | Some (n, ps') \<Rightarrow>
          (case feed st ps' ds of None \<Rightarrow> None | Some (ns, ps'') \<Rightarrow> Some (n # ns, ps'')))"

locale http_client =
  fixes st :: "'u http_parser_settings"
  assumes callbacks: "callbacks_ok st"
begin

lemma feed_ok:
  assumes "parser_ok ps" "\<forall>d \<in> set ds. length d < 2 ^ 64"
  shows "\<exists>ns ps'. feed st ps ds = Some (ns, ps') \<and> parser_ok ps' \<and>
    list_all2 (\<lambda>n d. 0 \<le> n \<and> n \<le> max 1 (int (length d))) ns ds"
  using assms
proof (induction ds arbitrary: ps)
  case Nil
  then show ?case by simp
next
  case (Cons d ds)
  obtain n ps1 where 1: "http_parser_execute st ps d = Some (n, ps1)" "0 \<le> n"
    "n \<le> max 1 (int (length d))" "parser_ok ps1"
    using execute_ok [OF callbacks Cons.prems(1), of d] Cons.prems(2) by auto
  obtain ns ps2 where "feed st ps1 ds = Some (ns, ps2)" "parser_ok ps2"
    "list_all2 (\<lambda>n d. 0 \<le> n \<and> n \<le> max 1 (int (length d))) ns ds"
    using Cons.IH [OF 1(4)] Cons.prems(2) by auto
  with 1 show ?case by simp
qed

end

end
