(* ===== verification/Http_Numbers.thy ===== *)
theory Http_Numbers
  imports Http_Safety
begin

text \<open>
  Runs of \<open>http_parser_execute\<close> over the numbers of a message (\<open>Content-Length\<close> and chunk
  sizes), the character tables of \<open>http_parser.c\<close> against the classes they encode, and the
  settings and parsers that concrete runs use.
\<close>

section \<open>Settings and parsers for concrete runs\<close>

definition no_callbacks :: "'u http_parser_settings" where
  "no_callbacks = \<lparr>on_message_begin = None, on_url = None, on_status = None, on_header_field = None,
     on_header_value = None, on_headers_complete = None, on_body = None, on_message_complete = None\<rparr>"

definition fresh_parser :: "http_parser_type \<Rightarrow> unit http_parser" where
  "fresh_parser t = http_parser_init
     \<lparr>parser_type = t, flags = 0, state = s_dead, header_state = h_general, index = 0, nread = 0,
      content_length = 0, http_major = 0, http_minor = 0, status_code = 0, method = HTTP_DELETE,
      http_errno = HPE_OK, upgrade = False, data = ()\<rparr> t"

lemma no_callbacks_ok: "callbacks_ok no_callbacks"
  by (simp add: callbacks_ok_def notify_ok_def data_ok_def complete_ok_def keeps_state_def no_callbacks_def)

lemma init_ok: "parser_ok (http_parser_init ps t)"
  by (simp add: parser_ok_def http_parser_init_def limits_ok_def state_ok_def HTTP_MAX_HEADER_SIZE_def)

lemma fresh_ok: "parser_ok (fresh_parser t)"
  unfolding fresh_parser_def by (rule init_ok)

section \<open>Tables\<close>

definition rfc_token :: "nat \<Rightarrow> nat" where
  "rfc_token n =
     (if n \<le> 32 \<or> 127 \<le> n \<or>
         n \<in> {34, 40, 41, 44, 47, 58, 59, 60, 61, 62, 63, 64, 91, 92, 93, 123, 125} then 0
      else if 65 \<le> n \<and> n \<le> 90 then n + 32 else n)"

lemma tokens_rfc: "tokens = map rfc_token [0..<128]"
  by (simp add: tokens_def rfc_token_def upt_rec)

lemma TOKEN_rfc: "TOKEN c = char_of (rfc_token (of_char c))"
proof (cases "of_char c < (128 :: nat)")
  case True
  then show ?thesis by (simp add: TOKEN_def table_at_def tokens_rfc)
next
  case False
  then show ?thesis by (simp add: TOKEN_def table_at_def tokens_rfc rfc_token_def)
qed

lemma unhex_table:
  "unhex = map (\<lambda>n. if 48 \<le> n \<and> n \<le> 57 then int n - 48
     else if 65 \<le> n \<and> n \<le> 70 then int n - 55 else if 97 \<le> n \<and> n \<le> 102 then int n - 87 else -1) [0..<128]"
  by (simp add: unhex_def upt_rec)

lemma unhex_at_eq:
  "unhex_at c = (let n = of_char c :: nat in
     if 128 \<le> n then 0
     else if 48 \<le> n \<and> n \<le> 57 then int n - 48
     else if 65 \<le> n \<and> n \<le> 70 then int n - 55
     else if 97 \<le> n \<and> n \<le> 102 then int n - 87 else -1)"
  by (simp add: unhex_at_def table_at_def unhex_table Let_def)

lemma url_char_table:
  "\<forall>n < 128. bit (normal_url_char ! (n div 8)) (n mod 8) = (33 \<le> n \<and> n \<le> 126 \<and> n \<noteq> 35 \<and> n \<noteq> 63)"
  by code_simp

text \<open>A request line that starts with any of the 27 method names and a space is
  recognised: the parser has that method and waits for the URL.\<close>

theorem methods_recognised:
  "map_option (\<lambda>(n, ps). (n, http_errno ps, state ps, method ps))
     (http_parser_execute no_callbacks (fresh_parser HTTP_REQUEST) (http_method_str m @ '' ''))
   = Some (int (length (http_method_str m)) + 1, HPE_OK, s_req_spaces_before_url, m)"
  by (induct m; code_simp)

lemma url_char_eq:
  "IS_URL_CHAR c = (let n = of_char c :: nat in 33 \<le> n \<and> n \<le> 126 \<and> n \<noteq> 35 \<and> n \<noteq> 63)"
proof (cases "of_char c < (128 :: nat)")
  case True
  moreover have "of_char c div 8 < length normal_url_char"
    using True by (simp add: normal_url_char_def)
  ultimately show ?thesis using url_char_table by (simp add: IS_URL_CHAR_def Let_def)
next
  case False
  then have "\<not> of_char c div 8 < length normal_url_char" by (simp add: normal_url_char_def not_less)
  with False show ?thesis by (simp add: IS_URL_CHAR_def Let_def)
qed

section \<open>Numbers\<close>

text \<open>The number that a string of digits denotes, in a base, continuing from \<open>n\<close>.\<close>

definition number_from :: "int \<Rightarrow> (char \<Rightarrow> int) \<Rightarrow> int \<Rightarrow> string \<Rightarrow> int" where
  "number_from base val n ds = foldl (\<lambda>a c. base * a + val c) n ds"

lemma number_from_simps [simp]:
  "number_from base val n [] = n"
  "number_from base val n (c # cs) = number_from base val (base * n + val c) cs"
  by (simp_all add: number_from_def)

lemma number_from_ge:
  assumes "1 \<le> base" "0 \<le> n" "\<forall>c \<in> set ds. 0 \<le> val c"
  shows "n \<le> number_from base val n ds"
  using assms
proof (induction ds arbitrary: n)
  case (Cons c cs)
  have "n \<le> base * n" using Cons.prems by (simp add: mult_le_cancel_right1)
  then have "n \<le> base * n + val c" using Cons.prems by simp
  moreover have "base * n + val c \<le> number_from base val (base * n + val c) cs"
    using Cons calculation by (intro Cons.IH) auto
  ultimately show ?case by simp
qed simp

lemma decimal_step:
  assumes "\<not> (ULLONG_MAX - 10) div 10 < (cl :: u64)" "0 \<le> v" "v \<le> 9"
  shows "uint (cl * 10 + word_of_int v) = uint cl * 10 + v"
proof -
  have m: "(ULLONG_MAX - 10) div 10 = (1844674407370955160 :: u64)" by (simp add: ULLONG_MAX_def)
  have c: "uint cl \<le> 1844674407370955160"
    using assms(1) unfolding m by (simp add: not_less word_le_def)
  have n: "0 \<le> uint cl * 10 + v" "uint cl * 10 + v < 2 ^ 64" using c assms(2,3) by simp_all
  have "cl * 10 + word_of_int v = word_of_int (uint cl * 10 + v)" by simp
  then show ?thesis using n by (simp only: uint_word_of_int_eq) (simp add: take_bit_int_eq_self)
qed

lemma decimal_limit: "(ULLONG_MAX - 10) div 10 < (cl :: u64) \<longleftrightarrow> 1844674407370955160 < uint cl"
  by (simp add: ULLONG_MAX_def word_less_def)

lemma hex_limit: "(ULLONG_MAX - 16) div 16 < (cl :: u64) \<longleftrightarrow> 1152921504606846974 < uint cl"
  by (simp add: ULLONG_MAX_def word_less_def)

lemma num_not_special: "IS_NUM c \<Longrightarrow> c \<noteq> CR \<and> c \<noteq> LF \<and> c \<noteq> SP"
  by (auto simp: IS_NUM_def char_le_def char_defs)

text \<open>The largest Content-Length that is accepted is \<open>2 ^ 64 - 7\<close>.\<close>

lemma content_length_loop:
  assumes "\<forall>c \<in> set d. IS_NUM c" "p x \<le> length d" "uint (content_length (parser x)) < 2 ^ 64 - 6"
    and "v = number_from 10 digit_value (uint (content_length (parser x))) (drop (p x) d)"
  shows "(v < 2 ^ 64 - 6 \<longrightarrow> header_value_loop st d start h_content_length x =
      header_value_end h_content_length start (int (length d)) (length d)
        (x\<lparr>parser := (parser x)\<lparr>content_length := word_of_int v\<rparr>, p := length d\<rparr>)) \<and>
    (\<not> v < 2 ^ 64 - 6 \<longrightarrow> (\<exists>n ps. header_value_loop st d start h_content_length x = Some (Return n ps) \<and>
      http_errno ps = HPE_INVALID_CONTENT_LENGTH))"
  using assms
proof (induction "length d - p x" arbitrary: x)
  case 0
  then have "p x = length d" by simp
  with 0 show ?case by (simp add: header_value_loop.simps [of st d start] header_value_end_def)
next
  case (Suc n)
  then have px: "p x < length d" by simp
  let ?c = "d ! p x" and ?cl = "content_length (parser x)"
  have c: "IS_NUM ?c" using Suc.prems(1) px by simp
  note dg = digit_le [OF c] and nsp = num_not_special [OF c]
  have dr: "drop (p x) d = ?c # drop (Suc (p x)) d" using px by (simp add: Cons_nth_drop_Suc)
  have v: "v = number_from 10 digit_value (10 * uint ?cl + digit_value ?c) (drop (Suc (p x)) d)"
    using Suc.prems(4) dr by simp
  have step: "header_value_loop st d start h_content_length x =
    (case header_value_byte st d start h_content_length x of
       Leave r \<Rightarrow> r | Stay hs x' \<Rightarrow> header_value_loop st d start hs x')"
    using px by (simp add: header_value_loop.simps [of st d start h_content_length x])
  show ?case
  proof (cases "(ULLONG_MAX - 10) div 10 < ?cl")
    case True
    then have big: "1844674407370955161 \<le> uint ?cl" by (simp add: decimal_limit)
    have "\<forall>c \<in> set (drop (Suc (p x)) d). 0 \<le> digit_value c"
      using Suc.prems(1) digit_le by (meson in_set_dropD)
    then have "10 * uint ?cl + digit_value ?c \<le> v"
      unfolding v using dg by (intro number_from_ge) auto
    with big dg have "\<not> v < 2 ^ 64 - 6" by simp
    moreover have "header_value_byte st d start h_content_length x = Leave (fail HPE_INVALID_CONTENT_LENGTH
        (upd (\<lambda>ps. ps\<lparr>header_state := h_content_length\<rparr>) x))"
      using True c nsp by (simp add: header_value_byte_def header_value_char_def Let_def)
    ultimately show ?thesis
      by (simp add: step fail_def fail_at_def Let_def RETURN_def SET_ERRNO_def upd_def)
  next
    case False
    let ?x = "x\<lparr>parser := (parser x)\<lparr>content_length := ?cl * 10 + word_of_int (digit_value ?c)\<rparr>, p := Suc (p x)\<rparr>"
    have byte: "header_value_byte st d start h_content_length x = Stay h_content_length ?x"
      using False c nsp by (simp add: header_value_byte_def header_value_char_def Let_def)
    have u: "uint (content_length (parser ?x)) = uint ?cl * 10 + digit_value ?c"
      using decimal_step [OF False] dg by simp
    have "uint ?cl \<le> 1844674407370955160" using False by (simp add: decimal_limit not_less)
    then have small: "uint (content_length (parser ?x)) < 2 ^ 64 - 6" using u dg by simp
    have v': "v = number_from 10 digit_value (uint (content_length (parser ?x))) (drop (p ?x) d)"
      using v u by (simp add: mult.commute)
    have "n = length d - p ?x" "p ?x \<le> length d" using Suc.hyps(2) px by simp_all
    from Suc.hyps(1) [OF this(1) Suc.prems(1) this(2) small v'] show ?thesis
      by (simp add: step byte)
  qed
qed

lemma exec_loop_end: "p y = length d \<Longrightarrow> exec_loop st d y = Some (Continue y)"
  by (simp add: exec_loop.simps [of st d y])

lemma nread_add:
  assumes "uint (n :: u32) + k \<le> HTTP_MAX_HEADER_SIZE" "0 \<le> k"
  shows "uint (n + word_of_int k) = uint n + k"
proof -
  have "n + word_of_int k = word_of_int (uint n + k)" by simp
  then show ?thesis using assms
    by (simp only: uint_word_of_int_eq) (simp add: take_bit_int_eq_self HTTP_MAX_HEADER_SIZE_def)
qed

text \<open>At the end of a buffer of digits the header's size is counted and the parser is returned as it is.\<close>

lemma content_length_finish:
  fixes ps :: "'a http_parser" and cl :: u64
  assumes ps: "state ps = s_header_value" "header_state ps = h_content_length" "http_errno ps = HPE_OK"
    and st: "on_header_value st = None" and d: "d \<noteq> []" "uint (nread ps) + 1 + int (length d) \<le> HTTP_MAX_HEADER_SIZE"
  defines "x \<equiv> exec_start ps"
    and "qs \<equiv> ps\<lparr>nread := nread ps + 1, content_length := cl\<rparr>"
  assumes byte: "exec_byte st d x = header_value_end h_content_length 0 (int (length d)) (length d) (x\<lparr>parser := qs, p := length d\<rparr>)"
  shows "http_parser_execute st ps d = Some (int (length d),
    qs\<lparr>header_state := h_content_length, nread := nread ps + 1 + word_of_int (int (length d)), state := s_header_value\<rparr>)"
proof -
  let ?ps3 = "qs\<lparr>header_state := h_content_length, nread := nread ps + 1 + word_of_int (int (length d))\<rparr>"
  let ?x3 = "x\<lparr>p := length d, parser := ?ps3\<rparr>"
  have x: "parser x = ps" "p_state x = s_header_value" "p x = 0" by (simp_all add: x_def ps)
  have n1: "uint (nread ps + 1) = uint (nread ps) + 1" using nread_add [of "nread ps" 1] d by simp
  have "uint (nread ps + 1 + word_of_int (int (length d))) = uint (nread ps) + 1 + int (length d)"
    using nread_add [of "nread ps + 1" "int (length d)"] d(2) n1 by simp
  then have b: "exec_byte st d x = Some (Continue ?x3)"
    using d(2) unfolding byte by (simp add: header_value_end_def COUNT_HEADER_SIZE_def Let_def upd_def qs_def)
  have "exec_loop st d x = exec_loop st d ?x3" using d(1) x b by (simp add: exec_loop.simps [of st d x])
  then have l: "exec_loop st d x = Some (Continue ?x3)" by (simp add: exec_loop_end)
  have marks: "header_field_mark x = None" "header_value_mark x = Some 0" "url_mark x = None"
    "body_mark x = None" "status_mark x = None"
    by (simp_all add: x_def exec_start_def ps is_url_state_def)
  have "exec_end st d ?x3 = Some (Return (int (length d)) (?ps3\<lparr>state := s_header_value\<rparr>))"
    using marks st ps x(2) by (simp add: exec_end_def Let_def count_mark_def cb_header_field_def qs_def
      cb_header_value_def cb_url_def cb_body_def cb_status_def CALLBACK_DATA_def and_then_def RETURN_def)
  then show ?thesis
    using ps d(1) l by (simp add: http_parser_execute_def x_def [symmetric] and_then_def step_result_def)
qed

text \<open>C23: The digits of a \<open>Content-Length\<close> value, in a buffer of their own: the length is
  the number they denote (after the digits read before) when it is below \<open>2 ^ 64 - 6\<close>; any larger
  number is rejected with \<open>HPE_INVALID_CONTENT_LENGTH\<close> and never wraps.\<close>

theorem content_length_run:
  assumes ps: "state ps = s_header_value" "header_state ps = h_content_length" "http_errno ps = HPE_OK"
    and cl: "uint (content_length ps) < 2 ^ 64 - 6"
    and st: "on_header_value st = None"
    and d: "d \<noteq> []" "\<forall>c \<in> set d. IS_NUM c" "uint (nread ps) + 1 + int (length d) \<le> HTTP_MAX_HEADER_SIZE"
    and v: "v = number_from 10 digit_value (uint (content_length ps)) d"
  shows "\<exists>n ps'. http_parser_execute st ps d = Some (n, ps') \<and>
    (if v < 2 ^ 64 - 6
     then n = int (length d) \<and> http_errno ps' = HPE_OK \<and> uint (content_length ps') = v
     else http_errno ps' = HPE_INVALID_CONTENT_LENGTH)"
proof -
  define x where "x = exec_start ps"
  let ?x1 = "x\<lparr>parser := ps\<lparr>nread := nread ps + 1\<rparr>\<rparr>"
  have x: "parser x = ps" "p_state x = s_header_value" "p x = 0" by (simp_all add: x_def ps)
  have len: "0 < length d" "p ?x1 \<le> length d" using d x by simp_all
  have n1: "uint (nread ps + 1) = uint (nread ps) + 1" using nread_add [of "nread ps" 1] d by simp
  have byte: "exec_byte st d x = header_value_loop st d 0 h_content_length ?x1"
    using x ps n1 d(3) len
    by (simp add: exec_byte_def PARSING_HEADER_def COUNT_HEADER_SIZE_def Let_def upd_def and_then_def
      exec_state_def step_header_value_def)
  have vx: "v = number_from 10 digit_value (uint (content_length (parser ?x1))) (drop (p ?x1) d)"
    using v x by simp
  have clx: "uint (content_length (parser ?x1)) < 2 ^ 64 - 6" using cl by simp
  note loop = content_length_loop [OF d(2) len(2) clx vx, of st 0, folded byte]
  show ?thesis
  proof (cases "v < 2 ^ 64 - 6")
    case False
    then obtain n ps' where "exec_byte st d x = Some (Return n ps')"
      "http_errno ps' = HPE_INVALID_CONTENT_LENGTH" using loop by blast
    then have "exec_loop st d x = Some (Return n ps')"
      using len(1) x by (simp add: exec_loop.simps [of st d x])
    then show ?thesis using False ps d \<open>http_errno ps' = _\<close>
      by (auto simp: http_parser_execute_def x_def [symmetric] and_then_def step_result_def)
  next
    case True
    have v0: "0 \<le> v"
      using number_from_ge [of 10 "uint (content_length ps)" d digit_value] v d(2) digit_le
      by (metis order_trans uint_ge_0 one_le_numeral)
    then have "uint (word_of_int v :: u64) = v"
      using True by (simp only: uint_word_of_int_eq) (simp add: take_bit_int_eq_self)
    then show ?thesis
      using content_length_finish [OF ps st d(1,3), of "word_of_int v"] loop True ps by (simp add: x_def)
  qed
qed

section \<open>Chunk sizes\<close>

lemma hex_step:
  assumes "\<not> (ULLONG_MAX - 16) div 16 < (cl :: u64)" "0 \<le> v" "v \<le> 15"
  shows "uint (cl * 16 + word_of_int v) = uint cl * 16 + v"
proof -
  have n: "0 \<le> uint cl * 16 + v" "uint cl * 16 + v < 2 ^ 64"
    using assms by (simp_all add: hex_limit not_less)
  have "cl * 16 + word_of_int v = word_of_int (uint cl * 16 + v)" by simp
  then show ?thesis using n by (simp only: uint_word_of_int_eq) (simp add: take_bit_int_eq_self)
qed

lemma hex_digit_range: "unhex_at c \<noteq> -1 \<Longrightarrow> 0 \<le> unhex_at c \<and> unhex_at c \<le> 15 \<and> c \<noteq> CR"
  using unhex_range [of c] by (auto simp: unhex_at_eq CR_def Let_def)

lemma hex_not_CR: "unhex_at c \<noteq> -1 \<Longrightarrow> c \<noteq> CR"
  by (simp add: hex_digit_range)

lemma chunk_size_byte:
  assumes "p_state x = s_chunk_size" "flag_set (parser x) F_CHUNKED" "unhex_at (d ! p x) \<noteq> -1"
    "uint (nread (parser x)) + 1 \<le> HTTP_MAX_HEADER_SIZE"
  shows "exec_byte st d x =
    (let ps = (parser x)\<lparr>nread := nread (parser x) + 1\<rparr>; cl = content_length ps
     in if (ULLONG_MAX - 16) div 16 < cl then fail HPE_INVALID_CONTENT_LENGTH (x\<lparr>parser := ps\<rparr>)
        else Some (Continue (x\<lparr>parser := ps\<lparr>content_length := cl * 16 + word_of_int (unhex_at (d ! p x))\<rparr>,
          p := Suc (p x)\<rparr>)))"
proof -
  have "uint (nread (parser x) + 1) = uint (nread (parser x)) + 1"
    using nread_add [OF assms(4)] by simp
  then show ?thesis
    using assms hex_not_CR [OF assms(3)]
    by (simp add: exec_byte_def PARSING_HEADER_def COUNT_HEADER_SIZE_def Let_def upd_def and_then_def
      exec_state_def step_chunk_size_def flag_set_def advance_def)
qed

lemma chunk_size_loop:
  assumes "p_state x = s_chunk_size" "flag_set (parser x) F_CHUNKED"
    and "\<forall>c \<in> set d. unhex_at c \<noteq> -1" "p x \<le> length d"
    and "uint (nread (parser x)) + int (length d - p x) \<le> HTTP_MAX_HEADER_SIZE"
    and "uint (content_length (parser x)) < 2 ^ 64 - 16"
    and "v = number_from 16 unhex_at (uint (content_length (parser x))) (drop (p x) d)"
  shows "if v < 2 ^ 64 - 16
    then exec_loop st d x = Some (Continue (x\<lparr>p := length d, parser :=
      (parser x)\<lparr>nread := nread (parser x) + word_of_int (int (length d - p x)),
        content_length := word_of_int v\<rparr>\<rparr>))
    else (\<exists>n ps. exec_loop st d x = Some (Return n ps) \<and> http_errno ps = HPE_INVALID_CONTENT_LENGTH)"
  using assms
proof (induction "length d - p x" arbitrary: x)
  case 0
  then have "p x = length d" by simp
  with 0 show ?case by (simp add: exec_loop_end)
next
  case (Suc n)
  then have px: "p x < length d" by simp
  let ?c = "d ! p x" and ?cl = "content_length (parser x)"
  have c: "unhex_at ?c \<noteq> -1" using Suc.prems(3) px by simp
  note dg = hex_digit_range [OF c]
  have dr: "drop (p x) d = ?c # drop (Suc (p x)) d" using px by (simp add: Cons_nth_drop_Suc)
  have v: "v = number_from 16 unhex_at (16 * uint ?cl + unhex_at ?c) (drop (Suc (p x)) d)"
    using Suc.prems(7) dr by simp
  have n: "uint (nread (parser x)) + 1 \<le> HTTP_MAX_HEADER_SIZE"
    "uint (nread (parser x)) + 1 + int (length d - Suc (p x)) \<le> HTTP_MAX_HEADER_SIZE"
    using Suc.prems(5) px by (simp_all add: of_nat_diff)
  note byte = chunk_size_byte [OF Suc.prems(1,2) c n(1), of st]
  show ?case
  proof (cases "(ULLONG_MAX - 16) div 16 < ?cl")
    case True
    have "\<forall>c \<in> set (drop (Suc (p x)) d). 0 \<le> unhex_at c"
      using Suc.prems(3) hex_digit_range by (meson in_set_dropD)
    then have "16 * uint ?cl + unhex_at ?c \<le> v"
      unfolding v using dg by (intro number_from_ge) auto
    moreover have "1152921504606846975 \<le> uint ?cl" using True by (simp add: hex_limit)
    ultimately have "\<not> v < 2 ^ 64 - 16" using dg by simp
    then show ?thesis using True px
      by (simp add: exec_loop.simps [of st d x] byte Let_def fail_def fail_at_def RETURN_def SET_ERRNO_def)
  next
    case False
    let ?ps = "(parser x)\<lparr>nread := nread (parser x) + 1,
      content_length := ?cl * 16 + word_of_int (unhex_at ?c)\<rparr>"
    let ?x = "x\<lparr>parser := ?ps, p := Suc (p x)\<rparr>"
    have u: "uint (content_length (parser ?x)) = uint ?cl * 16 + unhex_at ?c"
      using hex_step [OF False] dg by simp
    have "uint ?cl \<le> 1152921504606846974" using False by (simp add: hex_limit not_less)
    then have small: "uint (content_length (parser ?x)) < 2 ^ 64 - 16" using u dg by simp
    have u1: "uint (nread (parser ?x)) = uint (nread (parser x)) + 1"
      using nread_add [OF n(1)] by simp
    have nr: "uint (nread (parser ?x)) + int (length d - p ?x) \<le> HTTP_MAX_HEADER_SIZE"
      using n(2) u1 by simp
    have v': "v = number_from 16 unhex_at (uint (content_length (parser ?x))) (drop (p ?x) d)"
      using v u by (simp add: mult.commute)
    have fl: "p_state ?x = s_chunk_size" "flag_set (parser ?x) F_CHUNKED" "n = length d - p ?x" "p ?x \<le> length d"
      using Suc.prems(1,2) Suc.hyps(2) px by (simp_all add: flag_set_def)
    have e: "exec_loop st d x = exec_loop st d ?x"
      using px False byte by (simp add: exec_loop.simps [of st d x] Let_def)
    have k: "nread (parser x) + 1 + word_of_int (int (length d - Suc (p x))) =
      nread (parser x) + word_of_int (int (length d - p x))"
      using px by (simp add: of_nat_diff)
    show ?thesis
      using Suc.hyps(1) [OF fl(3) fl(1,2) Suc.prems(3) fl(4) nr small v'] k by (simp add: e)
  qed
qed


lemma content_length_run_witness:
  "\<exists>n ps'. http_parser_execute no_callbacks
     ((fresh_parser HTTP_RESPONSE)\<lparr>state := s_header_value, header_state := h_content_length\<rparr>) ''123'' = Some (n, ps') \<and>
    n = 3 \<and> http_errno ps' = HPE_OK \<and> uint (content_length ps') = 123"
  using content_length_run [of "(fresh_parser HTTP_RESPONSE)\<lparr>state := s_header_value, header_state := h_content_length\<rparr>"
    no_callbacks "''123''" 123]
  by (simp add: fresh_parser_def http_parser_init_def no_callbacks_def IS_NUM_def char_le_def digit_value_def
    HTTP_MAX_HEADER_SIZE_def)


end
