(* ===== verification/Http_Props.thy ===== *)
theory Http_Props
  imports Http_Numbers
begin

text \<open>
  The properties of the HTTP parser: it is total and safe on every input, it reads the
  numbers of a message exactly, it hands a body over unchanged whatever buffers it comes
  in, and where its tables and flags depart from what the code means.
\<close>

section \<open>Bodies\<close>

lemma cb_simps:
  assumes "http_errno (parser x) = HPE_OK"
  shows "body_mark x = None \<Longrightarrow> cb_body st d stop er x = Some (Continue x)"
    "header_field_mark x = None \<Longrightarrow> cb_header_field st d stop er x = Some (Continue x)"
    "header_value_mark x = None \<Longrightarrow> cb_header_value st d stop er x = Some (Continue x)"
    "url_mark x = None \<Longrightarrow> cb_url st d stop er x = Some (Continue x)"
    "status_mark x = None \<Longrightarrow> cb_status st d stop er x = Some (Continue x)"
  using assms by (simp_all add: cb_body_def cb_header_field_def cb_header_value_def cb_url_def
    cb_status_def CALLBACK_DATA_def)

lemma exec_loop_step:
  "exec_byte st d x = Some (Continue y) \<Longrightarrow> p x \<noteq> length d \<Longrightarrow> exec_loop st d x = exec_loop st d y"
  by (simp add: exec_loop.simps [of st d x])

lemma slice_all: "slice d 0 (length d) = d"
  by (simp add: slice_def)

lemma body_part:
  assumes ps: "state ps = s_body_identity" "http_errno ps = HPE_OK" "content_length ps \<noteq> ULLONG_MAX"
    and d: "d \<noteq> []" "length d < unat (content_length ps)"
    and f: "on_body st = Some f"
    and f': "f (ps\<lparr>content_length := content_length ps - of_nat (length d), state := s_body_identity\<rparr>) d = (0, ps')" "http_errno ps' = HPE_OK"
  shows "http_parser_execute st ps d = Some (int (length d), ps')"
proof -
  let ?n = "length d" and ?cl = "content_length ps"
  define x where "x = exec_start ps"
  have x: "x = \<lparr>parser = ps, p_state = s_body_identity, p = 0, header_field_mark = None,
    header_value_mark = None, url_mark = None, body_mark = None, status_mark = None\<rparr>"
    by (simp add: x_def exec_start_def ps is_url_state_def)
  have un: "unat (of_nat ?n :: u64) = ?n"
  proof -
    have "unat ?cl < 2 ^ LENGTH(64)" by (rule unsigned_less)
    then show ?thesis using d(2) by (simp add: unat_of_nat take_bit_nat_eq_self)
  qed
  have lt: "(of_nat ?n :: u64) < ?cl" using d(2) un by (simp add: word_less_nat_alt)
  have tr: "body_to_read d x = of_nat ?n"
    using lt by (auto simp: body_to_read_def x min_def)
  have nz: "?cl - of_nat ?n \<noteq> 0" "?cl \<noteq> 0" using lt by auto
  let ?x = "x\<lparr>body_mark := Some 0, p := ?n, parser := ps\<lparr>content_length := ?cl - of_nat ?n\<rparr>\<rparr>"
  have "exec_byte st d x = step_body st d (d ! 0) x"
    by (simp add: x exec_byte_def PARSING_HEADER_def exec_state_def)
  also have "\<dots> = Some (Continue ?x)"
    unfolding step_body_def tr using ps nz un by (simp add: Let_def upd_def MARK_def x)
  finally have "exec_byte st d x = Some (Continue ?x)" .
  then have "exec_loop st d x = Some (Continue ?x)"
    using d(1) exec_loop_step [of st d x ?x] exec_loop_end [of ?x] by (simp add: x)
  moreover have "exec_end st d ?x = Some (Return (int ?n) ps')"
    using ps f f' by (simp add: exec_end_def Let_def count_mark_def cb_simps x)
      (simp add: and_then_def cb_body_def CALLBACK_DATA_def slice_all cb_simps RETURN_def)
  ultimately show ?thesis
    using ps(2) d(1) by (simp add: http_parser_execute_def x_def [symmetric] and_then_def step_result_def)
qed

lemma body_last:
  assumes ps: "state ps = s_body_identity" "http_errno ps = HPE_OK" "content_length ps \<noteq> ULLONG_MAX"
    and d: "d \<noteq> []" "length d = unat (content_length ps)"
    and f: "on_body st = Some f" "on_message_complete st = Some g"
    and f': "f (ps\<lparr>content_length := 0, state := s_message_done\<rparr>) d = (0, ps1)" "http_errno ps1 = HPE_OK"
      "state ps1 = s_message_done"
    and g: "g (ps1\<lparr>state := NEW_MESSAGE ps1\<rparr>) = (0, ps2)" "http_errno ps2 = HPE_OK"
  shows "http_parser_execute st ps d = Some (int (length d), ps2)"
proof -
  let ?n = "length d" and ?cl = "content_length ps"
  define x where "x = exec_start ps"
  have x: "x = \<lparr>parser = ps, p_state = s_body_identity, p = 0, header_field_mark = None,
    header_value_mark = None, url_mark = None, body_mark = None, status_mark = None\<rparr>"
    by (simp add: x_def exec_start_def ps is_url_state_def)
  have un: "of_nat ?n = ?cl" using d(2) by simp
  have tr: "body_to_read d x = ?cl" using un by (simp add: body_to_read_def x)
  have nz: "?cl \<noteq> 0" using d by auto
  let ?x1 = "x\<lparr>body_mark := None, p := ?n - 1, p_state := s_message_done, parser := ps1\<rparr>"
  let ?x2 = "?x1\<lparr>parser := ps2, p_state := state ps2, p := ?n\<rparr>"
  have "exec_byte st d x = Some (Continue ?x1)"
  proof -
    have "exec_byte st d x = step_body st d (d ! 0) x"
      by (simp add: x exec_byte_def PARSING_HEADER_def exec_state_def)
    also have "\<dots> = and_then (cb_body st d ?n (int ?n - 1) (x\<lparr>body_mark := Some 0, p := ?n - 1,
        p_state := s_message_done, parser := ps\<lparr>content_length := 0\<rparr>\<rparr>)) reexecute"
      unfolding step_body_def tr using ps nz d(2)
      by (simp add: Let_def upd_def MARK_def UPDATE_STATE_def x)
    finally show ?thesis using f f' ps
      by (simp add: x and_then_def reexecute_def cb_body_def CALLBACK_DATA_def slice_all)
  qed
  moreover have "exec_byte st d ?x1 = Some (Continue ?x2)"
    using f f' g d(1)
    by (simp add: exec_byte_def PARSING_HEADER_def exec_state_def step_body_def Let_def UPDATE_STATE_def
      and_then_def cb_message_complete_def CALLBACK_NOTIFY_def advance_def)
  moreover have "length d - 1 \<noteq> length d" using d(1) by (cases d) auto
  ultimately have "exec_loop st d x = Some (Continue ?x2)"
    using d(1) exec_loop_step [of st d x ?x1] exec_loop_step [of st d ?x1 ?x2] exec_loop_end [of ?x2]
    by (simp add: x)
  moreover have "exec_end st d ?x2 = Some (Return (int ?n) ps2)"
    using ps g by (simp add: exec_end_def Let_def count_mark_def cb_simps x and_then_def RETURN_def)
  ultimately show ?thesis
    using ps(2) d(1) by (simp add: http_parser_execute_def x_def [symmetric] and_then_def step_result_def)
qed

text \<open>
  A body that arrives in any pieces: \<open>on_body\<close> sees the pieces in order, then
  \<open>on_message_complete\<close> is called once. The callbacks here change the user data only.
\<close>

lemma NEW_MESSAGE_frame:
  "NEW_MESSAGE (ps\<lparr>data := u\<rparr>) = NEW_MESSAGE ps"
  "NEW_MESSAGE (ps\<lparr>state := s\<rparr>) = NEW_MESSAGE ps"
  "NEW_MESSAGE (ps\<lparr>data := u, content_length := c\<rparr>) = NEW_MESSAGE (ps\<lparr>content_length := c\<rparr>)"
  by (simp_all add: NEW_MESSAGE_def start_state_def http_should_keep_alive_def http_message_needs_eof_def
    flag_set_def)

text \<open>C11: A body of known length that arrives in any non-empty pieces, each in a call of its own:
  \<open>on_body\<close> is given exactly the pieces, in order, then \<open>on_message_complete\<close> is called once;
  every byte is consumed and the parser is ready for the next message (\<open>NEW_MESSAGE\<close>).\<close>

theorem body_reassembled:
  assumes "state ps = s_body_identity" "http_errno ps = HPE_OK" "content_length ps \<noteq> ULLONG_MAX"
    and "on_body st = Some (\<lambda>ps c. (0, ps\<lparr>data := f (data ps) c\<rparr>))"
    and "on_message_complete st = Some (\<lambda>ps. (0, ps\<lparr>data := g (data ps)\<rparr>))"
    and "ds \<noteq> []" "\<forall>d \<in> set ds. d \<noteq> []" "length (concat ds) = unat (content_length ps)"
  shows "feed st ps ds = Some (map (\<lambda>d. int (length d)) ds,
    ps\<lparr>content_length := 0, data := g (foldl f (data ps) ds), state := NEW_MESSAGE (ps\<lparr>content_length := 0\<rparr>)\<rparr>)"
  using assms
proof (induction ds arbitrary: ps)
  case (Cons d ds)
  show ?case
  proof (cases "ds = []")
    case True
    then show ?thesis
      using body_last [OF Cons.prems(1-3), of d st] Cons.prems
      by (simp add: NEW_MESSAGE_frame)
  next
    case False
    then have lt: "length d < unat (content_length ps)"
    proof -
      obtain d' ds' where "ds = d' # ds'" using False by (cases ds) auto
      moreover have "Suc 0 \<le> length d'" using Cons.prems(7) calculation by (simp add: Suc_le_eq)
      ultimately show ?thesis using Cons.prems(8) by (simp del: length_greater_0_conv)
    qed
    let ?ps = "ps\<lparr>content_length := content_length ps - of_nat (length d), data := f (data ps) d\<rparr>"
    have un: "unat (of_nat (length d) :: u64) = length d"
    proof -
      have "unat (content_length ps) < 2 ^ LENGTH(64)" by (rule unsigned_less)
      then show ?thesis using lt by (simp add: unat_of_nat take_bit_nat_eq_self)
    qed
    have e: "http_parser_execute st ps d = Some (int (length d), ?ps)"
      using body_part [OF Cons.prems(1-3) _ lt, of st] Cons.prems by simp
    have le: "(of_nat (length d) :: u64) \<le> content_length ps"
      using lt un by (simp add: word_le_nat_alt)
    have u: "unat (content_length ?ps) = unat (content_length ps) - length d"
      using un le by (simp add: unat_sub)
    have "unat (content_length ?ps) < unat (content_length ps)" using u lt Cons.prems(7) by simp
    then have nz: "content_length ?ps \<noteq> ULLONG_MAX"
      using unsigned_greater_eq
      by (metis ULLONG_MAX_def not_less word_less_nat_alt word_order.extremum)
    have "feed st ?ps ds = Some (map (\<lambda>d. int (length d)) ds,
      ?ps\<lparr>content_length := 0, data := g (foldl f (data ?ps) ds), state := NEW_MESSAGE (?ps\<lparr>content_length := 0\<rparr>)\<rparr>)"
      by (rule Cons.IH) (use Cons.prems False nz u in auto)
    then show ?thesis using e Cons.prems by (simp add: NEW_MESSAGE_frame)
  qed
qed simp


definition body_log :: "(string list \<times> nat) http_parser_settings" where
  "body_log = \<lparr>on_message_begin = None, on_url = None, on_status = None, on_header_field = None,
     on_header_value = None, on_headers_complete = None,
     on_body = Some (\<lambda>ps c. (0, ps\<lparr>data := (fst (data ps) @ [c], snd (data ps))\<rparr>)),
     on_message_complete = Some (\<lambda>ps. (0, ps\<lparr>data := (fst (data ps), snd (data ps) + 1)\<rparr>))\<rparr>"

definition body_parser :: "u64 \<Rightarrow> (string list \<times> nat) http_parser" where
  "body_parser n = (http_parser_init
     \<lparr>parser_type = HTTP_RESPONSE, flags = 0, state = s_dead, header_state = h_general, index = 0, nread = 0,
      content_length = 0, http_major = 0, http_minor = 0, status_code = 0, method = HTTP_DELETE,
      http_errno = HPE_OK, upgrade = False, data = ([], 0)\<rparr> HTTP_RESPONSE)
     \<lparr>state := s_body_identity, content_length := n, http_major := 1, http_minor := 1\<rparr>"

lemma body_reassembled_witness:
  "feed body_log (body_parser 5) [''he'', ''l'', ''lo''] =
     Some ([2, 1, 2], (body_parser 5)\<lparr>content_length := 0, data := ([''he'', ''l'', ''lo''], 1), state := s_start_res\<rparr>)"
proof -
  have n: "NEW_MESSAGE ((body_parser 5)\<lparr>content_length := 0\<rparr>) = s_start_res"
    by code_simp
  show ?thesis
    using body_reassembled [where st = body_log and ps = "body_parser 5"
      and ds = "[''he'', ''l'', ''lo'']" and f = "\<lambda>u c. (fst u @ [c], snd u)" and g = "\<lambda>u. (fst u, snd u + 1)"]
    by (simp add: n) (simp add: body_parser_def body_log_def http_parser_init_def ULLONG_MAX_def)
qed

section \<open>Totality\<close>

text \<open>C4: \<open>http_parser_execute\<close> returns on every input: no assertion fails and no loop runs
  forever, from any parser within the invariant and with any callbacks within their contract. It
  reports between 0 and \<open>len\<close> consumed bytes (1 for the end of the stream at a wrong place) and
  leaves the parser within the invariant.\<close>

theorem execute_total:
  assumes "callbacks_ok st" "parser_ok ps" "length d < 2 ^ 64"
  shows "\<exists>n ps'. http_parser_execute st ps d = Some (n, ps') \<and> 0 \<le> n \<and> n \<le> max 1 (int (length d)) \<and>
    (d \<noteq> [] \<longrightarrow> n \<le> int (length d)) \<and> parser_ok ps'"
  using execute_ok [OF assms] .

lemma execute_total_witness:
  "\<exists>n ps'. http_parser_execute no_callbacks (fresh_parser HTTP_REQUEST) ''GET / HTTP/1.1'' = Some (n, ps') \<and>
    0 \<le> n \<and> n \<le> 14 \<and> parser_ok ps'"
  using execute_total [OF no_callbacks_ok fresh_ok, of "''GET / HTTP/1.1''" HTTP_REQUEST] by auto

lemma feed_keeps:
  assumes "callbacks_ok st" "parser_ok ps" "\<forall>d \<in> set ds. length d < 2 ^ 64" "feed st ps ds = Some (ns, ps')"
  shows "parser_ok ps'"
  using http_client.feed_ok [OF http_client.intro [OF assms(1)] assms(2,3)] assms(4) by auto

section \<open>Bounds and errors\<close>

text \<open>C25: Over any buffers, a parser that has no error has counted at most 80 KiB of header, and
  its version numbers and status code have at most three digits.\<close>

theorem header_bounds:
  assumes "callbacks_ok st" "parser_ok ps" "\<forall>d \<in> set ds. length d < 2 ^ 64"
    and "feed st ps ds = Some (ns, ps')" "http_errno ps' = HPE_OK"
  shows "uint (nread ps') \<le> 80 * 1024 \<and> http_major ps' \<le> 999 \<and> http_minor ps' \<le> 999 \<and> status_code ps' \<le> 999"
  using feed_keeps [OF assms(1-4)] assms(5)
  by (simp add: parser_ok_def live_errno_def limits_ok_def HTTP_MAX_HEADER_SIZE_def)

lemma header_bounds_witness:
  "\<exists>ns ps'. feed no_callbacks (fresh_parser HTTP_RESPONSE) [''HTTP/1.1 20'', [CHR ''4'', CR, LF]] = Some (ns, ps') \<and>
    status_code ps' = 204 \<and> uint (nread ps') \<le> 80 * 1024"
proof -
  let ?ds = "[''HTTP/1.1 20'', [CHR ''4'', CR, LF]]"
  have "map_option (\<lambda>(ns, ps). (status_code ps, http_errno ps)) (feed no_callbacks (fresh_parser HTTP_RESPONSE) ?ds)
    = Some (204, HPE_OK)" by code_simp
  then obtain ns ps' where r: "feed no_callbacks (fresh_parser HTTP_RESPONSE) ?ds = Some (ns, ps')"
    "status_code ps' = 204" "http_errno ps' = HPE_OK" by (auto simp del: feed.simps)
  have "\<forall>d \<in> set ?ds. length d < 2 ^ 64" by simp
  from header_bounds [OF no_callbacks_ok fresh_ok this r(1,3)] r(1,2) show ?thesis by blast
qed

lemma feed_stopped: "http_errno ps \<noteq> HPE_OK \<Longrightarrow> feed st ps ds = Some (replicate (length ds) 0, ps)"
  by (induction ds) (simp_all add: http_parser_execute_def)

text \<open>A parser that is paused consumes nothing of any buffers and does not change; resumed, it
  is what it was before.\<close>

theorem pause_resume:
  assumes "http_errno ps = HPE_OK"
  shows "\<exists>ps1. http_parser_pause ps 1 = Some ps1 \<and> feed st ps1 ds = Some (replicate (length ds) 0, ps1) \<and>
    http_parser_pause ps1 0 = Some ps"
  using assms by (simp add: http_parser_pause_def feed_stopped)

lemma pause_resume_witness:
  "\<exists>ps1. http_parser_pause (fresh_parser HTTP_RESPONSE) 1 = Some ps1 \<and>
    feed no_callbacks ps1 [''HTTP''] = Some ([0], ps1) \<and>
    http_parser_pause ps1 0 = Some (fresh_parser HTTP_RESPONSE)"
  using pause_resume [of "fresh_parser HTTP_RESPONSE" no_callbacks "[''HTTP'']"]
  by (simp add: fresh_parser_def http_parser_init_def)

text \<open>The flag \<open>F_SKIPBODY\<close> (1 << 6) does not fit the six bits of \<open>flags\<close>: setting it when
  \<open>on_headers_complete\<close> returns 1 changes nothing, and no parser ever has it.\<close>

theorem skip_body_lost:
  "set_flag F_SKIPBODY ps = ps \<and> \<not> flag_set ps F_SKIPBODY"
proof -
  have "uint (flags ps) AND F_SKIPBODY = 0"
    unfolding F_SKIPBODY_def by (rule bit_eqI, unfold bit_and_iff bit_push_bit_iff bit_uint_iff) simp
  moreover have "(word_of_int F_SKIPBODY :: 6 word) = 0"
    by (simp add: F_SKIPBODY_def)
  then have "set_flag F_SKIPBODY ps = ps"
    by (simp add: set_flag_def of_int_or_eq)
  ultimately show ?thesis by (simp add: flag_set_def)
qed

definition head_callbacks :: "unit http_parser_settings" where
  "head_callbacks = no_callbacks\<lparr>on_headers_complete := Some (\<lambda>ps. (1, ps))\<rparr>"

lemma skip_body_waits:
  "map_option (\<lambda>(n, ps). (http_errno ps, state ps, uint (content_length ps)))
     (http_parser_execute head_callbacks (fresh_parser HTTP_RESPONSE)
        (''HTTP/1.1 200 OK'' @ [CR, LF] @ ''Content-Length: 5'' @ [CR, LF, CR, LF]))
   = Some (HPE_OK, s_body_identity, 5)"
  by code_simp

text \<open>C40: The tables are the classes they encode: \<open>tokens\<close> the token characters of RFC 2616 in
  lower case, \<open>normal_url_char\<close> the visible ASCII characters other than \<open>#\<close> and \<open>?\<close>, and
  \<open>unhex\<close> the value of a hexadecimal digit and -1 for any other ASCII byte; but 0 for every byte from 128
  on, which the initialiser of \<open>unhex[256]\<close> does not list.\<close>

theorem character_tables:
  "TOKEN c = char_of (rfc_token (of_char c)) \<and>
   IS_URL_CHAR c = (let n = of_char c :: nat in 33 \<le> n \<and> n \<le> 126 \<and> n \<noteq> 35 \<and> n \<noteq> 63) \<and>
   unhex_at c = (let n = of_char c :: nat in
     if 128 \<le> n then 0
     else if 48 \<le> n \<and> n \<le> 57 then int n - 48
     else if 65 \<le> n \<and> n \<le> 70 then int n - 55
     else if 97 \<le> n \<and> n \<le> 102 then int n - 87 else -1)"
  using TOKEN_rfc url_char_eq unhex_at_eq by blast

end
