(* ===== verification/Hdr_Histogram.thy ===== *)
theory Hdr_Histogram
  imports Prelude
begin

text \<open>
  The histogram of \<open>wrk2/src/hdr_histogram.c\<close>: its record, the arithmetic that maps a
  value to a slot of the \<open>counts\<close> array and back, initialisation, reset and recording.
\<close>

section \<open>The structure\<close>

record hdr_histogram =
  lowest_trackable_value :: int
  highest_trackable_value :: int
  unit_magnitude :: int
  significant_figures :: int
  sub_bucket_half_count_magnitude :: int
  sub_bucket_half_count :: int
  sub_bucket_mask :: int
  sub_bucket_count :: int
  bucket_count :: int
  counts_len :: int
  total_count :: int
  counts :: "int list"

section \<open>Index arithmetic\<close>

definition get_bucket_index :: "hdr_histogram \<Rightarrow> int \<Rightarrow> int" where
  "get_bucket_index h value =
     (let pow2ceiling = 64 - builtin_clzll (value OR sub_bucket_mask h)
      in as_int32 (pow2ceiling - unit_magnitude h - (sub_bucket_half_count_magnitude h + 1)))"

definition get_sub_bucket_index :: "int \<Rightarrow> int \<Rightarrow> int \<Rightarrow> int" where
  "get_sub_bucket_index value bucket_index unit_mag =
     as_int32 (drop_bit (nat (bucket_index + unit_mag)) value)"

definition counts_index :: "hdr_histogram \<Rightarrow> int \<Rightarrow> int \<Rightarrow> int option" where
  "counts_index h bucket_index sub_bucket_index = do {
     c_assert (bucket_index < bucket_count h);
     c_assert (sub_bucket_index < sub_bucket_count h);
     c_assert (bucket_index = 0 \<or> sub_bucket_half_count h \<le> sub_bucket_index);
     let bucket_base_index =
       as_int32 (push_bit (nat (sub_bucket_half_count_magnitude h)) (bucket_index + 1));
     let offset_in_bucket = sub_bucket_index - sub_bucket_half_count h;
     Some (bucket_base_index + offset_in_bucket)
   }"

definition counts_index_for :: "hdr_histogram \<Rightarrow> int \<Rightarrow> int option" where
  "counts_index_for h value =
     (let bucket_index = get_bucket_index h value;
          sub_bucket_index = get_sub_bucket_index value bucket_index (unit_magnitude h)
      in counts_index h bucket_index sub_bucket_index)"

definition value_from_index :: "int \<Rightarrow> int \<Rightarrow> int \<Rightarrow> int" where
  "value_from_index bucket_index sub_bucket_index unit_mag =
     push_bit (nat (bucket_index + unit_mag)) sub_bucket_index"

definition get_count_at_index :: "hdr_histogram \<Rightarrow> int \<Rightarrow> int \<Rightarrow> int option" where
  "get_count_at_index h bucket_index sub_bucket_index = do {
     i \<leftarrow> counts_index h bucket_index sub_bucket_index;
     array_get (counts h) i
   }"

text \<open>The shift \<open>1 << n\<close> of the source is a shift of a 32-bit \<open>int\<close>.\<close>

definition size_of_equivalent_value_range :: "hdr_histogram \<Rightarrow> int \<Rightarrow> int" where
  "size_of_equivalent_value_range h value =
     (let bucket_index = get_bucket_index h value;
          sub_bucket_index = get_sub_bucket_index value bucket_index (unit_magnitude h);
          adjusted_bucket =
            (if sub_bucket_count h \<le> sub_bucket_index then bucket_index + 1 else bucket_index)
      in as_int32 (push_bit (nat (unit_magnitude h + adjusted_bucket)) 1))"

definition lowest_equivalent_value :: "hdr_histogram \<Rightarrow> int \<Rightarrow> int" where
  "lowest_equivalent_value h value =
     (let bucket_index = get_bucket_index h value;
          sub_bucket_index = get_sub_bucket_index value bucket_index (unit_magnitude h)
      in value_from_index bucket_index sub_bucket_index (unit_magnitude h))"

definition next_non_equivalent_value :: "hdr_histogram \<Rightarrow> int \<Rightarrow> int" where
  "next_non_equivalent_value h value =
     lowest_equivalent_value h value + size_of_equivalent_value_range h value"

definition highest_equivalent_value :: "hdr_histogram \<Rightarrow> int \<Rightarrow> int" where
  "highest_equivalent_value h value = next_non_equivalent_value h value - 1"

definition median_equivalent_value :: "hdr_histogram \<Rightarrow> int \<Rightarrow> int" where
  "median_equivalent_value h value =
     lowest_equivalent_value h value + drop_bit 1 (size_of_equivalent_value_range h value)"

section \<open>Memory\<close>

datatype hdr_error = EINVAL | ENOMEM

text \<open>\<open>power\<close> accumulates in a 32-bit \<open>int\<close>; it counts \<open>exp\<close> down to zero.\<close>

partial_function (option) power_loop :: "int \<Rightarrow> int \<Rightarrow> int \<Rightarrow> int option" where
  "power_loop base expo result =
     (if expo = 0 then Some result
      else power_loop base (expo - 1) (as_int32 (result * base)))"

declare power_loop.simps [code]

definition power :: "int \<Rightarrow> int \<Rightarrow> int option" where
  "power base expo = power_loop base expo 1"

text \<open>
  The two \<open>libm\<close> expressions of \<open>hdr_init\<close>, \<open>ceil(log(x) / log(2))\<close> and
  \<open>floor(log(x) / log(2))\<close>, are the exact logarithms of a positive argument.
\<close>

definition ceil_log2 :: "int \<Rightarrow> int" where
  "ceil_log2 x = int (bit_width (nat (x - 1)))"

definition floor_log2 :: "int \<Rightarrow> int" where
  "floor_log2 x = int (bit_width (nat x)) - 1"

partial_function (option) buckets_needed_loop :: "int \<Rightarrow> int \<Rightarrow> int \<Rightarrow> int option" where
  "buckets_needed_loop trackable_value highest buckets_needed =
     (if trackable_value < highest
      then buckets_needed_loop (as_int64 (push_bit 1 trackable_value)) highest (buckets_needed + 1)
      else Some buckets_needed)"

declare buckets_needed_loop.simps [code]

text \<open>
  \<open>malloc_ok\<close> says whether \<open>malloc\<close> returns memory. The logarithm of a
  \<open>lowest\<close> below 1 is not a number an \<open>int32_t\<close> holds: that call has no result.
\<close>

definition hdr_init :: "bool \<Rightarrow> int \<Rightarrow> int \<Rightarrow> int \<Rightarrow> (hdr_error + hdr_histogram) option" where
  "hdr_init malloc_ok lowest highest figures =
     (if figures < 1 \<or> 5 < figures then Some (Inl EINVAL)
      else do {
        p \<leftarrow> power 10 figures;
        let largest_value_with_single_unit_resolution = 2 * p;
        let sub_bucket_count_magnitude = ceil_log2 largest_value_with_single_unit_resolution;
        let half_magnitude =
          (if 1 < sub_bucket_count_magnitude then sub_bucket_count_magnitude else 1) - 1;
        c_assert (1 \<le> lowest);
        let unit_mag = floor_log2 lowest;
        let sb_count = as_int32 (2 ^ nat (half_magnitude + 1));
        let sb_half_count = sb_count div 2;
        let sb_mask = as_int32 (push_bit (nat unit_mag) (sb_count - 1));
        buckets_needed \<leftarrow> buckets_needed_loop sb_mask highest 1;
        let len = as_int32 ((buckets_needed + 1) * (sb_count div 2));
        if \<not> malloc_ok then Some (Inl ENOMEM)
        else Some (Inr
          \<lparr>lowest_trackable_value = lowest, highest_trackable_value = highest,
           unit_magnitude = unit_mag, significant_figures = figures,
           sub_bucket_half_count_magnitude = half_magnitude,
           sub_bucket_half_count = sb_half_count, sub_bucket_mask = sb_mask,
           sub_bucket_count = sb_count, bucket_count = buckets_needed, counts_len = len,
           total_count = 0, counts = replicate (nat len) 0\<rparr>)
      })"

definition hdr_alloc :: "bool \<Rightarrow> int \<Rightarrow> int \<Rightarrow> (hdr_error + hdr_histogram) option" where
  "hdr_alloc malloc_ok highest figures = hdr_init malloc_ok 1 highest figures"

definition hdr_reset :: "hdr_histogram \<Rightarrow> hdr_histogram" where
  "hdr_reset h = h\<lparr>total_count := 0, counts := replicate (nat (counts_len h)) 0\<rparr>"

text \<open>\<open>sizeof(struct hdr_histogram)\<close> is 72 with the 64-bit layout of the structure.\<close>

definition hdr_get_memory_size :: "hdr_histogram \<Rightarrow> int" where
  "hdr_get_memory_size h = 72 + counts_len h * 8"

section \<open>Updates\<close>

definition hdr_record_values :: "hdr_histogram \<Rightarrow> int \<Rightarrow> int \<Rightarrow> (bool \<times> hdr_histogram) option" where
  "hdr_record_values h value count = do {
     i \<leftarrow> counts_index_for h value;
     if i < 0 \<or> counts_len h \<le> i then Some (False, h)
     else do {
       c \<leftarrow> array_get (counts h) i;
       Some (True, h\<lparr>counts := (counts h)[nat i := c + count],
                     total_count := total_count h + count\<rparr>)
     }
   }"

definition hdr_record_value :: "hdr_histogram \<Rightarrow> int \<Rightarrow> (bool \<times> hdr_histogram) option" where
  "hdr_record_value h value = do {
     i \<leftarrow> counts_index_for h value;
     if i < 0 \<or> counts_len h \<le> i then Some (False, h)
     else do {
       c \<leftarrow> array_get (counts h) i;
       Some (True, h\<lparr>counts := (counts h)[nat i := c + 1],
                     total_count := total_count h + 1\<rparr>)
     }
   }"

text \<open>The \<open>for\<close> loop of \<open>hdr_record_corrected_value\<close>, entered with a positive interval.\<close>

function record_missing ::
  "hdr_histogram \<Rightarrow> int \<Rightarrow> int \<Rightarrow> (bool \<times> hdr_histogram) option" where
  "record_missing h missing_value expected_interval =
     (if expected_interval \<le> missing_value \<and> 0 < expected_interval
      then (case hdr_record_value h missing_value of
              None \<Rightarrow> None
            | Some (ok, h') \<Rightarrow>
                if \<not> ok then Some (False, h')
                else record_missing h' (missing_value - expected_interval) expected_interval)
      else Some (True, h))"
  by pat_completeness auto
termination
  by (relation "measure (\<lambda>(h, missing_value, expected_interval). nat missing_value)") auto

declare record_missing.simps [simp del]

definition hdr_record_corrected_value ::
  "hdr_histogram \<Rightarrow> int \<Rightarrow> int \<Rightarrow> (bool \<times> hdr_histogram) option" where
  "hdr_record_corrected_value h value expected_interval =
     (case hdr_record_value h value of
        None \<Rightarrow> None
      | Some (ok, h') \<Rightarrow>
          if \<not> ok then Some (False, h')
          else if expected_interval \<le> 0 \<or> value \<le> expected_interval then Some (True, h')
          else record_missing h' (value - expected_interval) expected_interval)"

section \<open>Value queries that need no iteration\<close>

definition hdr_values_are_equivalent :: "hdr_histogram \<Rightarrow> int \<Rightarrow> int \<Rightarrow> bool" where
  "hdr_values_are_equivalent h a b \<longleftrightarrow>
     lowest_equivalent_value h a = lowest_equivalent_value h b"

definition hdr_lowest_equivalent_value :: "hdr_histogram \<Rightarrow> int \<Rightarrow> int" where
  "hdr_lowest_equivalent_value h value = lowest_equivalent_value h value"

definition hdr_count_at_value :: "hdr_histogram \<Rightarrow> int \<Rightarrow> int option" where
  "hdr_count_at_value h value = do {
     i \<leftarrow> counts_index_for h value;
     array_get (counts h) i
   }"

end
