(* ===== verification/Hdr_Slots.thy ===== *)
theory Hdr_Slots
  imports Hdr_Histogram
begin

text \<open>
  The arithmetic of the histogram's slots: what \<open>hdr_init\<close> establishes (\<open>hdr_config\<close>),
  where a value is stored, what interval of values shares a slot, and the precision of that
  interval.
\<close>

section \<open>The configuration that initialisation establishes\<close>

definition hdr_config :: "hdr_histogram \<Rightarrow> bool" where
  "hdr_config h \<longleftrightarrow>
     0 \<le> unit_magnitude h \<and> 0 \<le> sub_bucket_half_count_magnitude h \<and>
     sub_bucket_half_count h = 2 ^ nat (sub_bucket_half_count_magnitude h) \<and>
     sub_bucket_count h = 2 * sub_bucket_half_count h \<and>
     sub_bucket_mask h = (sub_bucket_count h - 1) * 2 ^ nat (unit_magnitude h) \<and>
     unit_magnitude h + sub_bucket_half_count_magnitude h \<le> 30 \<and>
     1 \<le> bucket_count h \<and>
     bucket_count h + sub_bucket_half_count_magnitude h + unit_magnitude h \<le> 62 \<and>
     counts_len h = (bucket_count h + 1) * sub_bucket_half_count h \<and>
     counts_len h < 2 ^ 31 \<and>
     1 \<le> significant_figures h \<and> significant_figures h \<le> 5 \<and>
     10 ^ nat (significant_figures h) \<le> sub_bucket_half_count h"

text \<open>Values below this bound have a slot.\<close>

definition hdr_capacity :: "hdr_histogram \<Rightarrow> int" where
  "hdr_capacity h =
     2 ^ nat (bucket_count h + sub_bucket_half_count_magnitude h + unit_magnitude h)"

text \<open>No 32-bit shift of \<open>size_of_equivalent_value_range\<close> leaves the \<open>int\<close> range.\<close>

definition hdr_narrow :: "hdr_histogram \<Rightarrow> bool" where
  "hdr_narrow h \<longleftrightarrow> unit_magnitude h + bucket_count h \<le> 31"

abbreviation (input) um :: "hdr_histogram \<Rightarrow> nat" where
  "um h \<equiv> nat (unit_magnitude h)"

abbreviation (input) hcm :: "hdr_histogram \<Rightarrow> nat" where
  "hcm h \<equiv> nat (sub_bucket_half_count_magnitude h)"

named_theorems hdr_cfg \<open>consequences of the configuration\<close>

lemma hdr_configD [hdr_cfg]:
  assumes "hdr_config h"
  shows "unit_magnitude h = int (um h)"
    and "sub_bucket_half_count_magnitude h = int (hcm h)"
    and "sub_bucket_half_count h = 2 ^ hcm h"
    and "sub_bucket_count h = 2 ^ Suc (hcm h)"
    and "um h + hcm h \<le> 30"
    and "1 \<le> bucket_count h"
    and "bucket_count h + int (hcm h) + int (um h) \<le> 62"
    and "counts_len h = (bucket_count h + 1) * 2 ^ hcm h"
    and "counts_len h < 2 ^ 31"
    and "10 ^ nat (significant_figures h) \<le> (2::int) ^ hcm h"
proof -
  note c = assms [unfolded hdr_config_def]
  show "unit_magnitude h = int (um h)" "sub_bucket_half_count_magnitude h = int (hcm h)"
    "sub_bucket_half_count h = 2 ^ hcm h" "sub_bucket_count h = 2 ^ Suc (hcm h)"
    "1 \<le> bucket_count h" "counts_len h = (bucket_count h + 1) * 2 ^ hcm h"
    "10 ^ nat (significant_figures h) \<le> (2::int) ^ hcm h"
    using c by simp_all
  show "counts_len h < 2 ^ 31" using c by blast
  show "um h + hcm h \<le> 30" "bucket_count h + int (hcm h) + int (um h) \<le> 62"
    using c by linarith+
qed

lemma hdr_config_nonneg [hdr_cfg]:
  assumes "hdr_config h"
  shows "0 \<le> unit_magnitude h" and "0 \<le> sub_bucket_half_count_magnitude h"
  using assms by (auto simp: hdr_config_def)

lemma hdr_mask_bits:
  assumes "hdr_config h"
  shows "0 \<le> sub_bucket_mask h"
    and "bit_width (nat (sub_bucket_mask h)) = Suc (hcm h + um h)"
    and "sub_bucket_mask h < 2 ^ 31"
proof -
  let ?k = "hcm h" and ?u = "um h"
  have mask: "sub_bucket_mask h = (2 ^ Suc ?k - 1) * 2 ^ ?u"
    using assms by (auto simp: hdr_config_def)
  show nn: "0 \<le> sub_bucket_mask h" by (simp add: mask)
  have lt: "sub_bucket_mask h < 2 ^ Suc (?k + ?u)"
    by (simp add: mask power_add algebra_simps)
  have ge: "2 ^ (?k + ?u) \<le> sub_bucket_mask h"
  proof -
    have "(2::int) ^ ?k \<le> 2 ^ Suc ?k - 1"
      using one_le_power [of "2::int" ?k] by simp
    then have "2 ^ ?k * 2 ^ ?u \<le> (2 ^ Suc ?k - 1) * (2::int) ^ ?u"
      by (rule mult_right_mono) simp
    then show ?thesis by (simp add: mask power_add)
  qed
  show "bit_width (nat (sub_bucket_mask h)) = Suc (?k + ?u)"
  proof (rule antisym)
    show "bit_width (nat (sub_bucket_mask h)) \<le> Suc (?k + ?u)"
      using lt nn by (simp add: bit_width_le_iff nat_less_iff)
    have "2 ^ (?k + ?u) \<le> nat (sub_bucket_mask h)"
      using ge by (simp add: le_nat_iff nn)
    then show "Suc (?k + ?u) \<le> bit_width (nat (sub_bucket_mask h))"
      by (simp add: Suc_le_eq bit_width_gt_iff)
  qed
  have "Suc (?k + ?u) \<le> 31" using assms hdr_configD(5) [OF assms] by simp
  then have "(2::int) ^ Suc (?k + ?u) \<le> 2 ^ 31" by (rule power_increasing) simp
  with lt show "sub_bucket_mask h < 2 ^ 31" by linarith
qed

section \<open>Where a value is stored\<close>

text \<open>The expression of \<open>get_bucket_index\<close>, before it is converted to 32 bits.\<close>

lemma bucket_index_exact:
  assumes cfg: "hdr_config h" and v: "0 \<le> v" "v < 2 ^ 63"
  shows "64 - builtin_clzll (v OR sub_bucket_mask h) - unit_magnitude h - (sub_bucket_half_count_magnitude h + 1) =
    max 0 (int (bit_width (nat v)) - int (Suc (hcm h + um h)))"
proof -
  let ?m = "sub_bucket_mask h"
  have m: "0 \<le> ?m" "?m < 2 ^ 63" using hdr_mask_bits [OF cfg] by simp_all
  have or0: "0 \<le> v OR ?m" using v m by simp
  have "v OR ?m < 2 ^ 63" using OR_upper v m by blast
  then have "take_bit 64 (v OR ?m) = v OR ?m"
    using or0 by (simp add: take_bit_int_eq_self del: take_bit_or)
  then have "64 - builtin_clzll (v OR ?m) = int (max (bit_width (nat v)) (Suc (hcm h + um h)))"
    using v m hdr_mask_bits(2) [OF cfg] by (simp add: builtin_clzll_def bit_width_or)
  then show ?thesis using hdr_config_nonneg [OF cfg] by (auto simp: max_def)
qed

lemma get_bucket_index_eq:
  assumes cfg: "hdr_config h" and v: "0 \<le> v" "v < 2 ^ 63"
  shows "get_bucket_index h v = max 0 (int (bit_width (nat v)) - int (Suc (hcm h + um h)))"
proof -
  have "bit_width (nat v) \<le> 63" using v by (simp add: bit_width_le_iff nat_less_iff)
  then show ?thesis
    unfolding get_bucket_index_def Let_def bucket_index_exact [OF assms] by (intro as_int32_id) auto
qed

lemma get_bucket_index_nonneg:
  "hdr_config h \<Longrightarrow> 0 \<le> v \<Longrightarrow> v < 2 ^ 63 \<Longrightarrow> 0 \<le> get_bucket_index h v"
  by (simp add: get_bucket_index_eq)

text \<open>The bucket of a value: its sub-bucket index lies in the upper half, or the bucket is the first.\<close>

lemma bucket_bounds:
  assumes cfg: "hdr_config h" and v: "0 \<le> v" "v < 2 ^ 63"
    and b: "b = nat (get_bucket_index h v)"
  shows "v < 2 ^ (b + Suc (hcm h + um h))"
    and "b \<noteq> 0 \<Longrightarrow> 2 ^ (b + hcm h + um h) \<le> v"
proof -
  let ?w = "bit_width (nat v)" and ?t = "Suc (hcm h + um h)"
  have b': "b = ?w - ?t"
    using b by (simp only: get_bucket_index_eq [OF cfg v] nat_max_diff)
  have "?w \<le> b + ?t" by (simp add: b')
  then have "nat v < 2 ^ (b + ?t)" by (simp only: bit_width_le_iff)
  then show "v < 2 ^ (b + ?t)" using v(1) by (simp add: nat_less_iff)
  assume "b \<noteq> 0"
  then have "b + hcm h + um h < ?w" by (simp add: b')
  then have "2 ^ (b + hcm h + um h) \<le> nat v" by (simp only: bit_width_gt_iff)
  then show "2 ^ (b + hcm h + um h) \<le> v" using v(1) by (simp add: le_nat_iff)
qed

lemma get_sub_bucket_index_eq:
  assumes cfg: "hdr_config h" and v: "0 \<le> v" "v < 2 ^ 63"
    and b: "b = nat (get_bucket_index h v)"
  shows "get_sub_bucket_index v (get_bucket_index h v) (unit_magnitude h) = v div 2 ^ (b + um h)"
    and "0 \<le> v div 2 ^ (b + um h)"
    and "v div 2 ^ (b + um h) < 2 ^ Suc (hcm h)"
    and "b \<noteq> 0 \<Longrightarrow> 2 ^ hcm h \<le> v div 2 ^ (b + um h)"
proof -
  let ?q = "v div 2 ^ (b + um h)"
  show nn: "0 \<le> ?q" using v by (simp add: pos_imp_zdiv_nonneg_iff)
  have "v < 2 ^ (b + Suc (hcm h + um h))" by (rule bucket_bounds [OF cfg v b])
  also have "(2::int) ^ (b + Suc (hcm h + um h)) = 2 ^ Suc (hcm h) * 2 ^ (b + um h)"
    by (simp add: power_add)
  finally have lt: "v < 2 ^ Suc (hcm h) * 2 ^ (b + um h)" .
  show q: "?q < 2 ^ Suc (hcm h)"
    using lt zdiv_less_iff [of "2 ^ (b + um h)" v "2 ^ Suc (hcm h)"] by simp
  {
    assume "b \<noteq> 0"
    then have "2 ^ (b + hcm h + um h) \<le> v" by (rule bucket_bounds(2) [OF cfg v b])
    also have "(2::int) ^ (b + hcm h + um h) = 2 ^ hcm h * 2 ^ (b + um h)"
      by (simp add: power_add)
    finally show "2 ^ hcm h \<le> ?q"
      using le_zdiv_iff [of "2 ^ (b + um h)" "2 ^ hcm h" v] by simp
  }
  have "Suc (hcm h) \<le> 31" using hdr_configD(5) [OF cfg] by simp
  then have "(2::int) ^ Suc (hcm h) \<le> 2 ^ 31" by (rule power_increasing) simp
  with q have "?q < 2 ^ 31" by linarith
  moreover have "nat (get_bucket_index h v + unit_magnitude h) = b + um h"
    using b get_bucket_index_nonneg [OF cfg v] hdr_config_nonneg(1) [OF cfg]
    by (simp add: nat_add_distrib)
  ultimately
  show "get_sub_bucket_index v (get_bucket_index h v) (unit_magnitude h) = ?q"
    using nn by (simp add: get_sub_bucket_index_def drop_bit_eq_div)
qed

text \<open>The slot of a value: position \<open>b * half + sub\<close> of the array.\<close>

definition slot_of :: "hdr_histogram \<Rightarrow> int \<Rightarrow> int" where
  "slot_of h v = (let b = nat (get_bucket_index h v)
                  in int b * 2 ^ hcm h + v div 2 ^ (b + um h))"

lemma bucket_index_lt_iff:
  assumes cfg: "hdr_config h" and v: "0 \<le> v" "v < 2 ^ 63"
  shows "get_bucket_index h v < bucket_count h \<longleftrightarrow> v < hdr_capacity h"
proof -
  let ?b = "nat (get_bucket_index h v)"
  let ?e = "nat (bucket_count h) + hcm h + um h"
  have bc: "1 \<le> bucket_count h" by (rule hdr_configD(6) [OF cfg])
  have cap: "hdr_capacity h = 2 ^ ?e"
    using bc hdr_config_nonneg [OF cfg] by (simp add: hdr_capacity_def nat_add_distrib)
  have lt: "get_bucket_index h v < bucket_count h \<longleftrightarrow> ?b < nat (bucket_count h)"
    using bc get_bucket_index_nonneg [OF cfg v] by linarith
  show ?thesis
  proof (cases "?b < nat (bucket_count h)")
    case True
    then have "?b + Suc (hcm h + um h) \<le> ?e" by linarith
    then have "(2::int) ^ (?b + Suc (hcm h + um h)) \<le> 2 ^ ?e" by (rule power_increasing) simp
    with bucket_bounds(1) [OF cfg v refl] True lt cap show ?thesis by linarith
  next
    case False
    with bc have "?b \<noteq> 0" by linarith
    with bucket_bounds(2) [OF cfg v refl] have "2 ^ (?b + hcm h + um h) \<le> v" by simp
    moreover have "(2::int) ^ ?e \<le> 2 ^ (?b + hcm h + um h)"
      using False by (intro power_increasing) auto
    ultimately show ?thesis using False lt cap by linarith
  qed
qed

lemma counts_index_eq:
  assumes cfg: "hdr_config h" and b: "0 \<le> b" "b < bucket_count h"
    and s: "s < sub_bucket_count h" "b = 0 \<or> sub_bucket_half_count h \<le> s"
  shows "counts_index h b s = Some (b * 2 ^ hcm h + s)"
proof -
  have "(b + 1) * 2 ^ hcm h \<le> counts_len h"
    using b by (simp add: hdr_configD(8) [OF cfg])
  then have "(b + 1) * 2 ^ hcm h < 2 ^ 31" using hdr_configD(9) [OF cfg] by linarith
  moreover have "0 \<le> (b + 1) * 2 ^ hcm h" using b by simp
  ultimately have "as_int32 (push_bit (hcm h) (b + 1)) = (b + 1) * 2 ^ hcm h"
    by (simp add: push_bit_eq_mult)
  then show ?thesis
    using b s hdr_configD(3) [OF cfg] by (simp add: counts_index_def algebra_simps)
qed

text \<open>
  A value within the capacity has a slot inside the array; any other value fails the
  first assertion of \<open>counts_index\<close>.
\<close>

lemma counts_index_for_eq:
  assumes cfg: "hdr_config h" and v: "0 \<le> v" "v < hdr_capacity h"
  shows "counts_index_for h v = Some (slot_of h v)"
    and "0 \<le> slot_of h v" and "slot_of h v < counts_len h"
proof -
  have v': "v < 2 ^ 63"
  proof -
    have "hdr_capacity h \<le> 2 ^ 62"
      using hdr_configD(7) [OF cfg] hdr_config_nonneg [OF cfg]
      unfolding hdr_capacity_def by (intro power_increasing) auto
    with v show ?thesis by simp
  qed
  let ?b = "nat (get_bucket_index h v)"
  let ?s = "v div 2 ^ (?b + um h)"
  have b: "0 \<le> get_bucket_index h v" "get_bucket_index h v < bucket_count h"
    using get_bucket_index_nonneg [OF cfg v(1) v'] bucket_index_lt_iff [OF cfg v(1) v'] v by auto
  note s = get_sub_bucket_index_eq [OF cfg v(1) v' refl]
  have s2: "?s < sub_bucket_count h" "get_bucket_index h v = 0 \<or> sub_bucket_half_count h \<le> ?s"
    using s(3,4) b hdr_configD(3,4) [OF cfg] by auto
  show "counts_index_for h v = Some (slot_of h v)"
    using counts_index_eq [OF cfg b s2] s(1) b
    by (simp add: counts_index_for_def slot_of_def Let_def)
  show "0 \<le> slot_of h v" using s(2) by (simp add: slot_of_def)
  have "slot_of h v < int ?b * 2 ^ hcm h + 2 ^ Suc (hcm h)"
    using s(3) by (simp add: slot_of_def)
  also have "\<dots> = (int ?b + 2) * 2 ^ hcm h" by (simp add: algebra_simps)
  also have "\<dots> \<le> (bucket_count h + 1) * 2 ^ hcm h"
    using b by (intro mult_right_mono) auto
  finally show "slot_of h v < counts_len h" by (simp add: hdr_configD(8) [OF cfg])
qed

lemma hdr_capacity_le: "hdr_config h \<Longrightarrow> hdr_capacity h \<le> 2 ^ 62"
  using hdr_configD(7) [of h] hdr_config_nonneg [of h]
  unfolding hdr_capacity_def by (intro power_increasing) auto

section \<open>The values that share a slot\<close>

lemma bucket_index_unique:
  assumes cfg: "hdr_config h" and v: "0 \<le> v" "v < 2 ^ 63"
    and ub: "v < 2 ^ (b + Suc (hcm h + um h))"
    and lb: "b \<noteq> 0 \<Longrightarrow> 2 ^ (b + hcm h + um h) \<le> v"
  shows "get_bucket_index h v = int b"
proof -
  let ?w = "bit_width (nat v)"
  have le: "?w \<le> b + Suc (hcm h + um h)"
    using ub v by (simp add: bit_width_le_iff nat_less_iff)
  have ge: "b + hcm h + um h < ?w" if "b \<noteq> 0"
    using lb [OF that] v by (simp add: bit_width_gt_iff le_nat_iff)
  have "?w - Suc (hcm h + um h) = b"
  proof (cases "b = 0")
    case True
    with le show ?thesis by simp
  next
    case False
    with le ge [OF False] show ?thesis by linarith
  qed
  then have "nat (get_bucket_index h v) = b"
    by (simp only: get_bucket_index_eq [OF cfg v] nat_max_diff)
  then show ?thesis using get_bucket_index_nonneg [OF cfg v] by linarith
qed

lemma shift_amount:
  assumes "hdr_config h" "0 \<le> v" "v < 2 ^ 63"
  shows "nat (get_bucket_index h v + unit_magnitude h) = nat (get_bucket_index h v) + um h"
    and "nat (unit_magnitude h + get_bucket_index h v) = nat (get_bucket_index h v) + um h"
  using get_bucket_index_nonneg [OF assms] hdr_config_nonneg(1) [OF assms(1)]
  by (simp_all add: nat_add_distrib)

lemma lowest_equivalent_eq:
  assumes cfg: "hdr_config h" and v: "0 \<le> v" "v < 2 ^ 63"
    and e: "e = nat (get_bucket_index h v) + um h"
  shows "lowest_equivalent_value h v = v div 2 ^ e * 2 ^ e"
  using get_sub_bucket_index_eq(1) [OF cfg v refl] shift_amount(1) [OF cfg v] e
  by (simp add: lowest_equivalent_value_def value_from_index_def push_bit_eq_mult Let_def)

lemma size_of_range_eq:
  assumes cfg: "hdr_config h" and nar: "hdr_narrow h" and v: "0 \<le> v" "v < hdr_capacity h"
    and e: "e = nat (get_bucket_index h v) + um h"
  shows "size_of_equivalent_value_range h v = 2 ^ e"
proof -
  have v': "v < 2 ^ 63" using v hdr_capacity_le [OF cfg] by simp
  have "get_bucket_index h v < bucket_count h"
    using bucket_index_lt_iff [OF cfg v(1) v'] v(2) by simp
  then have "e \<le> 30"
    using nar e hdr_config_nonneg [OF cfg] get_bucket_index_nonneg [OF cfg v(1) v']
    unfolding hdr_narrow_def by linarith
  then have "(2::int) ^ e \<le> 2 ^ 30" by (rule power_increasing) simp
  then have "as_int32 (2 ^ e) = 2 ^ e"
    by (intro as_int32_id) (auto intro: order_trans [of _ 0])
  moreover have "\<not> sub_bucket_count h
      \<le> get_sub_bucket_index v (get_bucket_index h v) (unit_magnitude h)"
    using get_sub_bucket_index_eq(1,3) [OF cfg v(1) v' refl] hdr_configD(4) [OF cfg] by simp
  ultimately show ?thesis
    using shift_amount(2) [OF cfg v(1) v'] e
    by (simp add: size_of_equivalent_value_range_def push_bit_eq_mult)
qed

lemma equivalent_range_contains:
  assumes cfg: "hdr_config h" and nar: "hdr_narrow h" and v: "0 \<le> v" "v < hdr_capacity h"
  shows "lowest_equivalent_value h v \<le> v" and "v \<le> highest_equivalent_value h v"
proof -
  have v': "v < 2 ^ 63" using v hdr_capacity_le [OF cfg] by simp
  let ?p = "2 ^ (nat (get_bucket_index h v) + um h) :: int"
  note low = lowest_equivalent_eq [OF cfg v(1) v' refl]
    and size = size_of_range_eq [OF cfg nar v refl]
  show "lowest_equivalent_value h v \<le> v"
    using low le_zdiv_iff [of ?p "v div ?p" v] by simp
  have "v < (v div ?p + 1) * ?p"
    using zdiv_less_iff [of ?p v "v div ?p + 1"] by simp
  then show "v \<le> highest_equivalent_value h v"
    by (simp add: highest_equivalent_value_def next_non_equivalent_value_def low size algebra_simps)
qed

lemma slot_of_less:
  assumes cfg: "hdr_config h" and v: "0 \<le> v" "v < 2 ^ 63" and w: "0 \<le> w" "w < 2 ^ 63"
    and lt: "get_bucket_index h v < get_bucket_index h w"
  shows "slot_of h v < slot_of h w"
proof -
  let ?b = "\<lambda>v. nat (get_bucket_index h v)"
  have b: "?b v < ?b w" using lt get_bucket_index_nonneg [OF cfg v] by simp
  have "slot_of h v < (int (?b v) + 2) * 2 ^ hcm h"
    using get_sub_bucket_index_eq(3) [OF cfg v refl] by (simp add: slot_of_def algebra_simps)
  also have "\<dots> \<le> (int (?b w) + 1) * 2 ^ hcm h"
    using b by (intro mult_right_mono) auto
  also have "\<dots> \<le> slot_of h w"
    using get_sub_bucket_index_eq(4) [OF cfg w refl] b by (simp add: slot_of_def algebra_simps)
  finally show ?thesis .
qed

lemma get_bucket_index_mono:
  assumes "hdr_config h" "0 \<le> v" "v \<le> w" "w < 2 ^ 63"
  shows "get_bucket_index h v \<le> get_bucket_index h w"
  using bit_width_mono [of "nat v" "nat w"] assms by (simp add: get_bucket_index_eq nat_mono)

lemma slot_of_mono:
  assumes cfg: "hdr_config h" and v: "0 \<le> v" "v \<le> w" and w: "w < 2 ^ 63"
  shows "slot_of h v \<le> slot_of h w"
proof (cases "get_bucket_index h v = get_bucket_index h w")
  case True
  then show ?thesis using v by (simp add: slot_of_def zdiv_mono1)
next
  case False
  with get_bucket_index_mono [OF cfg v w]
  have "get_bucket_index h v < get_bucket_index h w" by simp
  from slot_of_less [OF cfg _ _ _ w this] v w show ?thesis by simp
qed

lemma slot_of_eq_iff:
  assumes cfg: "hdr_config h" and nar: "hdr_narrow h"
    and v: "0 \<le> v" "v < hdr_capacity h" and w: "0 \<le> w" "w < 2 ^ 63"
  shows "slot_of h w = slot_of h v \<longleftrightarrow>
    lowest_equivalent_value h v \<le> w \<and> w \<le> highest_equivalent_value h v" (is "?l \<longleftrightarrow> ?r")
proof -
  have v': "v < 2 ^ 63" using v hdr_capacity_le [OF cfg] by simp
  let ?b = "nat (get_bucket_index h v)"
  let ?e = "?b + um h"
  let ?p = "2 ^ ?e :: int"
  have r_iff: "?r \<longleftrightarrow> w div ?p = v div ?p"
  proof -
    have "?r \<longleftrightarrow> v div ?p * ?p \<le> w \<and> w < (v div ?p + 1) * ?p"
      by (auto simp: highest_equivalent_value_def next_non_equivalent_value_def
        lowest_equivalent_eq [OF cfg v(1) v' refl] size_of_range_eq [OF cfg nar v refl]
        algebra_simps)
    also have "\<dots> \<longleftrightarrow> v div ?p \<le> w div ?p \<and> w div ?p < v div ?p + 1"
      using le_zdiv_iff [of ?p "v div ?p" w] zdiv_less_iff [of ?p w "v div ?p + 1"] by simp
    finally show ?thesis by linarith
  qed
  show ?thesis
  proof
    assume ?l
    then have "get_bucket_index h w = get_bucket_index h v"
      using slot_of_less [OF cfg v(1) v' w] slot_of_less [OF cfg w v(1) v']
      by (metis less_irrefl linorder_cases)
    with \<open>?l\<close> have "w div ?p = v div ?p" by (simp add: slot_of_def Let_def)
    then show ?r by (simp only: r_iff)
  next
    assume ?r
    then have q: "w div ?p = v div ?p" by (simp only: r_iff)
    note s = get_sub_bucket_index_eq [OF cfg v(1) v' refl]
    have "get_bucket_index h w = int ?b"
    proof (rule bucket_index_unique [OF cfg w])
      have "w < 2 ^ Suc (hcm h) * ?p"
        using s(3) q zdiv_less_iff [of ?p w "2 ^ Suc (hcm h)"] by simp
      then show "w < 2 ^ (?b + Suc (hcm h + um h))" by (simp add: power_add algebra_simps)
      assume "?b \<noteq> 0"
      then have "2 ^ hcm h * ?p \<le> w"
        using s(4) q le_zdiv_iff [of ?p "2 ^ hcm h" w] by simp
      then show "2 ^ (?b + hcm h + um h) \<le> w" by (simp add: power_add algebra_simps)
    qed
    then have "get_bucket_index h w = get_bucket_index h v"
      using get_bucket_index_nonneg [OF cfg v(1) v'] by simp
    with q show ?l by (simp add: slot_of_def Let_def)
  qed
qed

lemma lowest_equivalent_nonneg:
  "hdr_config h \<Longrightarrow> 0 \<le> v \<Longrightarrow> v < 2 ^ 63 \<Longrightarrow> 0 \<le> lowest_equivalent_value h v"
  by (simp add: lowest_equivalent_eq pos_imp_zdiv_nonneg_iff)

lemma slot_of_lowest:
  assumes cfg: "hdr_config h" and nar: "hdr_narrow h" and v: "0 \<le> v" "v < hdr_capacity h"
  shows "slot_of h (lowest_equivalent_value h v) = slot_of h v"
proof -
  have v': "v < 2 ^ 63" using v hdr_capacity_le [OF cfg] by simp
  note r = equivalent_range_contains [OF cfg nar v]
    and nn = lowest_equivalent_nonneg [OF cfg v(1) v']
  have "lowest_equivalent_value h v < 2 ^ 63" using r(1) v' by simp
  from slot_of_eq_iff [OF cfg nar v nn this] r show ?thesis by simp
qed

lemma equivalent_iff_slot:
  assumes cfg: "hdr_config h" and nar: "hdr_narrow h" and v: "0 \<le> v" "v < hdr_capacity h"
    and w: "0 \<le> w" "w < hdr_capacity h"
  shows "hdr_values_are_equivalent h v w \<longleftrightarrow> slot_of h v = slot_of h w"
proof
  assume "hdr_values_are_equivalent h v w"
  then have "lowest_equivalent_value h v = lowest_equivalent_value h w"
    by (simp add: hdr_values_are_equivalent_def)
  then show "slot_of h v = slot_of h w"
    using slot_of_lowest [OF cfg nar v] slot_of_lowest [OF cfg nar w] by simp
next
  assume eq: "slot_of h v = slot_of h w"
  have w': "w < 2 ^ 63" and v': "v < 2 ^ 63" using v w hdr_capacity_le [OF cfg] by simp_all
  have "get_bucket_index h v = get_bucket_index h w"
    using slot_of_less [OF cfg v(1) v' w(1) w'] slot_of_less [OF cfg w(1) w' v(1) v'] eq by force
  with eq show "hdr_values_are_equivalent h v w"
    by (simp add: hdr_values_are_equivalent_def slot_of_def Let_def
      lowest_equivalent_eq [OF cfg w(1) w' refl] lowest_equivalent_eq [OF cfg v(1) v' refl])
qed

text \<open>The interval around a value is narrow: the precision the histogram is built for.\<close>

lemma equivalent_range_precision:
  assumes cfg: "hdr_config h" and nar: "hdr_narrow h" and v: "0 \<le> v" "v < hdr_capacity h"
  shows "highest_equivalent_value h v - lowest_equivalent_value h v < 2 ^ um h \<or>
    (highest_equivalent_value h v - lowest_equivalent_value h v)
       * 10 ^ nat (significant_figures h) < v"
proof (cases "nat (get_bucket_index h v) = 0")
  case True
  then show ?thesis
    by (simp add: highest_equivalent_value_def next_non_equivalent_value_def
      size_of_range_eq [OF cfg nar v refl])
next
  case False
  have v': "v < 2 ^ 63" using v hdr_capacity_le [OF cfg] by simp
  let ?p = "2 ^ (nat (get_bucket_index h v) + um h) :: int"
  have "(?p - 1) * 10 ^ nat (significant_figures h) < ?p * 10 ^ nat (significant_figures h)"
    by simp
  also have "\<dots> \<le> ?p * 2 ^ hcm h"
    using hdr_configD(10) [OF cfg] by (intro mult_left_mono) auto
  also have "\<dots> \<le> v"
    using bucket_bounds(2) [OF cfg v(1) v' refl False] by (simp add: power_add algebra_simps)
  finally show ?thesis
    by (simp add: highest_equivalent_value_def next_non_equivalent_value_def
      size_of_range_eq [OF cfg nar v refl])
qed

end
