(* ===== verification/Hdr_Record.thy ===== *)
theory Hdr_Record
  imports Hdr_Slots
begin

text \<open>
  Initialisation and recording: the invariant of a histogram, what \<open>hdr_init\<close>
  establishes, the effect of one recorded value, the interface its clients use
  (\<open>value_recorder\<close>) and the properties of the recording operations.
\<close>

section \<open>The invariant\<close>

definition hdr_wf :: "hdr_histogram \<Rightarrow> bool" where
  "hdr_wf h \<longleftrightarrow> hdr_config h \<and> hdr_narrow h \<and> int (length (counts h)) = counts_len h \<and>
     (\<forall>c \<in> set (counts h). 0 \<le> c) \<and> total_count h = sum_list (counts h)"

lemma hdr_wfD:
  assumes "hdr_wf h"
  shows "hdr_config h" "hdr_narrow h" "int (length (counts h)) = counts_len h"
    and "\<And>c. c \<in> set (counts h) \<Longrightarrow> 0 \<le> c" and "total_count h = sum_list (counts h)"
  using assms by (auto simp: hdr_wf_def)

lemma hdr_config_counts [simp]:
  "hdr_config (h\<lparr>counts := cs\<rparr>) = hdr_config h"
  "hdr_config (h\<lparr>total_count := n\<rparr>) = hdr_config h"
  "hdr_narrow (h\<lparr>counts := cs\<rparr>) = hdr_narrow h"
  "hdr_narrow (h\<lparr>total_count := n\<rparr>) = hdr_narrow h"
  "hdr_capacity (h\<lparr>counts := cs\<rparr>) = hdr_capacity h"
  "hdr_capacity (h\<lparr>total_count := n\<rparr>) = hdr_capacity h"
  by (simp_all add: hdr_config_def hdr_narrow_def hdr_capacity_def)

lemma slot_of_counts [simp]:
  "slot_of (h\<lparr>counts := cs\<rparr>) v = slot_of h v"
  "slot_of (h\<lparr>total_count := n\<rparr>) v = slot_of h v"
  by (simp_all add: slot_of_def get_bucket_index_def)

text \<open>The count stored for the slot of a value.\<close>

definition slot_count :: "hdr_histogram \<Rightarrow> int \<Rightarrow> int" where
  "slot_count h v = counts h ! nat (slot_of h v)"

section \<open>Initialisation\<close>

lemma floor_log2_bounds:
  assumes "1 \<le> x"
  shows "0 \<le> floor_log2 x" and "2 ^ nat (floor_log2 x) \<le> x" and "x < 2 ^ Suc (nat (floor_log2 x))"
proof -
  have w: "0 < bit_width (nat x)" using assms by (simp add: bit_width_gt_iff)
  then show "0 \<le> floor_log2 x" by (simp add: floor_log2_def)
  have n: "nat (floor_log2 x) = bit_width (nat x) - 1" using w by (simp add: floor_log2_def)
  show "2 ^ nat (floor_log2 x) \<le> x"
    using bit_width_lower [of "nat x"] assms by (simp add: n le_nat_iff)
  have "nat x < 2 ^ Suc (nat (floor_log2 x))" using bit_width_upper [of "nat x"] w by (simp add: n)
  then show "x < 2 ^ Suc (nat (floor_log2 x))" using assms by (simp add: nat_less_iff)
qed

lemma buckets_needed_loop_ok:
  assumes "0 < t" "t < 2 ^ 62" "highest \<le> 2 ^ 61"
  shows "\<exists>n. buckets_needed_loop t highest k = Some (k + int n) \<and> highest \<le> t * 2 ^ n \<and>
    (n \<noteq> 0 \<longrightarrow> t * 2 ^ (n - 1) < highest)"
  using assms
proof (induction "nat (highest - t)" arbitrary: t k rule: less_induct)
  case less
  show ?case
  proof (cases "t < highest")
    case False
    then show ?thesis
      by (intro exI [of _ 0]) (simp add: buckets_needed_loop.simps [of t])
  next
    case True
    let ?t = "2 * t"
    have t: "as_int64 (push_bit 1 t) = ?t" using less.prems True by simp
    have "nat (highest - ?t) < nat (highest - t)" using True less.prems by simp
    moreover have "0 < ?t" "?t < 2 ^ 62" using less.prems True by simp_all
    ultimately obtain n where n: "buckets_needed_loop ?t highest (k + 1) = Some (k + 1 + int n)"
      "highest \<le> ?t * 2 ^ n" "n \<noteq> 0 \<longrightarrow> ?t * 2 ^ (n - 1) < highest"
      using less.hyps less.prems(3) by blast
    have "t * 2 ^ (Suc n - 1) < highest"
      using n(3) True by (cases n) simp_all
    then show ?thesis
      using n(1,2) True t
      by (intro exI [of _ "Suc n"]) (simp add: buckets_needed_loop.simps [of t])
  qed
qed


definition half_magnitude_for :: "int \<Rightarrow> int" where
  "half_magnitude_for figures =
     (if figures = 1 then 4 else if figures = 2 then 7 else if figures = 3 then 10
      else if figures = 4 then 14 else 17)"

lemma power_figures:
  "power 10 1 = Some 10" "power 10 2 = Some 100" "power 10 3 = Some 1000"
  "power 10 4 = Some 10000" "power 10 5 = Some 100000"
  by (simp_all add: power_def power_loop.simps [of 10])

lemma ceil_log2_figures:
  "ceil_log2 20 = 5" "ceil_log2 200 = 8" "ceil_log2 2000 = 11"
  "ceil_log2 20000 = 15" "ceil_log2 200000 = 18"
  by (simp_all add: ceil_log2_def bit_width.simps)

lemma figures_facts:
  assumes "1 \<le> figures" "figures \<le> (5::int)"
  shows "power 10 figures = Some (10 ^ nat figures)"
    and "ceil_log2 (2 * 10 ^ nat figures) = half_magnitude_for figures + 1"
    and "0 < half_magnitude_for figures" "half_magnitude_for figures \<le> 17"
    and "10 ^ nat figures \<le> (2::int) ^ nat (half_magnitude_for figures)"
proof -
  have "figures = 1 \<or> figures = 2 \<or> figures = 3 \<or> figures = 4 \<or> figures = 5"
    using assms by linarith
  then show "power 10 figures = Some (10 ^ nat figures)"
    and "ceil_log2 (2 * 10 ^ nat figures) = half_magnitude_for figures + 1"
    and "0 < half_magnitude_for figures" "half_magnitude_for figures \<le> 17"
    and "10 ^ nat figures \<le> (2::int) ^ nat (half_magnitude_for figures)"
    by (auto simp: power_figures ceil_log2_figures half_magnitude_for_def)
qed

lemma hdr_init_eq:
  assumes fig: "1 \<le> figures" "figures \<le> 5" and low: "1 \<le> lowest" "lowest < 2 ^ 14"
    and K: "K = nat (half_magnitude_for figures)" and U: "U = nat (floor_log2 lowest)"
    and loop: "buckets_needed_loop ((2 ^ Suc K - 1) * 2 ^ U) highest 1 = Some (1 + int n)"
    and n: "n + U \<le> 30"
  shows "hdr_init True lowest highest figures = Some (Inr
    \<lparr>lowest_trackable_value = lowest, highest_trackable_value = highest,
     unit_magnitude = int U, significant_figures = figures,
     sub_bucket_half_count_magnitude = int K,
     sub_bucket_half_count = 2 ^ K, sub_bucket_mask = (2 ^ Suc K - 1) * 2 ^ U,
     sub_bucket_count = 2 ^ Suc K, bucket_count = 1 + int n, counts_len = (2 + int n) * 2 ^ K,
     total_count = 0, counts = replicate (nat ((2 + int n) * 2 ^ K)) 0\<rparr>)"
proof -
  note ff = figures_facts [OF fig] and lb = floor_log2_bounds [OF low(1)]
  have k: "half_magnitude_for figures = int K" "K \<le> 17" using ff K by simp_all
  have "(2::int) ^ U < 2 ^ 14" using lb(2) low(2) unfolding U by linarith
  then have u: "floor_log2 lowest = int U" "U < 14"
    using lb(1) U by (simp, simp only: power_strict_increasing_iff)
  have K18: "(2::int) ^ Suc K \<le> 2 ^ 18" using k by (intro power_increasing) auto
  have sb: "as_int32 (2 ^ Suc K) = 2 ^ Suc K" by (rule as_int32_power) (use k in simp)
  have "(2 ^ Suc K - 1) * (2::int) ^ U < 2 ^ 18 * 2 ^ U"
    using K18 by (intro mult_strict_right_mono) auto
  also have "\<dots> \<le> 2 ^ 18 * 2 ^ 13"
    using u by (intro mult_left_mono power_increasing) auto
  finally have "(2 ^ Suc K - 1) * (2::int) ^ U < 2 ^ 31" by simp
  then have mask: "as_int32 ((2 ^ Suc K - 1) * 2 ^ U) = (2 ^ Suc K - 1) * 2 ^ U"
    by (intro as_int32_nonneg mult_nonneg_nonneg) auto
  have "(2 + int n) * 2 ^ K \<le> 32 * 2 ^ 17"
    using n k by (intro mult_mono power_increasing) auto
  then have "(2 + int n) * 2 ^ K < 2 ^ 31" by simp
  then have len: "as_int32 ((2 + int n) * 2 ^ K) = (2 + int n) * 2 ^ K"
    by (intro as_int32_nonneg mult_nonneg_nonneg) auto
  have half: "(2::int) ^ Suc K div 2 = 2 ^ K" by simp
  have "1 < half_magnitude_for figures + 1" "nat (half_magnitude_for figures + 1) = Suc K"
    using k ff(3) by (auto simp: nat_add_distrib)
  then show ?thesis
    using fig low(1) loop sb mask len half k(1) u(1) ff(1,2)
    by (simp add: hdr_init_def Let_def push_bit_eq_mult del: power_Suc)
qed

lemma init_loop_facts:
  assumes "buckets_needed_loop ((2 ^ Suc K - 1) * 2 ^ U) highest 1 = Some (1 + int n)"
    and "n \<noteq> 0 \<longrightarrow> (2 ^ Suc K - 1) * 2 ^ U * 2 ^ (n - 1) < highest"
    and "highest \<le> 2 ^ (30 + K)" "U \<le> 13"
  shows "n + U \<le> 30"
proof (cases "n = 0")
  case False
  have "(2::int) ^ K * 2 ^ (U + (n - 1)) \<le> (2 ^ Suc K - 1) * 2 ^ (U + (n - 1))"
    by (intro mult_right_mono) auto
  also have "\<dots> = (2 ^ Suc K - 1) * 2 ^ U * 2 ^ (n - 1)" by (simp only: power_add mult.assoc)
  also have "\<dots> < 2 ^ (30 + K)" using False assms(2,3) by linarith
  finally have "(2::int) ^ (K + (U + (n - 1))) < 2 ^ (30 + K)" by (simp add: power_add)
  then have "K + (U + (n - 1)) < 30 + K" by (simp only: power_strict_increasing_iff)
  with False show ?thesis by linarith
qed (use assms in simp)

lemma hdr_init_establishes:
  assumes fig: "1 \<le> figures" "figures \<le> 5"
    and low: "1 \<le> lowest" "lowest < 2 ^ 14"
    and high: "highest \<le> 2 ^ 30 * 10 ^ nat figures"
  shows "\<exists>h. hdr_init True lowest highest figures = Some (Inr h) \<and>
    hdr_wf h \<and> highest < hdr_capacity h \<and> total_count h = 0 \<and> significant_figures h = figures \<and>
    (\<forall>c \<in> set (counts h). c = 0)"
proof -
  define K where "K = nat (half_magnitude_for figures)"
  define U where "U = nat (floor_log2 lowest)"
  let ?m = "(2 ^ Suc K - 1) * (2::int) ^ U"
  note ff = figures_facts [OF fig] and lb = floor_log2_bounds [OF low(1)]
  have K17: "K \<le> 17" and K1: "10 ^ nat figures \<le> (2::int) ^ K" using ff K_def by simp_all
  have "(2::int) ^ U < 2 ^ 14" using lb(2) low(2) unfolding U_def by linarith
  then have U13: "U \<le> 13" by (simp only: power_strict_increasing_iff)
  have hK: "highest \<le> 2 ^ (30 + K)" using high K1 by (simp add: power_add)
  have "(2::int) ^ (30 + K) \<le> 2 ^ 47" using K17 by (intro power_increasing) auto
  with hK have h61: "highest \<le> 2 ^ 61" by simp
  have "(1::int) < 2 ^ Suc K" by (rule one_less_power) simp_all
  then have m0: "0 < ?m" by (intro mult_pos_pos) auto
  have "?m < 2 ^ Suc K * 2 ^ U" by (intro mult_strict_right_mono) auto
  also have m1: "2 ^ Suc K * 2 ^ U = (2::int) ^ (Suc K + U)" by (simp only: power_add)
  finally have mlt: "?m < 2 ^ (Suc K + U)" .
  moreover have "(2::int) ^ (Suc K + U) \<le> 2 ^ 31" using K17 U13 by (intro power_increasing) auto
  ultimately have "?m < 2 ^ 62" by simp
  then obtain n where n: "buckets_needed_loop ?m highest 1 = Some (1 + int n)"
    "highest \<le> ?m * 2 ^ n" "n \<noteq> 0 \<longrightarrow> ?m * 2 ^ (n - 1) < highest"
    using buckets_needed_loop_ok [OF m0 _ h61] by blast
  have nU: "n + U \<le> 30" by (rule init_loop_facts [OF n(1,3) hK U13])
  obtain h where h: "hdr_init True lowest highest figures = Some (Inr h)"
    and hd: "h = \<lparr>lowest_trackable_value = lowest, highest_trackable_value = highest,
     unit_magnitude = int U, significant_figures = figures,
     sub_bucket_half_count_magnitude = int K,
     sub_bucket_half_count = 2 ^ K, sub_bucket_mask = ?m,
     sub_bucket_count = 2 ^ Suc K, bucket_count = 1 + int n, counts_len = (2 + int n) * 2 ^ K,
     total_count = 0, counts = replicate (nat ((2 + int n) * 2 ^ K)) 0\<rparr>"
    using hdr_init_eq [OF fig low K_def U_def n(1) nU] by blast
  have "(2 + int n) * 2 ^ K \<le> 32 * 2 ^ 17"
    using nU K17 by (intro mult_mono power_increasing) auto
  then have len: "(2 + int n) * 2 ^ K < 2 ^ 31" by simp
  have cfg: "hdr_config h" "hdr_narrow h"
    using fig K17 U13 nU K1 len by (simp_all add: hdr_config_def hdr_narrow_def hd)
  have wf: "hdr_wf h" using cfg by (simp add: hdr_wf_def hd sum_list_replicate)
  have "highest < 2 ^ (Suc K + U) * 2 ^ n"
    using n(2) mlt by (meson le_less_trans mult_strict_right_mono zero_less_numeral zero_less_power)
  also have "\<dots> = hdr_capacity h"
    by (simp add: hdr_capacity_def hd nat_add_distrib power_add)
  finally have cap: "highest < hdr_capacity h" .
  with h wf cap show ?thesis by (auto simp: hd)
qed

section \<open>One recorded value\<close>

lemma hdr_record_value_as_values: "hdr_record_value h v = hdr_record_values h v 1"
  by (simp add: hdr_record_value_def hdr_record_values_def)

lemma hdr_record_values_eq:
  assumes wf: "hdr_wf h" and v: "0 \<le> v" "v < hdr_capacity h"
  shows "hdr_record_values h v n = Some (True,
    h\<lparr>counts := (counts h)[nat (slot_of h v) := slot_count h v + n],
      total_count := total_count h + n\<rparr>)"
  using counts_index_for_eq [OF hdr_wfD(1) [OF wf] v] hdr_wfD(3) [OF wf]
  by (simp add: hdr_record_values_def slot_count_def)

lemma hdr_record_values_wf:
  assumes wf: "hdr_wf h" and v: "0 \<le> v" "v < hdr_capacity h" and n: "0 \<le> n"
    and r: "hdr_record_values h v n = Some (ok, h')"
  shows "hdr_wf h'"
proof -
  note slot = counts_index_for_eq [OF hdr_wfD(1) [OF wf] v]
  let ?i = "nat (slot_of h v)"
  have i: "?i < length (counts h)" using slot hdr_wfD(3) [OF wf] by linarith
  have "0 \<le> slot_count h v" using hdr_wfD(4) [OF wf] i by (simp add: slot_count_def)
  then have "\<forall>c \<in> set ((counts h)[?i := slot_count h v + n]). 0 \<le> c"
    using n hdr_wfD(4) [OF wf] set_update_subset_insert [of "counts h" ?i] by fastforce
  then show ?thesis
    using r wf i unfolding hdr_record_values_eq [OF wf v]
    by (auto simp: hdr_wf_def sum_list_update_int slot_count_def)
qed

lemma slot_count_record:
  assumes wf: "hdr_wf h" and v: "0 \<le> v" "v < hdr_capacity h" and w: "0 \<le> w" "w < hdr_capacity h"
    and r: "hdr_record_values h v n = Some (ok, h')"
  shows "slot_count h' w =
    slot_count h w + (if hdr_values_are_equivalent h v w then n else 0)"
proof -
  note cfg = hdr_wfD(1) [OF wf] and nar = hdr_wfD(2) [OF wf]
  note sv = counts_index_for_eq [OF cfg v] and sw = counts_index_for_eq [OF cfg w]
  have "hdr_values_are_equivalent h v w \<longleftrightarrow> slot_of h v = slot_of h w"
    by (rule equivalent_iff_slot [OF cfg nar v w])
  moreover have "nat (slot_of h v) = nat (slot_of h w) \<longleftrightarrow> slot_of h v = slot_of h w"
    using sv(2) sw(2) by (simp add: eq_nat_nat_iff)
  moreover have "nat (slot_of h v) < length (counts h)"
    using sv(2,3) hdr_wfD(3) [OF wf] by linarith
  moreover have "slot_count h' w =
      (counts h)[nat (slot_of h v) := slot_count h v + n] ! nat (slot_of h w)"
    using r unfolding hdr_record_values_eq [OF wf v] by (auto simp: slot_count_def)
  ultimately show ?thesis
    by (cases "slot_of h v = slot_of h w") (simp_all add: slot_count_def nth_list_update)
qed

text \<open>Every value without a slot fails the assertion on the bucket index.\<close>

lemma get_bucket_index_neg:
  assumes cfg: "hdr_config h" and v: "v < 0" "- (2 ^ 63) \<le> v"
  shows "bucket_count h \<le> get_bucket_index h v"
proof -
  let ?x = "v OR sub_bucket_mask h"
  have "?x < 0" using v hdr_mask_bits(1) [OF cfg] by simp
  moreover have "- (2 ^ 63) \<le> ?x"
    using or_greater_eq [of "sub_bucket_mask h" v] v hdr_mask_bits(1) [OF cfg] by simp
  ultimately have lo: "2 ^ 63 \<le> ?x + 2 ^ 64" "?x + 2 ^ 64 < 2 ^ 64" by simp_all
  then have "(?x + 2 ^ 64) mod 2 ^ 64 = ?x + 2 ^ 64" by (intro mod_pos_pos_trivial) simp_all
  then have "take_bit 64 ?x = ?x + 2 ^ 64" by (simp add: take_bit_eq_mod del: or_eq_0_iff)
  moreover have "bit_width (nat (?x + 2 ^ 64)) = 64"
  proof (rule antisym)
    show "bit_width (nat (?x + 2 ^ 64)) \<le> 64"
      using lo by (simp add: bit_width_le_iff nat_less_iff)
    have "63 < bit_width (nat (?x + 2 ^ 64))"
      using lo by (simp add: bit_width_gt_iff le_nat_iff)
    then show "64 \<le> bit_width (nat (?x + 2 ^ 64))" by simp
  qed
  ultimately have "builtin_clzll ?x = 0" by (simp add: builtin_clzll_def)
  then have "get_bucket_index h v = 63 - unit_magnitude h - sub_bucket_half_count_magnitude h"
    using hdr_configD(5) [OF cfg] hdr_config_nonneg [OF cfg]
    by (simp add: get_bucket_index_def as_int32_id)
  then show ?thesis using hdr_configD(7) [OF cfg] hdr_config_nonneg [OF cfg] by simp
qed

lemma hdr_record_values_out_of_range:
  assumes cfg: "hdr_config h" and v: "- (2 ^ 63) \<le> v" "v < 2 ^ 63" "v < 0 \<or> hdr_capacity h \<le> v"
  shows "hdr_record_values h v n = None"
proof -
  have "bucket_count h \<le> get_bucket_index h v"
    using get_bucket_index_neg [OF cfg] bucket_index_lt_iff [OF cfg, of v] v by fastforce
  then show ?thesis by (simp add: hdr_record_values_def counts_index_for_def counts_index_def)
qed

section \<open>The interface of a recorder\<close>

text \<open>
  What the clients of a histogram rely on: recording an acceptable value succeeds, keeps the
  invariant, adds one to the total and one to the count of every value equivalent to it.
\<close>

locale value_recorder =
  fixes recv :: "'h \<Rightarrow> int \<Rightarrow> (bool \<times> 'h) option"
    and total :: "'h \<Rightarrow> int"
    and count_of :: "'h \<Rightarrow> int \<Rightarrow> int"
    and same :: "'h \<Rightarrow> int \<Rightarrow> int \<Rightarrow> bool"
    and accepts :: "'h \<Rightarrow> int \<Rightarrow> bool"
    and invar :: "'h \<Rightarrow> bool"
  assumes recv_ok: "invar h \<Longrightarrow> accepts h v \<Longrightarrow> \<exists>h'. recv h v = Some (True, h')"
    and recv_invar: "invar h \<Longrightarrow> accepts h v \<Longrightarrow> recv h v = Some (ok, h') \<Longrightarrow> invar h'"
    and recv_total: "invar h \<Longrightarrow> accepts h v \<Longrightarrow> recv h v = Some (ok, h') \<Longrightarrow> total h' = total h + 1"
    and recv_count: "invar h \<Longrightarrow> accepts h v \<Longrightarrow> accepts h w \<Longrightarrow> recv h v = Some (ok, h') \<Longrightarrow>
      count_of h' w = count_of h w + (if same h v w then 1 else 0)"
    and recv_frame: "invar h \<Longrightarrow> accepts h v \<Longrightarrow> recv h v = Some (ok, h') \<Longrightarrow>
      accepts h' = accepts h \<and> same h' = same h"
begin

fun recv_all :: "'h \<Rightarrow> int list \<Rightarrow> (bool \<times> 'h) option" where
  "recv_all h [] = Some (True, h)"
| "recv_all h (v # vs) =
     (case recv h v of None \<Rightarrow> None
      | Some (ok, h') \<Rightarrow> if \<not> ok then Some (False, h') else recv_all h' vs)"

lemma recv_all_ok:
  assumes "invar h" "\<forall>v \<in> set vs. accepts h v"
  obtains h' where "recv_all h vs = Some (True, h')" "invar h'"
    "total h' = total h + int (length vs)" "accepts h' = accepts h" "same h' = same h"
    "\<And>w. accepts h w \<Longrightarrow> count_of h' w = count_of h w + int (length (filter (\<lambda>v. same h v w) vs))"
proof -
  have "\<exists>h'. recv_all h vs = Some (True, h') \<and> invar h' \<and>
    total h' = total h + int (length vs) \<and> accepts h' = accepts h \<and> same h' = same h \<and>
    (\<forall>w. accepts h w \<longrightarrow>
      count_of h' w = count_of h w + int (length (filter (\<lambda>v. same h v w) vs)))"
    using assms
  proof (induction vs arbitrary: h)
    case Nil
    then show ?case by simp
  next
    case (Cons v vs)
    from Cons.prems have v: "accepts h v" by simp
    obtain h1 where r: "recv h v = Some (True, h1)" using recv_ok [OF Cons.prems(1) v] by blast
    note f = recv_frame [OF Cons.prems(1) v r] and c = recv_count [OF Cons.prems(1) v _ r]
    have "invar h1" by (rule recv_invar [OF Cons.prems(1) v r])
    moreover have "\<forall>x \<in> set vs. accepts h1 x" using Cons.prems(2) f by simp
    ultimately obtain h' where h': "recv_all h1 vs = Some (True, h')" "invar h'"
      "total h' = total h1 + int (length vs)" "accepts h' = accepts h1" "same h' = same h1"
      "\<forall>w. accepts h1 w \<longrightarrow>
        count_of h' w = count_of h1 w + int (length (filter (\<lambda>v. same h1 v w) vs))"
      using Cons.IH by blast
    then show ?case
      using r f c recv_total [OF Cons.prems(1) v r] by auto
  qed
  then show thesis using that by blast
qed

end

interpretation hdr_rec: value_recorder hdr_record_value total_count slot_count
  hdr_values_are_equivalent "\<lambda>h v. 0 \<le> v \<and> v < hdr_capacity h" hdr_wf
proof unfold_locales
  fix h v w ok h'
  assume wf: "hdr_wf h" and v: "0 \<le> v \<and> v < hdr_capacity h"
  note vs = conjunct1 [OF v] conjunct2 [OF v]
  show "\<exists>h'. hdr_record_value h v = Some (True, h')"
    by (simp add: hdr_record_value_as_values hdr_record_values_eq [OF wf vs])
  assume r: "hdr_record_value h v = Some (ok, h')"
  then have r': "hdr_record_values h v 1 = Some (ok, h')"
    by (simp add: hdr_record_value_as_values)
  show "hdr_wf h'" by (rule hdr_record_values_wf [OF wf vs _ r']) simp
  have h': "h' = h\<lparr>counts := (counts h)[nat (slot_of h v) := slot_count h v + 1],
      total_count := total_count h + 1\<rparr>"
    using r' by (simp add: hdr_record_values_eq [OF wf vs])
  then show "total_count h' = total_count h + 1" by simp
  show "(\<lambda>v. 0 \<le> v \<and> v < hdr_capacity h') = (\<lambda>v. 0 \<le> v \<and> v < hdr_capacity h) \<and>
      hdr_values_are_equivalent h' = hdr_values_are_equivalent h"
    by (simp add: h' fun_eq_iff hdr_values_are_equivalent_def lowest_equivalent_value_def
      get_bucket_index_def)
  assume "0 \<le> w \<and> w < hdr_capacity h"
  then show "slot_count h' w =
      slot_count h w + (if hdr_values_are_equivalent h v w then 1 else 0)"
    using slot_count_record [OF wf vs _ _ r'] by simp
qed

text \<open>A sequence of values recorded one after the other, up to the first refusal.\<close>

fun record_all :: "hdr_histogram \<Rightarrow> int list \<Rightarrow> (bool \<times> hdr_histogram) option" where
  "record_all h [] = Some (True, h)"
| "record_all h (v # vs) =
     (case hdr_record_value h v of None \<Rightarrow> None
      | Some (ok, h') \<Rightarrow> if \<not> ok then Some (False, h') else record_all h' vs)"

lemma record_all_recv: "record_all h vs = hdr_rec.recv_all h vs"
  by (induction h vs rule: record_all.induct) (auto split: option.split)

end
