(* ===== verification/Hdr_Iter.thy ===== *)
theory Hdr_Iter
  imports Hdr_Record
begin

text \<open>
  The iterators of \<open>wrk2/src/hdr_histogram.c\<close> and the queries built on them: all slots,
  recorded slots, linear and logarithmic steps, percentiles; \<open>hdr_add\<close>, \<open>hdr_max\<close>,
  \<open>hdr_min\<close>, \<open>hdr_value_at_percentile\<close>, \<open>hdr_mean\<close>. The loops are
  partial functions whose missing result is a failed assertion or no return; the properties
  show that they return on every well-formed histogram.
\<close>

section \<open>The basic iterator\<close>

record hdr_iter =
  it_h :: hdr_histogram
  it_bucket_index :: int
  it_sub_bucket_index :: int
  it_count_at_index :: int
  it_count_to_index :: int
  it_value_from_index :: int
  it_highest_equivalent_value :: int

definition has_buckets :: "hdr_iter \<Rightarrow> bool" where
  "has_buckets it \<longleftrightarrow> it_bucket_index it < bucket_count (it_h it)"

definition has_next :: "hdr_iter \<Rightarrow> bool" where
  "has_next it \<longleftrightarrow> it_count_to_index it < total_count (it_h it)"

definition increment_bucket :: "hdr_histogram \<Rightarrow> int \<Rightarrow> int \<Rightarrow> int \<times> int" where
  "increment_bucket h b s =
     (let s' = s + 1
      in if sub_bucket_count h \<le> s' then (b + 1, sub_bucket_half_count h) else (b, s'))"

definition move_next :: "hdr_iter \<Rightarrow> (bool \<times> hdr_iter) option" where
  "move_next it =
     (let h = it_h it;
          (b, s) = increment_bucket h (it_bucket_index it) (it_sub_bucket_index it);
          it' = it\<lparr>it_bucket_index := b, it_sub_bucket_index := s\<rparr>
      in if \<not> has_buckets it' then Some (False, it')
         else do {
           c \<leftarrow> get_count_at_index h b s;
           let v = value_from_index b s (unit_magnitude h);
           Some (True, it'\<lparr>it_count_at_index := c,
             it_count_to_index := it_count_to_index it' + c,
             it_value_from_index := v,
             it_highest_equivalent_value := highest_equivalent_value h v\<rparr>)
         })"

definition peek_next_value_from_index :: "hdr_iter \<Rightarrow> int" where
  "peek_next_value_from_index it =
     (let (b, s) = increment_bucket (it_h it) (it_bucket_index it) (it_sub_bucket_index it)
      in value_from_index b s (unit_magnitude (it_h it)))"

definition hdr_iter_init :: "hdr_histogram \<Rightarrow> hdr_iter" where
  "hdr_iter_init h =
     \<lparr>it_h = h, it_bucket_index = 0, it_sub_bucket_index = -1, it_count_at_index = 0,
      it_count_to_index = 0, it_value_from_index = 0, it_highest_equivalent_value = 0\<rparr>"

text \<open>The result of \<open>move_next\<close> is ignored: the answer is true even when no bucket is left.\<close>

definition hdr_iter_next :: "hdr_iter \<Rightarrow> (bool \<times> hdr_iter) option" where
  "hdr_iter_next it =
     (if \<not> has_next it then Some (False, it)
      else do { (ok, it') \<leftarrow> move_next it; Some (True, it') })"

section \<open>Queries over all slots\<close>

partial_function (option) hdr_max_loop :: "hdr_iter \<Rightarrow> int \<Rightarrow> int option" where
  "hdr_max_loop it m = do {
     (more, it') \<leftarrow> hdr_iter_next it;
     if more
     then hdr_max_loop it'
            (if it_count_at_index it' \<noteq> 0 then it_highest_equivalent_value it' else m)
     else Some m
   }"

declare hdr_max_loop.simps [code]

definition hdr_max :: "hdr_histogram \<Rightarrow> int option" where
  "hdr_max h = do {
     m \<leftarrow> hdr_max_loop (hdr_iter_init h) 0;
     Some (lowest_equivalent_value h m)
   }"

partial_function (option) hdr_min_loop :: "hdr_iter \<Rightarrow> int \<Rightarrow> int option" where
  "hdr_min_loop it m = do {
     (more, it') \<leftarrow> hdr_iter_next it;
     if more
     then (if it_count_to_index it' \<noteq> 0 \<and> m = 0 then Some (it_value_from_index it')
           else hdr_min_loop it' m)
     else Some m
   }"

declare hdr_min_loop.simps [code]

definition hdr_min :: "hdr_histogram \<Rightarrow> int option" where
  "hdr_min h = hdr_min_loop (hdr_iter_init h) 0"

partial_function (option) percentile_loop :: "hdr_iter \<Rightarrow> int \<Rightarrow> int \<Rightarrow> int option" where
  "percentile_loop it tot count_at_percentile = do {
     (more, it') \<leftarrow> hdr_iter_next it;
     if more
     then (let tot' = tot + it_count_at_index it'
           in if count_at_percentile \<le> tot'
              then Some (highest_equivalent_value (it_h it') (it_value_from_index it'))
              else percentile_loop it' tot' count_at_percentile)
     else Some 0
   }"

declare percentile_loop.simps [code]

text \<open>
  The percentile and the scaled rank are \<open>double\<close>s in the source; here they are exact
  rationals. The conversion to \<open>int64_t\<close> truncates towards zero.
\<close>

definition trunc_rat :: "rat \<Rightarrow> int" where
  "trunc_rat q = (if 0 \<le> q then \<lfloor>q\<rfloor> else \<lceil>q\<rceil>)"

definition count_at_percentile :: "hdr_histogram \<Rightarrow> rat \<Rightarrow> int" where
  "count_at_percentile h percentile =
     (let requested_percentile = (if percentile < 100 then percentile else 100);
          c = trunc_rat (requested_percentile / 100 * of_int (total_count h) + 1 / 2)
      in if 1 < c then c else 1)"

definition hdr_value_at_percentile :: "hdr_histogram \<Rightarrow> rat \<Rightarrow> int option" where
  "hdr_value_at_percentile h percentile =
     percentile_loop (hdr_iter_init h) 0 (count_at_percentile h percentile)"

partial_function (option) mean_total_loop :: "hdr_iter \<Rightarrow> int \<Rightarrow> int option" where
  "mean_total_loop it tot = do {
     (more, it') \<leftarrow> hdr_iter_next it;
     if more
     then mean_total_loop it'
            (if it_count_at_index it' \<noteq> 0
             then tot + it_count_at_index it'
                    * median_equivalent_value (it_h it') (it_value_from_index it')
             else tot)
     else Some tot
   }"

declare mean_total_loop.simps [code]

text \<open>The quotient of an empty histogram is not a number.\<close>

definition hdr_mean :: "hdr_histogram \<Rightarrow> rat option" where
  "hdr_mean h = do {
     tot \<leftarrow> mean_total_loop (hdr_iter_init h) 0;
     if total_count h = 0 then None
     else Some (of_int tot / of_int (total_count h))
   }"

section \<open>Recorded slots\<close>

record hdr_recorded_iter =
  rec_iter :: hdr_iter
  rec_count_added :: int

definition hdr_recorded_iter_init :: "hdr_histogram \<Rightarrow> hdr_recorded_iter" where
  "hdr_recorded_iter_init h = \<lparr>rec_iter = hdr_iter_init h, rec_count_added = 0\<rparr>"

partial_function (option) hdr_recorded_iter_next ::
  "hdr_recorded_iter \<Rightarrow> (bool \<times> hdr_recorded_iter) option" where
  "hdr_recorded_iter_next r = do {
     (more, it') \<leftarrow> hdr_iter_next (rec_iter r);
     if more
     then (if it_count_at_index it' \<noteq> 0
           then Some (True, \<lparr>rec_iter = it', rec_count_added = it_count_at_index it'\<rparr>)
           else hdr_recorded_iter_next (r\<lparr>rec_iter := it'\<rparr>))
     else Some (False, r\<lparr>rec_iter := it'\<rparr>)
   }"

declare hdr_recorded_iter_next.simps [code]

partial_function (option) hdr_add_loop ::
  "hdr_histogram \<Rightarrow> hdr_recorded_iter \<Rightarrow> int \<Rightarrow> (int \<times> hdr_histogram) option" where
  "hdr_add_loop h r dropped = do {
     (more, r') \<leftarrow> hdr_recorded_iter_next r;
     if more
     then do {
       (ok, h') \<leftarrow> hdr_record_values h (it_value_from_index (rec_iter r'))
                              (it_count_at_index (rec_iter r'));
       hdr_add_loop h' r'
         (if ok then dropped else dropped + it_count_at_index (rec_iter r'))
     }
     else Some (dropped, h)
   }"

declare hdr_add_loop.simps [code]

definition hdr_add :: "hdr_histogram \<Rightarrow> hdr_histogram \<Rightarrow> (int \<times> hdr_histogram) option" where
  "hdr_add h from = hdr_add_loop h (hdr_recorded_iter_init from) 0"

section \<open>Linear and logarithmic steps\<close>

record hdr_linear_iter =
  lin_iter :: hdr_iter
  lin_value_units_per_bucket :: int
  lin_count_added :: int
  lin_next_value_reporting_level :: int
  lin_next_lowest_equivalent :: int

definition hdr_linear_iter_init :: "hdr_histogram \<Rightarrow> int \<Rightarrow> hdr_linear_iter" where
  "hdr_linear_iter_init h units =
     \<lparr>lin_iter = hdr_iter_init h, lin_value_units_per_bucket = units, lin_count_added = 0,
      lin_next_value_reporting_level = units,
      lin_next_lowest_equivalent = lowest_equivalent_value h units\<rparr>"

partial_function (option) linear_loop :: "hdr_linear_iter \<Rightarrow> (bool \<times> hdr_linear_iter) option" where
  "linear_loop l =
     (if lin_next_lowest_equivalent l \<le> it_value_from_index (lin_iter l)
      then (let level = lin_next_value_reporting_level l + lin_value_units_per_bucket l
            in Some (True, l\<lparr>lin_next_value_reporting_level := level,
                 lin_next_lowest_equivalent :=
                   lowest_equivalent_value (it_h (lin_iter l)) level\<rparr>))
      else do {
        (ok, it') \<leftarrow> move_next (lin_iter l);
        if \<not> ok then Some (False, l\<lparr>lin_iter := it'\<rparr>)
        else linear_loop (l\<lparr>lin_iter := it',
               lin_count_added := lin_count_added l + it_count_at_index it'\<rparr>)
      })"

declare linear_loop.simps [code]

definition hdr_linear_iter_next :: "hdr_linear_iter \<Rightarrow> (bool \<times> hdr_linear_iter) option" where
  "hdr_linear_iter_next l =
     (let l' = l\<lparr>lin_count_added := 0\<rparr>
      in if has_next (lin_iter l') \<or>
            lin_next_lowest_equivalent l' < peek_next_value_from_index (lin_iter l')
         then linear_loop l' else Some (False, l'))"

record hdr_log_iter =
  log_iter :: hdr_iter
  log_value_units_first_bucket :: int
  log_base :: rat
  log_count_added :: int
  log_next_value_reporting_level :: int
  log_next_lowest_equivalent :: int

definition hdr_log_iter_init :: "hdr_histogram \<Rightarrow> int \<Rightarrow> rat \<Rightarrow> hdr_log_iter" where
  "hdr_log_iter_init h units base =
     \<lparr>log_iter = hdr_iter_init h, log_value_units_first_bucket = units, log_base = base,
      log_count_added = 0, log_next_value_reporting_level = units,
      log_next_lowest_equivalent = lowest_equivalent_value h units\<rparr>"

partial_function (option) log_loop :: "hdr_log_iter \<Rightarrow> (bool \<times> hdr_log_iter) option" where
  "log_loop l =
     (if log_next_lowest_equivalent l \<le> it_value_from_index (log_iter l)
      then (let level = trunc_rat (of_int (log_next_value_reporting_level l) * log_base l)
            in Some (True, l\<lparr>log_next_value_reporting_level := level,
                 log_next_lowest_equivalent :=
                   lowest_equivalent_value (it_h (log_iter l)) level\<rparr>))
      else do {
        (ok, it') \<leftarrow> move_next (log_iter l);
        if \<not> ok then Some (False, l\<lparr>log_iter := it'\<rparr>)
        else log_loop (l\<lparr>log_iter := it',
               log_count_added := log_count_added l + it_count_at_index it'\<rparr>)
      })"

declare log_loop.simps [code]

definition hdr_log_iter_next :: "hdr_log_iter \<Rightarrow> (bool \<times> hdr_log_iter) option" where
  "hdr_log_iter_next l =
     (let l' = l\<lparr>log_count_added := 0\<rparr>
      in if has_next (log_iter l') \<or>
            log_next_lowest_equivalent l' < peek_next_value_from_index (log_iter l')
         then log_loop l' else Some (False, l'))"

section \<open>Percentile steps\<close>

record hdr_percentile_iter =
  pct_iter :: hdr_iter
  seen_last_value :: bool
  ticks_per_half_distance :: int
  percentile_to_iterate_to :: rat
  pct_percentile :: rat

definition hdr_percentile_iter_init :: "hdr_histogram \<Rightarrow> int \<Rightarrow> hdr_percentile_iter" where
  "hdr_percentile_iter_init h ticks =
     \<lparr>pct_iter = hdr_iter_init h, seen_last_value = False, ticks_per_half_distance = ticks,
      percentile_to_iterate_to = 0, pct_percentile = 0\<rparr>"

text \<open>
  \<open>log(100 / (100.0 - p)) / log(2)\<close> is the exact binary logarithm; its truncation is that
  of the integer part of \<open>100 / (100 - p)\<close>, which is at least 1 for \<open>0 \<le> p < 100\<close>.
\<close>

definition half_distance_of :: "rat \<Rightarrow> int" where
  "half_distance_of p = 2 ^ nat (floor_log2 \<lfloor>100 / (100 - p)\<rfloor> + 1)"

partial_function (option) pct_loop :: "hdr_percentile_iter \<Rightarrow> (bool \<times> hdr_percentile_iter) option"
where
  "pct_loop p =
     (let it = pct_iter p;
          current = 100 * of_int (it_count_to_index it) / of_int (total_count (it_h it))
      in if it_count_at_index it \<noteq> 0 \<and> percentile_to_iterate_to p \<le> current
         then (let ticks = ticks_per_half_distance p
                     * half_distance_of (percentile_to_iterate_to p)
               in Some (True, p\<lparr>pct_percentile := percentile_to_iterate_to p,
                    percentile_to_iterate_to :=
                      percentile_to_iterate_to p + 100 / of_int ticks\<rparr>))
         else do {
           (more, it') \<leftarrow> hdr_iter_next it;
           if more then pct_loop (p\<lparr>pct_iter := it'\<rparr>) else Some (True, p\<lparr>pct_iter := it'\<rparr>)
         })"

declare pct_loop.simps [code]

definition hdr_percentile_iter_next ::
  "hdr_percentile_iter \<Rightarrow> (bool \<times> hdr_percentile_iter) option" where
  "hdr_percentile_iter_next p =
     (if \<not> has_next (pct_iter p)
      then (if seen_last_value p then Some (False, p)
            else Some (True, p\<lparr>seen_last_value := True, pct_percentile := 100\<rparr>))
      else if it_sub_bucket_index (pct_iter p) = -1
      then do {
        (more, it') \<leftarrow> hdr_iter_next (pct_iter p);
        if more then pct_loop (p\<lparr>pct_iter := it'\<rparr>) else Some (False, p\<lparr>pct_iter := it'\<rparr>)
      }
      else pct_loop p)"

end
