(* ===== verification/Hdr_Queries.thy ===== *)
theory Hdr_Queries
  imports Hdr_Iter "HOL-Library.Multiset"
begin

text \<open>
  What the queries of the histogram answer: the iterator's position after \<open>k\<close> steps,
  the histogram that \<open>holds\<close> a list of values, and the result of each query as a function
  of that list.
\<close>

section \<open>Slots and positions\<close>

lemma position_value:
  assumes cfg: "hdr_config h" and b: "0 \<le> b" "b < bucket_count h"
    and s: "0 \<le> s" "s < sub_bucket_count h" "b = 0 \<or> sub_bucket_half_count h \<le> s"
    and v: "v = value_from_index b s (unit_magnitude h)"
  shows "0 \<le> v" "v < hdr_capacity h" "slot_of h v = b * 2 ^ hcm h + s"
    "lowest_equivalent_value h v = v"
proof -
  let ?e = "nat b + um h"
  have e: "nat (b + unit_magnitude h) = ?e"
    using b hdr_config_nonneg(1) [OF cfg] by (simp add: nat_add_distrib)
  have veq: "v = s * 2 ^ ?e" by (simp add: v value_from_index_def push_bit_eq_mult e)
  show v0: "0 \<le> v" using s by (simp add: veq)
  have "v < 2 ^ Suc (hcm h) * 2 ^ ?e"
    using s(2) hdr_configD(4) [OF cfg] by (simp add: veq)
  also have "(2::int) ^ Suc (hcm h) * 2 ^ ?e = 2 ^ (nat b + Suc (hcm h + um h))"
    by (simp add: power_add)
  finally have ub: "v < 2 ^ (nat b + Suc (hcm h + um h))" .
  have "(2::int) ^ (nat b + Suc (hcm h + um h)) \<le> hdr_capacity h"
    unfolding hdr_capacity_def
    using b hdr_config_nonneg [OF cfg] by (intro power_increasing) auto
  with ub show cap: "v < hdr_capacity h" by linarith
  then have v63: "v < 2 ^ 63" using hdr_capacity_le [OF cfg] by simp
  have bi: "get_bucket_index h v = int (nat b)"
  proof (rule bucket_index_unique [OF cfg v0 v63 ub])
    assume "nat b \<noteq> 0"
    then have "2 ^ hcm h * 2 ^ ?e \<le> v"
      using s(3) hdr_configD(3) [OF cfg] by (simp add: veq)
    then show "2 ^ (nat b + hcm h + um h) \<le> v" by (simp add: power_add algebra_simps)
  qed
  have "v div 2 ^ ?e = s" by (simp add: veq)
  then show "slot_of h v = b * 2 ^ hcm h + s" using b by (simp add: slot_of_def bi)
  have "lowest_equivalent_value h v = v div 2 ^ ?e * 2 ^ ?e"
    using lowest_equivalent_eq [OF cfg v0 v63 refl] by (simp add: bi)
  also have "\<dots> = v" by (simp add: veq)
  finally show "lowest_equivalent_value h v = v" .
qed

lemma highest_equivalent_same_slot:
  assumes cfg: "hdr_config h" and nar: "hdr_narrow h" and v: "0 \<le> v" "v < hdr_capacity h"
  shows "0 \<le> highest_equivalent_value h v" "highest_equivalent_value h v < 2 ^ 63"
    "slot_of h (highest_equivalent_value h v) = slot_of h v"
proof -
  note r = equivalent_range_contains [OF cfg nar v]
  show nn: "0 \<le> highest_equivalent_value h v" using r(2) v by simp
  have v': "v < 2 ^ 63" using v hdr_capacity_le [OF cfg] by simp
  have "nat (get_bucket_index h v) + um h \<le> 31"
    using bucket_index_lt_iff [OF cfg v(1) v'] v(2) nar hdr_config_nonneg [OF cfg]
      get_bucket_index_nonneg [OF cfg v(1) v'] unfolding hdr_narrow_def by linarith
  then have "(2::int) ^ (nat (get_bucket_index h v) + um h) \<le> 2 ^ 31"
    by (rule power_increasing) simp
  then show lt: "highest_equivalent_value h v < 2 ^ 63"
    using r(1) v hdr_capacity_le [OF cfg]
    by (simp add: highest_equivalent_value_def next_non_equivalent_value_def
      size_of_range_eq [OF cfg nar v refl])
  show "slot_of h (highest_equivalent_value h v) = slot_of h v"
    using slot_of_eq_iff [OF cfg nar v nn lt] r by simp
qed

lemma same_slot_same_range:
  assumes cfg: "hdr_config h" and v: "0 \<le> v" "v < 2 ^ 63" and w: "0 \<le> w" "w < 2 ^ 63"
    and eq: "slot_of h v = slot_of h w"
  shows "get_bucket_index h v = get_bucket_index h w"
    "lowest_equivalent_value h v = lowest_equivalent_value h w"
proof -
  show b: "get_bucket_index h v = get_bucket_index h w"
    using slot_of_less [OF cfg v w] slot_of_less [OF cfg w v] eq by force
  with eq show "lowest_equivalent_value h v = lowest_equivalent_value h w"
    by (simp add: slot_of_def Let_def
      lowest_equivalent_eq [OF cfg w refl] lowest_equivalent_eq [OF cfg v refl])
qed

lemma same_slot_same_size:
  assumes cfg: "hdr_config h" and nar: "hdr_narrow h" and v: "0 \<le> v" "v < hdr_capacity h"
    and w: "0 \<le> w" "w < hdr_capacity h" and eq: "slot_of h v = slot_of h w"
  shows "size_of_equivalent_value_range h v = size_of_equivalent_value_range h w"
    "highest_equivalent_value h v = highest_equivalent_value h w"
    "median_equivalent_value h v = median_equivalent_value h w"
proof -
  have "v < 2 ^ 63" "w < 2 ^ 63" using v w hdr_capacity_le [OF cfg] by simp_all
  note r = same_slot_same_range [OF cfg v(1) this(1) w(1) this(2) eq]
  show s: "size_of_equivalent_value_range h v = size_of_equivalent_value_range h w"
    by (simp add: size_of_range_eq [OF cfg nar v refl] size_of_range_eq [OF cfg nar w refl] r(1))
  then show "highest_equivalent_value h v = highest_equivalent_value h w"
    "median_equivalent_value h v = median_equivalent_value h w"
    by (simp_all add: highest_equivalent_value_def next_non_equivalent_value_def
      median_equivalent_value_def r(2))
qed

section \<open>The iterator after k steps\<close>

definition it_at :: "hdr_histogram \<Rightarrow> nat \<Rightarrow> hdr_iter \<Rightarrow> bool" where
  "it_at h k it \<longleftrightarrow> it_h it = h \<and>
     it_bucket_index it * 2 ^ hcm h + it_sub_bucket_index it + 1 = int k \<and>
     0 \<le> it_bucket_index it \<and> it_bucket_index it < bucket_count h \<and>
     it_sub_bucket_index it < sub_bucket_count h \<and>
     (it_bucket_index it = 0 \<or> sub_bucket_half_count h \<le> it_sub_bucket_index it) \<and>
     it_count_to_index it = sum_list (take k (counts h)) \<and>
     (0 < k \<longrightarrow> 0 \<le> it_sub_bucket_index it \<and> it_count_at_index it = counts h ! (k - 1) \<and>
        0 \<le> it_value_from_index it \<and> it_value_from_index it < hdr_capacity h \<and>
        slot_of h (it_value_from_index it) = int (k - 1) \<and>
        lowest_equivalent_value h (it_value_from_index it) = it_value_from_index it \<and>
        it_highest_equivalent_value it = highest_equivalent_value h (it_value_from_index it))"

lemma it_at_init: "hdr_config h \<Longrightarrow> it_at h 0 (hdr_iter_init h)"
  using hdr_configD(4,6) [of h] by (simp add: it_at_def hdr_iter_init_def zero_less_power le_less_trans [of _ 0])

lemma it_at_Suc:
  assumes "it_at h (Suc k) it"
  shows "it_count_at_index it = counts h ! k" "0 \<le> it_value_from_index it"
    "it_value_from_index it < hdr_capacity h" "slot_of h (it_value_from_index it) = int k"
    "lowest_equivalent_value h (it_value_from_index it) = it_value_from_index it"
    "it_highest_equivalent_value it = highest_equivalent_value h (it_value_from_index it)"
    "it_h it = h" "it_count_to_index it = sum_list (take (Suc k) (counts h))"
  using assms by (auto simp: it_at_def)

lemma increment_at:
  assumes cfg: "hdr_config h" and at: "it_at h k it"
    and bs: "increment_bucket h (it_bucket_index it) (it_sub_bucket_index it) = (b, s)"
  shows "b * 2 ^ hcm h + s = int k" "0 \<le> b" "0 \<le> s" "s < sub_bucket_count h"
    "b = 0 \<or> sub_bucket_half_count h \<le> s"
proof -
  define H where "H = (2::int) ^ hcm h"
  define B where "B = it_bucket_index it"
  define S where "S = it_sub_bucket_index it"
  have H: "0 < H" "sub_bucket_half_count h = H" "sub_bucket_count h = 2 * H"
    using hdr_configD(3,4) [OF cfg] by (simp_all add: H_def)
  have at': "B * H + S + 1 = int k" "0 \<le> B" "S < 2 * H" "B = 0 \<or> H \<le> S"
    using at H by (simp_all add: it_at_def B_def S_def H_def)
  have S1: "0 \<le> S + 1" using at'(1,4) H(1) by auto
  have "(b, s) = (if 2 * H \<le> S + 1 then (B + 1, H) else (B, S + 1))"
    using bs H by (auto simp: increment_bucket_def Let_def B_def S_def split: if_splits)
  then have "b * H + s = int k \<and> 0 \<le> b \<and> 0 \<le> s \<and> s < 2 * H \<and> (b = 0 \<or> H \<le> s)"
    using at' S1 H(1) by (auto simp: algebra_simps split: if_splits)
  then show "b * 2 ^ hcm h + s = int k" "0 \<le> b" "0 \<le> s" "s < sub_bucket_count h"
    "b = 0 \<or> sub_bucket_half_count h \<le> s"
    using H by (simp_all add: H_def)
qed

lemma move_next_at:
  assumes wf: "hdr_wf h" and at: "it_at h k it" and k: "k < length (counts h)"
  shows "\<exists>it'. move_next it = Some (True, it') \<and> it_at h (Suc k) it'"
proof -
  note cfg = hdr_wfD(1) [OF wf]
  obtain b s where bs: "increment_bucket h (it_bucket_index it) (it_sub_bucket_index it) = (b, s)"
    by force
  note pos = increment_at [OF cfg at bs]
  have lt: "b < bucket_count h"
  proof (cases "b = 0")
    case True then show ?thesis using hdr_configD(6) [OF cfg] by simp
  next
    case False
    then have "(b + 1) * 2 ^ hcm h \<le> int k"
      using pos(1,5) hdr_configD(3) [OF cfg] by (simp add: algebra_simps)
    also have "\<dots> < (bucket_count h + 1) * 2 ^ hcm h"
      using k hdr_wfD(3) [OF wf] hdr_configD(8) [OF cfg] by linarith
    finally have "(b + 1) * 2 ^ hcm h < (bucket_count h + 1) * 2 ^ hcm h" .
    then show ?thesis by (simp only: mult_less_cancel_right) simp
  qed
  note val = position_value [OF cfg pos(2) lt pos(3-5) refl]
  have "get_count_at_index h b s = Some (counts h ! k)"
    using counts_index_eq [OF cfg pos(2) lt pos(4,5)] pos(1) k by (simp add: get_count_at_index_def)
  moreover have "sum_list (take (Suc k) (counts h)) = sum_list (take k (counts h)) + counts h ! k"
    using k by (simp add: take_Suc_conv_app_nth)
  moreover have "it_h it = h" "it_count_to_index it = sum_list (take k (counts h))"
    using at by (simp_all add: it_at_def)
  ultimately show ?thesis
    using bs pos lt val
    by (simp add: move_next_def it_at_def has_buckets_def Let_def)
qed

lemma sum_take_nonneg_int:
  assumes nn: "\<And>x. x \<in> set xs \<Longrightarrow> 0 \<le> (x::int)" and le: "sum_list xs \<le> sum_list (take k xs)"
    and j: "k \<le> j" "j < length xs"
  shows "xs ! j = 0"
proof -
  have "sum_list xs = sum_list (take k xs) + sum_list (drop k xs)"
    by (metis append_take_drop_id sum_list_append)
  with le have "sum_list (drop k xs) \<le> 0" by simp
  moreover have dn: "\<And>x. x \<in> set (drop k xs) \<Longrightarrow> 0 \<le> x" using nn by (meson in_set_dropD)
  ultimately have "sum_list (drop k xs) = 0" using sum_list_nonneg_int [OF dn] by force
  then have z: "\<forall>x \<in> set (drop k xs). x = 0" using dn by (simp add: sum_list_nonneg_eq_0_iff)
  have "j - k < length (drop k xs)" using j by simp
  then have "drop k xs ! (j - k) \<in> set (drop k xs)" by (rule nth_mem)
  with z have "drop k xs ! (j - k) = 0" by blast
  then show ?thesis using j by simp
qed

lemma iter_next_cases:
  assumes wf: "hdr_wf h" and at: "it_at h k it"
  obtains (stop) "hdr_iter_next it = Some (False, it)"
      "\<And>j. k \<le> j \<Longrightarrow> j < length (counts h) \<Longrightarrow> counts h ! j = 0"
  | (step) it' where "hdr_iter_next it = Some (True, it')" "k < length (counts h)"
      "it_at h (Suc k) it'"
proof (cases "has_next it")
  case False
  have "sum_list (counts h) \<le> sum_list (take k (counts h))"
    using False at hdr_wfD(5) [OF wf] by (simp add: has_next_def it_at_def)
  from sum_take_nonneg_int [OF hdr_wfD(4) [OF wf] this]
  have "\<And>j. k \<le> j \<Longrightarrow> j < length (counts h) \<Longrightarrow> counts h ! j = 0" .
  with False show thesis by (intro stop) (simp_all add: hdr_iter_next_def)
next
  case True
  have k: "k < length (counts h)"
  proof (rule ccontr)
    assume "\<not> k < length (counts h)"
    then show False using True at hdr_wfD(5) [OF wf] by (simp add: has_next_def it_at_def)
  qed
  obtain it' where "move_next it = Some (True, it')" "it_at h (Suc k) it'"
    using move_next_at [OF wf at k] by blast
  with k True show thesis by (intro step [of it']) (simp_all add: hdr_iter_next_def)
qed

lemma iter_induct [consumes 2, case_names stop step]:
  assumes wf: "hdr_wf h" and at: "it_at h k it"
    and stop: "\<And>k it. it_at h k it \<Longrightarrow> hdr_iter_next it = Some (False, it) \<Longrightarrow>
      (\<And>j. k \<le> j \<Longrightarrow> j < length (counts h) \<Longrightarrow> counts h ! j = 0) \<Longrightarrow> P k it"
    and step: "\<And>k it it'. it_at h k it \<Longrightarrow> hdr_iter_next it = Some (True, it') \<Longrightarrow>
      k < length (counts h) \<Longrightarrow> it_at h (Suc k) it' \<Longrightarrow> P (Suc k) it' \<Longrightarrow> P k it"
  shows "P k it"
  using at
proof (induction "length (counts h) - k" arbitrary: k it rule: less_induct)
  case less
  show ?case
  proof (cases rule: iter_next_cases [OF wf less.prems])
    case 1
    then show ?thesis by (intro stop [OF less.prems])
  next
    case (2 it')
    have "P (Suc k) it'" by (rule less.hyps [OF _ 2(3)]) (use 2(2) in simp)
    with 2 show ?thesis by (intro step [OF less.prems])
  qed
qed

section \<open>The values a histogram holds\<close>

definition holds :: "hdr_histogram \<Rightarrow> int list \<Rightarrow> bool" where
  "holds h vs \<longleftrightarrow> hdr_wf h \<and> (\<forall>v \<in> set vs. 0 \<le> v \<and> v < hdr_capacity h) \<and>
     (\<forall>k < length (counts h). counts h ! k = int (length (filter (\<lambda>v. slot_of h v = int k) vs)))"

lemma holdsD:
  assumes "holds h vs"
  shows "hdr_wf h" "hdr_config h" "hdr_narrow h"
    and "\<And>v. v \<in> set vs \<Longrightarrow> 0 \<le> v" "\<And>v. v \<in> set vs \<Longrightarrow> v < hdr_capacity h"
    and "\<And>k. k < length (counts h) \<Longrightarrow>
      counts h ! k = int (length (filter (\<lambda>v. slot_of h v = int k) vs))"
  using assms by (auto simp: holds_def hdr_wf_def)

lemma holds_mset: "mset vs = mset ws \<Longrightarrow> holds h vs \<Longrightarrow> holds h ws"
proof -
  assume m: "mset vs = mset ws" and h: "holds h vs"
  have "length (filter P vs) = length (filter P ws)" for P
    using arg_cong [OF m, of "\<lambda>M. size (filter_mset P M)"] by (simp flip: mset_filter)
  with h mset_eq_setD [OF m] show "holds h ws" by (simp add: holds_def)
qed

lemma holds_nil:
  assumes "hdr_wf h" "\<And>v. 0 \<le> v \<and> v < hdr_capacity h \<longrightarrow> slot_count h v = 0"
    "counts h = replicate n 0"
  shows "holds h []"
  using assms by (simp add: holds_def)

lemma holds_record_values:
  assumes h: "holds h vs" and v: "0 \<le> v" "v < hdr_capacity h" and n: "0 \<le> n"
  obtains h' where "hdr_record_values h v n = Some (True, h')"
    "holds h' (replicate (nat n) v @ vs)" "hdr_capacity h' = hdr_capacity h" "slot_of h' = slot_of h"
    "lowest_equivalent_value h' = lowest_equivalent_value h"
proof -
  note wf = holdsD(1) [OF h]
  note eq = hdr_record_values_eq [OF wf v, of n]
  note slot = counts_index_for_eq [OF holdsD(2) [OF h] v]
  define h' where "h' = h\<lparr>counts := (counts h)[nat (slot_of h v) := slot_count h v + n],
    total_count := total_count h + n\<rparr>"
  have r: "hdr_record_values h v n = Some (True, h')" using eq by (simp add: h'_def)
  have wf': "hdr_wf h'" by (rule hdr_record_values_wf [OF wf v n r])
  have len: "length (counts h') = length (counts h)" by (simp add: h'_def)
  have sl: "slot_of h' = slot_of h" by (simp add: h'_def fun_eq_iff)
  have cap: "hdr_capacity h' = hdr_capacity h" by (simp add: h'_def)
  have low: "lowest_equivalent_value h' = lowest_equivalent_value h"
    by (simp add: h'_def fun_eq_iff lowest_equivalent_value_def get_bucket_index_def)
  have "counts h' ! k = int (length (filter (\<lambda>w. slot_of h' w = int k) (replicate (nat n) v @ vs)))"
    if k: "k < length (counts h')" for k
  proof -
    have lt: "nat (slot_of h v) < length (counts h)" using slot hdr_wfD(3) [OF wf] by linarith
    have "counts h' ! k = counts h ! k + (if slot_of h v = int k then n else 0)"
      using lt k slot(2) by (auto simp: h'_def slot_count_def nth_list_update)
    then show ?thesis
      using holdsD(6) [OF h] k n len by (simp add: sl filter_replicate)
  qed
  then have "holds h' (replicate (nat n) v @ vs)"
    using wf' v holdsD(4,5) [OF h] cap by (auto simp: holds_def)
  then show thesis using that r cap sl low by blast
qed

lemma holds_record_all:
  assumes "holds h ws" "\<forall>v \<in> set vs. 0 \<le> v \<and> v < hdr_capacity h"
  shows "\<exists>h'. record_all h vs = Some (True, h') \<and> holds h' (vs @ ws) \<and>
    hdr_capacity h' = hdr_capacity h"
  using assms
proof (induction vs arbitrary: h ws)
  case Nil
  then show ?case by simp
next
  case (Cons v vs)
  have v: "0 \<le> v" "v < hdr_capacity h" using Cons.prems by simp_all
  obtain h1 where "hdr_record_values h v 1 = Some (True, h1)" "holds h1 (replicate (nat 1) v @ ws)"
    "hdr_capacity h1 = hdr_capacity h"
    by (rule holds_record_values [OF Cons.prems(1) v, of 1]) simp_all
  then have h1: "hdr_record_value h v = Some (True, h1)" "holds h1 (v # ws)"
    "hdr_capacity h1 = hdr_capacity h" by (simp_all add: hdr_record_value_as_values)
  obtain h' where h': "record_all h1 vs = Some (True, h')" "holds h' (vs @ v # ws)"
    "hdr_capacity h' = hdr_capacity h1"
    using Cons.IH [OF h1(2)] Cons.prems h1(3) by auto
  then have "holds h' ((v # vs) @ ws)" by (rule_tac holds_mset [OF _ h'(2)]) simp
  then show ?case using h' h1 by simp
qed

text \<open>The counts before a slot count the values stored before it.\<close>

lemma sum_take_holds:
  assumes "holds h vs" "k \<le> length (counts h)"
  shows "sum_list (take k (counts h)) = int (length (filter (\<lambda>v. slot_of h v < int k) vs))"
  using assms(2)
proof (induction k)
  case 0
  have "\<forall>v \<in> set vs. \<not> slot_of h v < 0"
    using holdsD [OF assms(1)] counts_index_for_eq(2) by fastforce
  then show ?case by (simp add: filter_False)
next
  case (Suc k)
  have "length (filter (\<lambda>v. slot_of h v < int (Suc k)) vs) =
      length (filter (\<lambda>v. slot_of h v < int k) vs) + length (filter (\<lambda>v. slot_of h v = int k) vs)"
    by (induction vs) auto
  with Suc holdsD(6) [OF assms(1), of k] show ?case by (simp add: take_Suc_conv_app_nth)
qed

lemma slot_of_bound:
  assumes "holds h vs" "v \<in> set vs"
  shows "0 \<le> slot_of h v" "slot_of h v < int (length (counts h))"
  using counts_index_for_eq(2,3) [OF holdsD(2) [OF assms(1)] holdsD(4,5) [OF assms]]
    hdr_wfD(3) [OF holdsD(1) [OF assms(1)]] by simp_all

lemma total_holds: "holds h vs \<Longrightarrow> total_count h = int (length vs)"
  using sum_take_holds [of h vs "length (counts h)"] slot_of_bound(2) [of h vs]
    hdr_wfD(5) [of h] holdsD(1) [of h vs] by (simp add: filter_True)

lemma count_zero_iff:
  assumes "holds h vs" "k < length (counts h)"
  shows "counts h ! k = 0 \<longleftrightarrow> (\<forall>v \<in> set vs. slot_of h v \<noteq> int k)"
  using holdsD(6) [OF assms] by (simp add: filter_empty_conv)

section \<open>Maximum and minimum\<close>

lemma holds_range: "holds h vs \<Longrightarrow> v \<in> set vs \<Longrightarrow> v < 2 ^ 63"
  using holdsD(5) [of h vs v] hdr_capacity_le [of h] holdsD(2) [of h vs] by simp

lemma slot_of_Max:
  assumes "holds h vs" "v \<in> set vs"
  shows "slot_of h v \<le> slot_of h (Max (set vs))" "Max (set vs) \<in> set vs"
proof -
  show "Max (set vs) \<in> set vs" using assms(2) by (intro Max_in) auto
  then show "slot_of h v \<le> slot_of h (Max (set vs))"
    using assms holdsD(2,4) [OF assms(1)] holds_range [OF assms(1)]
    by (intro slot_of_mono) simp_all
qed

lemma slot_of_Min:
  assumes "holds h vs" "v \<in> set vs"
  shows "slot_of h (Min (set vs)) \<le> slot_of h v" "Min (set vs) \<in> set vs"
proof -
  show "Min (set vs) \<in> set vs" using assms(2) by (intro Min_in) auto
  then show "slot_of h (Min (set vs)) \<le> slot_of h v"
    using assms holdsD(2,4) [OF assms(1)] holds_range [OF assms(1)]
    by (intro slot_of_mono) simp_all
qed

text \<open>The iterator's figures after a step are those of any value in the slot just passed.\<close>

lemma it_at_values:
  assumes h: "holds h vs" and at: "it_at h (Suc k) it"
    and v: "0 \<le> v" "v < hdr_capacity h" "slot_of h v = int k"
  shows "it_value_from_index it = lowest_equivalent_value h v"
    "it_highest_equivalent_value it = highest_equivalent_value h v"
    "median_equivalent_value h (it_value_from_index it) = median_equivalent_value h v"
    "highest_equivalent_value h (it_value_from_index it) = highest_equivalent_value h v"
proof -
  note i = it_at_Suc [OF at] and cfg = holdsD(2) [OF h] and nar = holdsD(3) [OF h]
  have v63: "v < 2 ^ 63" "it_value_from_index it < 2 ^ 63"
    using v i(3) hdr_capacity_le [OF cfg] by simp_all
  have eq: "slot_of h (it_value_from_index it) = slot_of h v" using i(4) v(3) by simp
  show "it_value_from_index it = lowest_equivalent_value h v"
    using same_slot_same_range(2) [OF cfg i(2) v63(2) v(1) v63(1) eq] i(5) by simp
  note s = same_slot_same_size [OF cfg nar i(2,3) v(1,2) eq]
  show "it_highest_equivalent_value it = highest_equivalent_value h v"
    "median_equivalent_value h (it_value_from_index it) = median_equivalent_value h v"
    "highest_equivalent_value h (it_value_from_index it) = highest_equivalent_value h v"
    using s i(6) by simp_all
qed

lemma hdr_max_loop_eq:
  assumes h: "holds h vs" and at: "it_at h k it"
  shows "hdr_max_loop it m = Some (if \<exists>v \<in> set vs. int k \<le> slot_of h v
    then highest_equivalent_value h (Max (set vs)) else m)"
  using holdsD(1) [OF h] at
proof (induction k it arbitrary: m rule: iter_induct)
  case (stop k it)
  have "\<not> int k \<le> slot_of h v" if v: "v \<in> set vs" for v
  proof
    assume "int k \<le> slot_of h v"
    then have "counts h ! nat (slot_of h v) = 0"
      using slot_of_bound [OF h v] by (intro stop(3)) auto
    then show False
      using count_zero_iff [OF h, of "nat (slot_of h v)"] slot_of_bound [OF h v] v by auto
  qed
  with stop(2) show ?case by (auto simp: hdr_max_loop.simps [of it])
next
  case (step k it it')
  note i = it_at_Suc [OF step(4)]
  have zero: "it_count_at_index it' = 0 \<longleftrightarrow> (\<forall>v \<in> set vs. slot_of h v \<noteq> int k)"
    using count_zero_iff [OF h step(3)] i(1) by simp
  show ?case
  proof (cases "\<exists>v \<in> set vs. int (Suc k) \<le> slot_of h v")
    case True
    then obtain v where "v \<in> set vs" "int (Suc k) \<le> slot_of h v" by blast
    then have "\<exists>v \<in> set vs. int k \<le> slot_of h v" by (intro bexI [of _ v]) auto
    with True step show ?thesis by (simp add: hdr_max_loop.simps [of it])
  next
    case False
    show ?thesis
    proof (cases "\<exists>v \<in> set vs. slot_of h v = int k")
      case True
      then obtain v where v: "v \<in> set vs" "slot_of h v = int k" by blast
      let ?M = "Max (set vs)"
      have "slot_of h ?M = int k"
        using slot_of_Max [OF h v(1)] v(2) False by fastforce
      moreover have "?M \<in> set vs" using slot_of_Max(2) [OF h v(1)] .
      ultimately have "it_highest_equivalent_value it' = highest_equivalent_value h ?M"
        using it_at_values(2) [OF h step(4)] holdsD(4,5) [OF h] by blast
      moreover have "\<exists>v \<in> set vs. int k \<le> slot_of h v" using v by force
      ultimately show ?thesis
        using True False step zero by (auto simp: hdr_max_loop.simps [of it])
    next
      case no: False
      then have "\<not> (\<exists>v \<in> set vs. int k \<le> slot_of h v)" using False by force
      with no False step zero show ?thesis by (auto simp: hdr_max_loop.simps [of it])
    qed
  qed
qed

lemma hdr_max_holds:
  assumes h: "holds h vs"
  shows "hdr_max h = Some (if vs = [] then lowest_equivalent_value h 0
    else lowest_equivalent_value h (Max (set vs)))"
proof (cases "vs = []")
  case True
  then show ?thesis
    using hdr_max_loop_eq [OF h it_at_init [OF holdsD(2) [OF h]]] by (simp add: hdr_max_def)
next
  case False
  then obtain v where v: "v \<in> set vs" by (cases vs) auto
  let ?M = "Max (set vs)"
  have M: "?M \<in> set vs" by (rule slot_of_Max(2) [OF h v])
  note cfg = holdsD(2) [OF h]
  note r = highest_equivalent_same_slot [OF cfg holdsD(3) [OF h] holdsD(4,5) [OF h M]]
  have "lowest_equivalent_value h (highest_equivalent_value h ?M) = lowest_equivalent_value h ?M"
    using r holdsD(4) [OF h M] holds_range [OF h M]
    by (intro same_slot_same_range(2) [OF cfg]) simp_all
  moreover have "\<exists>v \<in> set vs. int 0 \<le> slot_of h v" using v slot_of_bound(1) [OF h v] by auto
  ultimately show ?thesis
    using False hdr_max_loop_eq [OF h it_at_init [OF cfg]] by (simp add: hdr_max_def)
qed

lemma hdr_min_loop_eq:
  assumes h: "holds h vs" and vs: "vs \<noteq> []" and at: "it_at h k it"
    and lo: "\<forall>v \<in> set vs. int k \<le> slot_of h v"
  shows "hdr_min_loop it 0 = Some (lowest_equivalent_value h (Min (set vs)))"
  using holdsD(1) [OF h] at lo
proof (induction k it rule: iter_induct)
  case (stop k it)
  obtain v where v: "v \<in> set vs" using vs by (cases vs) auto
  have "counts h ! nat (slot_of h v) = 0"
    using slot_of_bound [OF h v] stop(4) v by (intro stop(3)) auto
  then show ?case
    using count_zero_iff [OF h, of "nat (slot_of h v)"] slot_of_bound [OF h v] v by auto
next
  case (step k it it')
  note i = it_at_Suc [OF step(4)]
  have ct: "it_count_to_index it' = int (length (filter (\<lambda>v. slot_of h v < int (Suc k)) vs))"
    using i(8) sum_take_holds [OF h, of "Suc k"] step(3) by simp
  show ?case
  proof (cases "\<exists>v \<in> set vs. slot_of h v < int (Suc k)")
    case True
    then obtain v where v: "v \<in> set vs" "slot_of h v < int (Suc k)" by blast
    let ?M = "Min (set vs)"
    have M: "?M \<in> set vs" by (rule slot_of_Min(2) [OF h v(1)])
    have "slot_of h ?M = int k" using slot_of_Min(1) [OF h v(1)] v(2) step(6) M by force
    then have "it_value_from_index it' = lowest_equivalent_value h ?M"
      using it_at_values(1) [OF h step(4)] holdsD(4,5) [OF h M] by blast
    moreover have "it_count_to_index it' \<noteq> 0" using v by (auto simp: ct filter_empty_conv)
    ultimately show ?thesis using step(2) by (simp add: hdr_min_loop.simps [of it])
  next
    case False
    then have "it_count_to_index it' = 0" by (simp add: ct filter_empty_conv)
    moreover have "\<forall>v \<in> set vs. int (Suc k) \<le> slot_of h v" using False by force
    ultimately show ?thesis using step(2,5) by (simp add: hdr_min_loop.simps [of it])
  qed
qed

lemma hdr_min_holds:
  assumes h: "holds h vs" and vs: "vs \<noteq> []"
  shows "hdr_min h = Some (lowest_equivalent_value h (Min (set vs)))"
  using hdr_min_loop_eq [OF h vs it_at_init [OF holdsD(2) [OF h]]] slot_of_bound(1) [OF h]
  by (simp add: hdr_min_def)

section \<open>Percentiles\<close>

lemma sorted_rank:
  assumes "sorted xs" "0 < c" "c \<le> length xs"
    and mono: "\<And>x y. x \<in> set xs \<Longrightarrow> y \<in> set xs \<Longrightarrow> x \<le> y \<Longrightarrow> f x \<le> f y"
  shows "c \<le> length (filter (\<lambda>x. f x \<le> (k::int)) xs) \<longleftrightarrow> f (xs ! (c - 1)) \<le> k"
proof
  have i: "c - 1 < length xs" using assms by simp
  {
    assume le: "f (xs ! (c - 1)) \<le> k"
    have "f x \<le> k" if mem: "x \<in> set (take c xs)" for x
    proof -
      obtain j where "j < length (take c xs)" "take c xs ! j = x"
        using mem [unfolded in_set_conv_nth] by blast
      then have j: "j < c" "x = xs ! j" by simp_all
      then have "x \<le> xs ! (c - 1)" using assms(1) i by (auto intro: sorted_nth_mono)
      then have "f x \<le> f (xs ! (c - 1))" using j i assms(3) by (intro mono) auto
      with le show ?thesis by simp
    qed
    then have "filter (\<lambda>x. f x \<le> k) (take c xs) = take c xs" by (simp add: filter_True)
    then have "length (filter (\<lambda>x. f x \<le> k) xs) = c + length (filter (\<lambda>x. f x \<le> k) (drop c xs))"
      using assms(3) by (metis append_take_drop_id filter_append length_append length_take min.absorb2)
    then show "c \<le> length (filter (\<lambda>x. f x \<le> k) xs)" by simp
  }
  {
    assume c: "c \<le> length (filter (\<lambda>x. f x \<le> k) xs)"
    show "f (xs ! (c - 1)) \<le> k"
    proof (rule ccontr)
      assume not: "\<not> f (xs ! (c - 1)) \<le> k"
      have "\<not> f x \<le> k" if mem: "x \<in> set (drop (c - 1) xs)" for x
      proof -
        obtain i' where i': "i' < length (drop (c - 1) xs)" "drop (c - 1) xs ! i' = x"
          using mem [unfolded in_set_conv_nth] by blast
        define j where "j = c - 1 + i'"
        have j: "c - 1 \<le> j" "j < length xs" "x = xs ! j" using i' by (auto simp: j_def)
        then have "xs ! (c - 1) \<le> x" using assms(1) by (auto intro: sorted_nth_mono)
        then have "f (xs ! (c - 1)) \<le> f x" using j i by (intro mono) auto
        with not show ?thesis by simp
      qed
      then have "filter (\<lambda>x. f x \<le> k) (drop (c - 1) xs) = []" by (simp add: filter_empty_conv)
      then have "filter (\<lambda>x. f x \<le> k) xs = filter (\<lambda>x. f x \<le> k) (take (c - 1) xs)"
        by (metis append_Nil2 append_take_drop_id filter_append)
      then have "length (filter (\<lambda>x. f x \<le> k) xs) \<le> c - 1"
        using length_filter_le [of _ "take (c - 1) xs"] by (metis length_take min.boundedE)
      with c \<open>0 < c\<close> show False by simp
    qed
  }
qed

lemma rank_holds:
  assumes h: "holds h vs" and c: "0 < c" "c \<le> length vs"
  shows "c \<le> length (filter (\<lambda>v. slot_of h v < int (Suc k)) vs) \<longleftrightarrow>
    slot_of h (sort vs ! (c - 1)) < int (Suc k)"
proof -
  have "length (filter (\<lambda>v. slot_of h v \<le> int k) (sort vs)) = length (filter (\<lambda>v. slot_of h v \<le> int k) vs)"
    by (metis length_sort filter_sort)
  moreover have "c \<le> length (filter (\<lambda>v. slot_of h v \<le> int k) (sort vs)) \<longleftrightarrow>
      slot_of h (sort vs ! (c - 1)) \<le> int k"
    using c holdsD(2,4) [OF h] holds_range [OF h]
    by (intro sorted_rank slot_of_mono) simp_all
  moreover have "(x < int (Suc k)) = (x \<le> int k)" for x by linarith
  ultimately show ?thesis by (simp only:)
qed

lemma percentile_loop_eq:
  assumes h: "holds h vs" and c: "0 < c" "c \<le> length vs" and at: "it_at h k it"
    and lo: "int k \<le> slot_of h (sort vs ! (c - 1))"
  shows "percentile_loop it (sum_list (take k (counts h))) (int c) =
    Some (highest_equivalent_value h (sort vs ! (c - 1)))"
  using holdsD(1) [OF h] at lo
proof (induction k it rule: iter_induct)
  let ?x = "sort vs ! (c - 1)"
  have x: "?x \<in> set vs" using c by (metis diff_less length_sort less_le_trans nth_mem set_sort zero_less_one)
  {
    case (stop k it)
    have "counts h ! nat (slot_of h ?x) = 0"
      using slot_of_bound [OF h x] stop(4) by (intro stop(3)) auto
    moreover have "nat (slot_of h ?x) < length (counts h)" using slot_of_bound [OF h x] by linarith
    ultimately show ?case
      using count_zero_iff [OF h, of "nat (slot_of h ?x)"] slot_of_bound(1) [OF h x] x by auto
  next
    case (step k it it')
    note i = it_at_Suc [OF step(4)]
    have t: "sum_list (take k (counts h)) + it_count_at_index it' = sum_list (take (Suc k) (counts h))"
      using step(3) i(1) by (simp add: take_Suc_conv_app_nth)
    also have "\<dots> = int (length (filter (\<lambda>v. slot_of h v < int (Suc k)) vs))"
      using sum_take_holds [OF h, of "Suc k"] step(3) by simp
    finally have iff: "int c \<le> sum_list (take k (counts h)) + it_count_at_index it' \<longleftrightarrow>
        slot_of h ?x < int (Suc k)"
      using rank_holds [OF h c, of k] by simp
    show ?case
    proof (cases "slot_of h ?x < int (Suc k)")
      case True
      then have "slot_of h ?x = int k" using step(6) by simp
      then have "highest_equivalent_value h (it_value_from_index it') = highest_equivalent_value h ?x"
        by (intro it_at_values(4) [OF h step(4)] holdsD(4,5) [OF h x])
      with True iff i(7) step(2) show ?thesis by (simp add: percentile_loop.simps [of it])
    next
      case False
      with iff t step(2,5) show ?thesis by (simp add: percentile_loop.simps [of it] Let_def)
    qed
  }
qed

lemma trunc_rat_le:
  assumes "q \<le> of_int n + 1 / 2" "0 \<le> n"
  shows "trunc_rat q \<le> n"
proof (cases "0 \<le> q")
  case True
  with assms show ?thesis by (simp add: trunc_rat_def floor_le_iff)
next
  case False
  then have "\<lceil>q\<rceil> \<le> 0" by (simp add: ceiling_le_iff)
  moreover have "trunc_rat q = \<lceil>q\<rceil>" using False by (simp add: trunc_rat_def)
  ultimately show ?thesis using assms(2) by linarith
qed

lemma count_at_percentile_rank:
  assumes h: "holds h vs" and vs: "vs \<noteq> []"
  shows "1 \<le> count_at_percentile h p" "0 < nat (count_at_percentile h p)"
    "nat (count_at_percentile h p) \<le> length vs"
    "sort vs ! (nat (count_at_percentile h p) - 1) \<in> set vs"
proof -
  let ?c = "count_at_percentile h p" and ?n = "rat_of_int (total_count h)"
  have n: "total_count h = int (length vs)" "0 < length vs" using total_holds [OF h] vs by simp_all
  show 1: "1 \<le> ?c" by (simp add: count_at_percentile_def Let_def)
  then show "0 < nat ?c" by simp
  let ?q = "(if p < 100 then p else 100) / 100 * ?n + 1 / 2"
  have "(if p < 100 then p else 100) / 100 * ?n \<le> 1 * ?n"
    using n by (intro mult_right_mono) auto
  then have "?q \<le> ?n + 1 / 2" by simp
  then have "trunc_rat ?q \<le> total_count h"
    by (rule trunc_rat_le) (use n in simp)
  then have "?c \<le> int (length vs)" using n by (simp add: count_at_percentile_def Let_def Suc_le_eq)
  with 1 show c: "nat ?c \<le> length vs" by simp
  show "sort vs ! (nat ?c - 1) \<in> set vs"
    using 1 c nth_mem [of "nat ?c - 1" "sort vs"] by simp
qed

lemma hdr_value_at_percentile_holds:
  assumes h: "holds h vs" and vs: "vs \<noteq> []"
  shows "hdr_value_at_percentile h p =
    Some (highest_equivalent_value h (sort vs ! (nat (count_at_percentile h p) - 1)))"
proof -
  note c = count_at_percentile_rank [OF h vs, of p]
  have "int (nat (count_at_percentile h p)) = count_at_percentile h p" using c(1) by simp
  with percentile_loop_eq [OF h c(2,3) it_at_init [OF holdsD(2) [OF h]]]
    slot_of_bound(1) [OF h c(4)]
  show ?thesis by (simp only: hdr_value_at_percentile_def take_0 sum_list.Nil of_nat_0)
qed

section \<open>The mean\<close>

text \<open>A sum over the values of a function of their slot's median, slot by slot.\<close>

lemma slot_sum_step:
  assumes h: "holds h vs" and k: "k < length (counts h)" and at: "it_at h (Suc k) it"
  shows "sum_list (map (\<lambda>v. f (median_equivalent_value h v)) (filter (\<lambda>v. int k \<le> slot_of h v) vs)) =
    (of_int (it_count_at_index it) * f (median_equivalent_value h (it_value_from_index it)) :: 'a :: comm_ring_1) +
    sum_list (map (\<lambda>v. f (median_equivalent_value h v)) (filter (\<lambda>v. int (Suc k) \<le> slot_of h v) vs))"
proof -
  let ?f = "\<lambda>v. f (median_equivalent_value h v)" and ?ws = "filter (\<lambda>v. slot_of h v = int k) vs"
  have split: "sum_list (map ?f (filter (\<lambda>v. int k \<le> slot_of h v) ws)) =
      sum_list (map ?f (filter (\<lambda>v. slot_of h v = int k) ws)) +
      sum_list (map ?f (filter (\<lambda>v. int (Suc k) \<le> slot_of h v) ws))" for ws
    by (induction ws) (auto simp: algebra_simps)
  have "map ?f ?ws = map (\<lambda>_. ?f (it_value_from_index it)) ?ws"
    using it_at_values(3) [OF h at holdsD(4,5) [OF h]] by (intro map_cong) auto
  then have "sum_list (map ?f ?ws) = of_nat (length ?ws) * ?f (it_value_from_index it)"
    by (simp only: sum_list_triv)
  also have "(of_nat (length ?ws) :: 'a) = of_int (it_count_at_index it)"
    using holdsD(6) [OF h k] it_at_Suc(1) [OF at] by simp
  finally show ?thesis using split [of vs] by simp
qed

lemma slot_sum_stop:
  assumes h: "holds h vs" and z: "\<And>j. k \<le> j \<Longrightarrow> j < length (counts h) \<Longrightarrow> counts h ! j = 0"
  shows "filter (\<lambda>v. int k \<le> slot_of h v) vs = []"
proof -
  have "\<not> int k \<le> slot_of h v" if v: "v \<in> set vs" for v
  proof
    assume "int k \<le> slot_of h v"
    then have "counts h ! nat (slot_of h v) = 0"
      using slot_of_bound [OF h v] by (intro z) auto
    then show False
      using count_zero_iff [OF h, of "nat (slot_of h v)"] slot_of_bound [OF h v] v by auto
  qed
  then show ?thesis by (simp add: filter_empty_conv)
qed

lemma mean_total_loop_eq:
  assumes h: "holds h vs" and at: "it_at h k it"
  shows "mean_total_loop it t = Some (t +
    sum_list (map (median_equivalent_value h) (filter (\<lambda>v. int k \<le> slot_of h v) vs)))"
  using holdsD(1) [OF h] at
proof (induction k it arbitrary: t rule: iter_induct)
  case (stop k it)
  then show ?case using slot_sum_stop [OF h stop(3)] by (simp add: mean_total_loop.simps [of it])
next
  case (step k it it')
  then show ?case
    using slot_sum_step [OF h step(3,4), of "\<lambda>x. x"] it_at_Suc(7) [OF step(4)]
    by (simp add: mean_total_loop.simps [of it])
qed

lemma hdr_mean_holds:
  assumes h: "holds h vs" and vs: "vs \<noteq> []"
  shows "hdr_mean h = Some (of_int (sum_list (map (median_equivalent_value h) vs)) / of_nat (length vs))"
proof -
  have "filter (\<lambda>v. int 0 \<le> slot_of h v) vs = vs"
    using slot_of_bound(1) [OF h] by (simp add: filter_True)
  then show ?thesis
    using mean_total_loop_eq [OF h it_at_init [OF holdsD(2) [OF h]], of 0] total_holds [OF h] vs
    by (simp add: hdr_mean_def)
qed

section \<open>Copying a histogram\<close>

lemma recorded_next_cases:
  assumes wf: "hdr_wf h" and at: "it_at h k (rec_iter r)"
  shows "(\<exists>r'. hdr_recorded_iter_next r = Some (False, r') \<and>
      (\<forall>j. k \<le> j \<and> j < length (counts h) \<longrightarrow> counts h ! j = 0)) \<or>
    (\<exists>r' k'. hdr_recorded_iter_next r = Some (True, r') \<and> k \<le> k' \<and> k' < length (counts h) \<and>
      it_at h (Suc k') (rec_iter r') \<and> counts h ! k' \<noteq> 0 \<and>
      (\<forall>j. k \<le> j \<and> j < k' \<longrightarrow> counts h ! j = 0))"
  using wf at
proof (induction k "rec_iter r" arbitrary: r rule: iter_induct)
  case (stop k)
  then show ?case by (simp add: hdr_recorded_iter_next.simps [of r])
next
  case (step k it')
  show ?case
  proof (cases "it_count_at_index it' = 0")
    case True
    have z: "counts h ! k = 0" using True it_at_Suc(1) [OF step(4)] by simp
    have eq: "hdr_recorded_iter_next r = hdr_recorded_iter_next (r\<lparr>rec_iter := it'\<rparr>)"
      using True step(2) by (simp add: hdr_recorded_iter_next.simps [of r])
    have ext: "(\<forall>j. k \<le> j \<and> j < n \<longrightarrow> counts h ! j = 0) \<longleftrightarrow>
        (\<forall>j. Suc k \<le> j \<and> j < n \<longrightarrow> counts h ! j = 0)" for n
      using z by (metis Suc_le_eq le_less)
    have le: "Suc k \<le> k' \<Longrightarrow> k \<le> k'" for k' by simp
    from eq step(5) [of "r\<lparr>rec_iter := it'\<rparr>"] show ?thesis
      unfolding ext by (auto intro: le)
  next
    case False
    then show ?thesis
      using step it_at_Suc(1) [OF step(4)] by (intro disjI2 exI [of _ k] exI) (auto simp: hdr_recorded_iter_next.simps [of r])
  qed
qed

lemma filter_slot_split:
  assumes h: "holds h vs" and kk: "k \<le> k'" "k' < length (counts h)"
    and z: "\<forall>j. k \<le> j \<and> j < k' \<longrightarrow> counts h ! j = 0"
  shows "mset (filter (\<lambda>v. int k \<le> slot_of h v) vs) =
    mset (filter (\<lambda>v. slot_of h v = int k') vs) + mset (filter (\<lambda>v. int (Suc k') \<le> slot_of h v) vs)"
proof -
  have "int k \<le> slot_of h v \<longleftrightarrow> slot_of h v = int k' \<or> int (Suc k') \<le> slot_of h v"
    if v: "v \<in> set vs" for v
  proof -
    have False if c: "int k \<le> slot_of h v" "slot_of h v < int k'"
    proof -
      have "counts h ! nat (slot_of h v) = 0"
        using z [rule_format, of "nat (slot_of h v)"] c by (simp add: le_nat_iff nat_less_iff)
      then show False
        using count_zero_iff [OF h, of "nat (slot_of h v)"] slot_of_bound [OF h v] v by auto
    qed
    then have "\<not> (int k \<le> slot_of h v \<and> slot_of h v < int k')" by blast
    with kk(1) show ?thesis by auto
  qed
  then have "filter (\<lambda>v. int k \<le> slot_of h v) vs =
      filter (\<lambda>v. slot_of h v = int k' \<or> int (Suc k') \<le> slot_of h v) vs"
    by (intro filter_cong) auto
  moreover have "mset (filter (\<lambda>v. slot_of h v = int k' \<or> int (Suc k') \<le> slot_of h v) ws) =
      mset (filter (\<lambda>v. slot_of h v = int k') ws) + mset (filter (\<lambda>v. int (Suc k') \<le> slot_of h v) ws)"
    for ws by (induction ws) auto
  ultimately show ?thesis by simp
qed

text \<open>One recorded slot of \<open>from\<close> is recorded in \<open>h\<close>.\<close>

lemma slot_copied:
  assumes fr: "holds from ws" and at: "it_at from (Suc k) it" and k: "k < length (counts from)" "counts from ! k \<noteq> 0"
    and h: "holds h us" and cap: "\<forall>w \<in> set ws. lowest_equivalent_value from w < hdr_capacity h"
  shows "\<exists>h1. hdr_record_values h (it_value_from_index it) (it_count_at_index it) = Some (True, h1) \<and>
    holds h1 (map (lowest_equivalent_value from) (filter (\<lambda>w. slot_of from w = int k) ws) @ us) \<and> hdr_capacity h1 = hdr_capacity h"
proof -
  note i = it_at_Suc [OF at]
  let ?v = "it_value_from_index it" and ?n = "it_count_at_index it" and ?here = "filter (\<lambda>w. slot_of from w = int k) ws"
  have n: "?n = int (length ?here)" using holdsD(6) [OF fr k(1)] i(1) by simp
  have "?here \<noteq> []" using k(2) i(1) n by auto
  then obtain w where w: "w \<in> set ws" "slot_of from w = int k" by (auto simp: filter_empty_conv)
  have "?v = lowest_equivalent_value from w" by (rule it_at_values(1) [OF fr at holdsD(4,5) [OF fr w(1)] w(2)])
  then have "?v < hdr_capacity h" using cap w(1) by simp
  from holds_record_values [OF h i(2) this, of ?n] n obtain h1 where h1: "hdr_record_values h ?v ?n = Some (True, h1)"
    "holds h1 (replicate (nat ?n) ?v @ us)" "hdr_capacity h1 = hdr_capacity h" by auto
  have "map (lowest_equivalent_value from) ?here = replicate (length ?here) ?v"
    unfolding map_replicate_const [symmetric]
    using it_at_values(1) [OF fr at holdsD(4,5) [OF fr]] by (intro map_cong) auto
  then show ?thesis using h1 n by simp
qed

lemma hdr_add_loop_eq:
  assumes fr: "holds from ws"
    and at: "it_at from k (rec_iter r)" and h: "holds h us"
    and cap: "\<forall>w \<in> set ws. lowest_equivalent_value from w < hdr_capacity h"
  shows "\<exists>h'. hdr_add_loop h r d = Some (d, h') \<and>
    holds h' (map (lowest_equivalent_value from) (filter (\<lambda>w. int k \<le> slot_of from w) ws) @ us) \<and>
    hdr_capacity h' = hdr_capacity h"
  using at h cap
proof (induction "length (counts from) - k" arbitrary: k r h us rule: less_induct)
  case less
  let ?low = "lowest_equivalent_value from"
  note wf = holdsD(1) [OF fr]
  consider r' where "hdr_recorded_iter_next r = Some (False, r')"
      "\<forall>j. k \<le> j \<and> j < length (counts from) \<longrightarrow> counts from ! j = 0"
    | r' k' where "hdr_recorded_iter_next r = Some (True, r')" "k \<le> k'"
      "k' < length (counts from)" "it_at from (Suc k') (rec_iter r')"
      "\<forall>j. k \<le> j \<and> j < k' \<longrightarrow> counts from ! j = 0" "counts from ! k' \<noteq> 0"
    using recorded_next_cases [OF wf less.prems(1)] by blast
  then show ?case
  proof cases
    case 1
    then have "filter (\<lambda>w. int k \<le> slot_of from w) ws = []" by (intro slot_sum_stop [OF fr]) blast
    with 1 less.prems(2) show ?thesis by (simp add: hdr_add_loop.simps [of h])
  next
    case (2 r' k')
    let ?here = "filter (\<lambda>w. slot_of from w = int k') ws" and ?rest = "filter (\<lambda>w. int (Suc k') \<le> slot_of from w) ws"
    obtain h1 where h1: "hdr_record_values h (it_value_from_index (rec_iter r')) (it_count_at_index (rec_iter r')) = Some (True, h1)"
      "holds h1 (map ?low ?here @ us)" "hdr_capacity h1 = hdr_capacity h"
      using slot_copied [OF fr 2(4,3,6) less.prems(2,3)] by blast
    have "length (counts from) - Suc k' < length (counts from) - k" using 2 by linarith
    from less.hyps [OF this 2(4) h1(2)] less.prems(3) h1(3) obtain h' where
      h': "hdr_add_loop h1 r' d = Some (d, h')" "holds h' (map ?low ?rest @ map ?low ?here @ us)"
      "hdr_capacity h' = hdr_capacity h"
      by auto
    have "mset (map ?low ?rest @ map ?low ?here @ us) = mset (map ?low (filter (\<lambda>w. int k \<le> slot_of from w) ws) @ us)"
      using filter_slot_split [OF fr 2(2,3,5)] by simp
    from holds_mset [OF this h'(2)] h' h1 2(1) show ?thesis
      by (simp add: hdr_add_loop.simps [of h])
  qed
qed

lemma hdr_add_holds:
  assumes "holds from ws" "holds h vs" "\<forall>w \<in> set ws. w < hdr_capacity h"
  shows "\<exists>h'. hdr_add h from = Some (0, h') \<and>
    holds h' (map (lowest_equivalent_value from) ws @ vs) \<and> hdr_capacity h' = hdr_capacity h"
proof -
  have cap: "\<forall>w \<in> set ws. lowest_equivalent_value from w < hdr_capacity h"
    using assms(3) equivalent_range_contains(1) [OF holdsD(2,3) [OF assms(1)] holdsD(4,5) [OF assms(1)]]
    by fastforce
  have at: "it_at from 0 (rec_iter (hdr_recorded_iter_init from))"
    using it_at_init [OF holdsD(2) [OF assms(1)]] by (simp add: hdr_recorded_iter_init_def)
  have "filter (\<lambda>w. int 0 \<le> slot_of from w) ws = ws"
    using slot_of_bound(1) [OF assms(1)] by (simp add: filter_True)
  with hdr_add_loop_eq [OF assms(1) at assms(2) cap, of 0] show ?thesis
    by (simp add: hdr_add_def)
qed

end
