(* ===== verification/Hdr_Props.thy ===== *)
theory Hdr_Props
  imports Hdr_Queries
begin

text \<open>
  The properties of the histogram: initialisation, recording, correction for coordinated
  omission, copying, resetting, and the answers of the queries.
\<close>

lemma holds_empty: "hdr_wf h \<Longrightarrow> \<forall>c \<in> set (counts h). c = 0 \<Longrightarrow> holds h []"
  by (simp add: holds_def)

lemma hdr_init_holds:
  assumes "1 \<le> figures" "figures \<le> 5" "1 \<le> lowest" "lowest < 2 ^ 14"
    "highest \<le> 2 ^ 30 * 10 ^ nat figures"
  shows "\<exists>h. hdr_init True lowest highest figures = Some (Inr h) \<and> holds h [] \<and>
    highest < hdr_capacity h"
  using hdr_init_establishes [OF assms] holds_empty by blast

lemma holds_init:
  assumes "1 \<le> figures" "figures \<le> 5" "1 \<le> lowest" "lowest < 2 ^ 14"
    "highest \<le> 2 ^ 30 * 10 ^ nat figures"
    and "hdr_init True lowest highest figures = Some (Inr h)"
  shows "holds h []" "highest < hdr_capacity h"
  using hdr_init_holds [OF assms(1-5)] assms(6) by auto

text \<open>Recording within the trackable range never fails, and the new histogram holds the values.\<close>

lemma init_record_holds:
  assumes "1 \<le> figures" "figures \<le> 5" "1 \<le> lowest" "lowest < 2 ^ 14"
    "highest \<le> 2 ^ 30 * 10 ^ nat figures"
    and "hdr_init True lowest highest figures = Some (Inr h)"
    and "\<forall>v \<in> set vs. 0 \<le> v \<and> v \<le> highest"
  shows "\<exists>h'. record_all h vs = Some (True, h') \<and> holds h' vs"
proof -
  note init = holds_init [OF assms(1-6)]
  have "\<forall>v \<in> set vs. 0 \<le> v \<and> v < hdr_capacity h" using assms(7) init(2) by auto
  from holds_record_all [OF init(1) this] show ?thesis by auto
qed

section \<open>Coordinated omission\<close>

definition expected_values :: "int \<Rightarrow> int \<Rightarrow> int list" where
  "expected_values v i = map (\<lambda>j. v - int j * i) [0..<nat (v div i)]"

lemma expected_values_step:
  assumes "0 < i"
  shows "expected_values v i = (if i \<le> v then v # expected_values (v - i) i else [])"
proof (cases "i \<le> v")
  case True
  have d: "(v - i) div i = v div i - 1" using assms div_add_self2 [of i "v - i"] by simp
  have q: "1 \<le> v div i" using True assms le_zdiv_iff [of i 1 v] by simp
  then have n: "nat (v div i) = Suc (nat (v div i - 1))" by linarith
  have m: "map (\<lambda>j. v - int j * i) [0..<Suc m] = v # map (\<lambda>j. v - i - int j * i) [0..<m]" for m
    by (simp add: upt_conv_Cons map_Suc_upt [symmetric] algebra_simps del: upt_Suc)
  have "expected_values v i = v # expected_values (v - i) i"
    unfolding expected_values_def d n m ..
  with True show ?thesis by simp
next
  case False
  then have "v div i < 1" using assms zdiv_less_iff [of i v 1] by simp
  with False show ?thesis by (simp add: expected_values_def)
qed

lemma record_missing_holds:
  assumes "holds h vs" "0 < i" "v < hdr_capacity h"
  shows "\<exists>h'. record_missing h v i = Some (True, h') \<and> (\<exists>us. holds h' us \<and> mset us = mset (expected_values v i @ vs))"
  using assms
proof (induction "nat v" arbitrary: h v vs rule: less_induct)
  case less
  show ?case
  proof (cases "i \<le> v")
    case False
    then show ?thesis using less.prems
      by (auto simp: record_missing.simps [of h] expected_values_step [of i v])
  next
    case True
    then have v: "0 \<le> v" using less.prems by simp
    obtain h1 where h1: "hdr_record_values h v 1 = Some (True, h1)"
      "holds h1 (replicate (nat 1) v @ vs)" "hdr_capacity h1 = hdr_capacity h"
      by (rule holds_record_values [OF less.prems(1) v less.prems(3), of 1]) simp_all
    have "nat (v - i) < nat v" "v - i < hdr_capacity h1" using True less.prems h1(3) by simp_all
    from less.hyps [OF this(1) h1(2) less.prems(2) this(2)] obtain h' us where
      "record_missing h1 (v - i) i = Some (True, h')" "holds h' us"
      "mset us = mset (expected_values (v - i) i @ replicate (nat 1) v @ vs)" by blast
    then show ?thesis
      using True less.prems(2) h1(1) expected_values_step [of i v]
      by (auto simp: record_missing.simps [of h] hdr_record_value_as_values)
  qed
qed

lemma hdr_record_corrected_holds:
  assumes h: "holds h vs" and v: "0 \<le> v" "v < hdr_capacity h"
  shows "\<exists>h'. hdr_record_corrected_value h v i = Some (True, h') \<and>
    holds h' (v # (if 0 < i then expected_values (v - i) i else []) @ vs)"
proof -
  obtain h1 where h1: "hdr_record_values h v 1 = Some (True, h1)"
    "holds h1 (replicate (nat 1) v @ vs)" "hdr_capacity h1 = hdr_capacity h"
    by (rule holds_record_values [OF h v, of 1]) simp_all
  show ?thesis
  proof (cases "i \<le> 0 \<or> v \<le> i")
    case True
    then have "0 < i \<Longrightarrow> expected_values (v - i) i = []" by (simp add: expected_values_step)
    then show ?thesis using True h1
      by (simp add: hdr_record_corrected_value_def hdr_record_value_as_values)
  next
    case False
    have "v - i < hdr_capacity h1" using False v(2) h1(3) by simp
    then obtain h' us where "record_missing h1 (v - i) i = Some (True, h')" "holds h' us"
      "mset us = mset (expected_values (v - i) i @ replicate (nat 1) v @ vs)"
      using record_missing_holds [OF h1(2), of i "v - i"] False by auto
    then show ?thesis using False h1(1)
      holds_mset [of us "v # expected_values (v - i) i @ vs" h']
      by (simp add: hdr_record_corrected_value_def hdr_record_value_as_values)
  qed
qed

lemma hdr_count_at_value_eq:
  assumes "hdr_wf h" "0 \<le> w" "w < hdr_capacity h"
  shows "hdr_count_at_value h w = Some (slot_count h w)"
  using counts_index_for_eq [OF hdr_wfD(1) [OF assms(1)] assms(2,3)] hdr_wfD(3) [OF assms(1)]
  by (simp add: hdr_count_at_value_def slot_count_def)

lemma same_capacity:
  assumes "(\<lambda>v. 0 \<le> v \<and> v < a) = (\<lambda>v. 0 \<le> v \<and> v < (b::int))" "0 \<le> w" "w < b"
  shows "w < a"
  using fun_cong [OF assms(1), of w] assms(2,3) by simp

section \<open>Properties\<close>

text \<open>\<open>hdr_init\<close> with one to five significant figures succeeds, and the histogram it
  returns is well formed, empty, and has a slot for every value up to \<open>highest\<close>.\<close>

theorem hdr_init_correct:
  assumes "1 \<le> figures" "figures \<le> 5" "1 \<le> lowest" "lowest < 2 ^ 14"
    "highest \<le> 2 ^ 30 * 10 ^ nat figures"
  shows "\<exists>h. hdr_init True lowest highest figures = Some (Inr h) \<and> holds h [] \<and>
    total_count h = 0 \<and> highest < hdr_capacity h"
  using hdr_init_holds [OF assms] total_holds by fastforce

theorem hdr_init_correct_witness:
  "\<exists>h. hdr_init True 1 86400000000 3 = Some (Inr h) \<and> holds h [] \<and>
    total_count h = 0 \<and> 86400000000 < hdr_capacity h"
  by (rule hdr_init_correct) simp_all

lemma small_init: "\<exists>h. hdr_init True 1 1000 2 = Some (Inr h)"
  using hdr_init_holds [of 2 1 1000] by auto



text \<open>\<open>hdr_min\<close>, \<open>hdr_max\<close> and \<open>hdr_mean\<close> of a histogram that holds a
  non-empty list of values are the minimum and maximum up to their slots, and the mean of
  the slots' medians.\<close>

theorem extremes_of_recorded:
  assumes "holds h vs" "vs \<noteq> []"
  shows "hdr_min h = Some (lowest_equivalent_value h (Min (set vs))) \<and>
    hdr_max h = Some (lowest_equivalent_value h (Max (set vs))) \<and>
    hdr_mean h = Some (of_int (sum_list (map (median_equivalent_value h) vs)) / of_nat (length vs))"
  using hdr_min_holds [OF assms] hdr_max_holds [OF assms(1)] hdr_mean_holds [OF assms] assms(2)
  by simp

theorem extremes_of_recorded_witness:
  "\<exists>h. holds h [300, 7] \<and> hdr_min h = Some (lowest_equivalent_value h 7) \<and>
    hdr_max h = Some (lowest_equivalent_value h 300)"
proof -
  obtain h0 where h0: "hdr_init True 1 1000 2 = Some (Inr h0)" using small_init by blast
  obtain h where h: "holds h [300, 7]"
    using init_record_holds [of 2 1 1000 h0 "[300, 7]"] h0 by auto
  with extremes_of_recorded [OF h] show ?thesis by (intro exI [of _ h]) simp
qed

text \<open>C14: Recording acceptable values succeeds, keeps the histogram well formed, and adds to
  the count of every value exactly the number of recorded values equivalent to it.\<close>

theorem record_all_counts:
  assumes "hdr_wf h" "\<forall>v \<in> set vs. 0 \<le> v \<and> v < hdr_capacity h"
  shows "\<exists>h'. record_all h vs = Some (True, h') \<and> hdr_wf h' \<and>
    total_count h' = total_count h + int (length vs) \<and>
    (\<forall>w. 0 \<le> w \<and> w < hdr_capacity h \<longrightarrow>
       hdr_count_at_value h' w =
         Some (slot_count h w + int (length (filter (\<lambda>v. hdr_values_are_equivalent h v w) vs))))"
proof -
  obtain h' where h': "hdr_rec.recv_all h vs = Some (True, h')" "hdr_wf h'"
    "total_count h' = total_count h + int (length vs)"
    "(\<lambda>v. 0 \<le> v \<and> v < hdr_capacity h') = (\<lambda>v. 0 \<le> v \<and> v < hdr_capacity h)"
    "\<And>w. 0 \<le> w \<and> w < hdr_capacity h \<Longrightarrow> slot_count h' w =
       slot_count h w + int (length (filter (\<lambda>v. hdr_values_are_equivalent h v w) vs))"
    using hdr_rec.recv_all_ok [OF assms] by blast
  have "hdr_count_at_value h' w = Some (slot_count h' w)" if "0 \<le> w \<and> w < hdr_capacity h" for w
    using hdr_count_at_value_eq [OF h'(2)] that same_capacity [OF h'(4)] by blast
  with h' show ?thesis by (simp add: record_all_recv)
qed

theorem record_all_counts_witness:
  "\<exists>h. hdr_wf h \<and> (\<exists>h'. record_all h [5, 700] = Some (True, h') \<and> total_count h' = total_count h + 2)"
proof -
  obtain h where "hdr_init True 1 1000 2 = Some (Inr h)" using small_init by blast
  then have h: "holds h []" "1000 < hdr_capacity h" using holds_init [of 2 1 1000 h] by simp_all
  then show ?thesis
    using record_all_counts [OF holdsD(1) [OF h(1)], of "[5, 700]"] holdsD(1) [OF h(1)]
    by (intro exI [of _ h]) auto
qed

text \<open>C22: The values that share a slot with \<open>v\<close> form the interval between its lowest and
  highest equivalent values, and that interval is narrower than one unit or than \<open>v\<close>
  divided by ten to the number of significant figures.\<close>

theorem slot_precision:
  assumes "hdr_wf h" "0 \<le> v" "v < hdr_capacity h"
  shows "(\<forall>w. 0 \<le> w \<and> w < hdr_capacity h \<longrightarrow> hdr_values_are_equivalent h v w =
      (lowest_equivalent_value h v \<le> w \<and> w \<le> highest_equivalent_value h v)) \<and>
    (highest_equivalent_value h v - lowest_equivalent_value h v < 2 ^ nat (unit_magnitude h) \<or>
     (highest_equivalent_value h v - lowest_equivalent_value h v)
       * 10 ^ nat (significant_figures h) < v)"
proof -
  note cfg = hdr_wfD(1,2) [OF assms(1)]
  have "hdr_values_are_equivalent h v w =
      (lowest_equivalent_value h v \<le> w \<and> w \<le> highest_equivalent_value h v)"
    if w: "0 \<le> w" "w < hdr_capacity h" for w
  proof -
    have "w < 2 ^ 63" using w hdr_capacity_le [OF cfg(1)] by simp
    then show ?thesis
      using slot_of_eq_iff [OF cfg assms(2,3) w(1)] equivalent_iff_slot [OF cfg assms(2,3) w]
      by (simp add: eq_commute)
  qed
  with equivalent_range_precision [OF cfg assms(2,3)] show ?thesis by blast
qed

theorem slot_precision_witness:
  "\<exists>h. hdr_wf h \<and> hdr_values_are_equivalent h 900 900 \<and> lowest_equivalent_value h 900 \<le> 900 \<and>
    (highest_equivalent_value h 900 - lowest_equivalent_value h 900 < 2 ^ nat (unit_magnitude h) \<or>
     (highest_equivalent_value h 900 - lowest_equivalent_value h 900)
       * 10 ^ nat (significant_figures h) < 900)"
proof -
  obtain h where "hdr_init True 1 1000 2 = Some (Inr h)" using small_init by blast
  then have h: "holds h []" "1000 < hdr_capacity h" using holds_init [of 2 1 1000 h] by simp_all
  have "hdr_values_are_equivalent h 900 900" by (simp add: hdr_values_are_equivalent_def)
  with slot_precision [OF holdsD(1) [OF h(1)], of 900] h show ?thesis
    using holdsD(1) [OF h(1)] by (intro exI [of _ h]) auto
qed

text \<open>A value outside the capacity of the histogram is not refused with \<open>false\<close>:
  recording it, alone or corrected, fails the assertion of \<open>counts_index\<close>.\<close>

theorem untrackable_value_aborts:
  assumes "hdr_wf h" "- (2 ^ 63) \<le> v" "v < 2 ^ 63" "v < 0 \<or> hdr_capacity h \<le> v"
  shows "hdr_record_value h v = None \<and> hdr_record_values h v n = None \<and>
    hdr_record_corrected_value h v i = None"
  using hdr_record_values_out_of_range [OF hdr_wfD(1) [OF assms(1)] assms(2-4)]
  by (simp add: hdr_record_value_as_values hdr_record_corrected_value_def)

theorem untrackable_value_aborts_witness:
  "\<exists>h. hdr_init True 1 1000 2 = Some (Inr h) \<and> hdr_record_value h (2 ^ 62) = None"
proof -
  obtain h where i: "hdr_init True 1 1000 2 = Some (Inr h)" using small_init by blast
  then have h: "holds h []" using holds_init [of 2 1 1000 h] by simp
  with untrackable_value_aborts [OF holdsD(1) [OF h], of "2 ^ 62"] hdr_capacity_le [of h] holdsD(2) [OF h] i
  show ?thesis by (intro exI [of _ h]) simp
qed

text \<open>\<open>hdr_record_corrected_value\<close> of a latency above a positive expected interval also
  records the latencies the blocked client would have seen, one per interval, down to the interval.\<close>

theorem corrected_value_backfills:
  assumes "holds h vs" "0 \<le> v" "v < hdr_capacity h"
  shows "\<exists>h'. hdr_record_corrected_value h v i = Some (True, h') \<and>
    holds h' (v # (if 0 < i then map (\<lambda>j. v - i - int j * i) [0..<nat ((v - i) div i)] else []) @ vs)
    \<and> total_count h' = total_count h + (if 0 < i \<and> i \<le> v then v div i else 1)"
proof -
  obtain h' where h': "hdr_record_corrected_value h v i = Some (True, h')"
    "holds h' (v # (if 0 < i then expected_values (v - i) i else []) @ vs)"
    using hdr_record_corrected_holds [OF assms] by blast
  have "(v - i) div i = v div i - 1" if "0 < i" using that div_add_self2 [of i "v - i"] by simp
  moreover have "1 \<le> v div i" if "0 < i" "i \<le> v" using that le_zdiv_iff [of i 1 v] by simp
  moreover have "v div i = 0" if "0 < i" "\<not> i \<le> v" using that assms(2) by simp
  ultimately have "total_count h' = total_count h + (if 0 < i \<and> i \<le> v then v div i else 1)"
    using total_holds [OF h'(2)] total_holds [OF assms(1)]
    by (auto simp: expected_values_def)
  with h' show ?thesis by (auto simp: expected_values_def)
qed

theorem corrected_value_backfills_witness:
  "\<exists>h h'. holds h [] \<and> hdr_record_corrected_value h 900 300 = Some (True, h') \<and>
    holds h' [900, 600, 300] \<and> total_count h' = 3"
proof -
  obtain h where "hdr_init True 1 1000 2 = Some (Inr h)" using small_init by blast
  then have h: "holds h []" "1000 < hdr_capacity h" using holds_init [of 2 1 1000 h] by simp_all
  have l: "map (\<lambda>j. 900 - 300 - int j * 300) [0..<nat ((900 - 300) div 300)] = [600, 300]"
    by (simp add: upt_rec)
  obtain h' where "hdr_record_corrected_value h 900 300 = Some (True, h')"
    "holds h' [900, 600, 300]" "total_count h' = 3"
    using corrected_value_backfills [OF h(1), of 900 300] h(2) total_holds [OF h(1)] l by auto
  with h(1) show ?thesis by blast
qed

text \<open>\<open>hdr_add\<close> copies every recorded value of one histogram into another, up to the
  slot width of the source, and drops none, when the target has slots for them.\<close>

theorem hdr_add_copies:
  assumes "holds from ws" "holds h vs" "\<forall>w \<in> set ws. w < hdr_capacity h"
  shows "\<exists>h'. hdr_add h from = Some (0, h') \<and>
    holds h' (map (lowest_equivalent_value from) ws @ vs)"
  using hdr_add_holds [OF assms] by blast

theorem hdr_add_copies_witness:
  "\<exists>h from h'. holds from [800, 9] \<and> hdr_add h from = Some (0, h') \<and> total_count h' = 2"
proof -
  obtain h where i: "hdr_init True 1 1000 2 = Some (Inr h)" using small_init by blast
  then have h: "holds h []" "1000 < hdr_capacity h" using holds_init [of 2 1 1000 h] by simp_all
  obtain g where g: "holds g [800, 9]"
    using init_record_holds [of 2 1 1000 h "[800, 9]"] i by auto
  obtain h' where "hdr_add h g = Some (0, h')" "holds h' (map (lowest_equivalent_value g) [800, 9] @ [])"
    using hdr_add_copies [OF g h(1)] h(2) by auto
  with g total_holds show ?thesis by fastforce
qed

text \<open>\<open>hdr_reset\<close> empties a histogram without changing where values are stored.\<close>

theorem hdr_reset_empties:
  assumes "hdr_wf h"
  shows "holds (hdr_reset h) [] \<and> hdr_capacity (hdr_reset h) = hdr_capacity h \<and>
    slot_of (hdr_reset h) v = slot_of h v \<and>
    hdr_get_memory_size (hdr_reset h) = hdr_get_memory_size h"
proof -
  have "0 \<le> counts_len h" using hdr_wfD(3) [OF assms] by simp
  then have "hdr_wf (hdr_reset h)"
    using assms by (auto simp: hdr_wf_def hdr_reset_def hdr_config_def hdr_narrow_def sum_list_replicate)
  then show ?thesis
    by (simp add: holds_empty hdr_reset_def hdr_get_memory_size_def)
qed

theorem hdr_reset_empties_witness:
  "\<exists>h. holds h [42] \<and> holds (hdr_reset h) []"
proof -
  obtain h0 where h0: "hdr_init True 1 1000 2 = Some (Inr h0)" using small_init by blast
  obtain h where h: "holds h [42]" using init_record_holds [of 2 1 1000 h0 "[42]"] h0 by auto
  with hdr_reset_empties [OF holdsD(1) [OF h]] show ?thesis by blast
qed

end
