(* ===== verification/Hdr_Print.thy ===== *)
theory Hdr_Print
  imports Hdr_Props
begin

text \<open>
  The standard deviation and the table of percentiles of \<open>hdr_histogram.c\<close> (\<open>hdr_stddev\<close>, \<open>hdr_percentiles_print\<close>). The
  stream is a parameter that takes a line and says whether it was written. The square root is a real number, the
  rest are exact rationals; \<open>None\<close> in a line is an infinity or not a number.
\<close>

section \<open>The functions\<close>

partial_function (option) dev_total_loop :: "hdr_iter \<Rightarrow> rat \<Rightarrow> rat \<Rightarrow> rat option" where
  "dev_total_loop it mean tot = do {
     (more, it') \<leftarrow> hdr_iter_next it;
     if more
     then (let dev = of_int (median_equivalent_value (it_h it') (it_value_from_index it')) - mean
           in dev_total_loop it' mean
                (if it_count_at_index it' \<noteq> 0 then tot + dev * dev * of_int (it_count_at_index it') else tot))
     else Some tot
   }"

declare dev_total_loop.simps [code]

definition hdr_stddev :: "hdr_histogram \<Rightarrow> real option" where
  "hdr_stddev h = do {
     mean \<leftarrow> hdr_mean h;
     tot \<leftarrow> dev_total_loop (hdr_iter_init h) mean 0;
     Some (sqrt (of_rat (tot / of_int (total_count h))))
   }"

datatype format_type = CLASSIC | CSV

fun decimal :: "nat \<Rightarrow> string" where
  "decimal n = (if n < 10 then [char_of (48 + n)] else decimal (n div 10) @ [char_of (48 + n mod 10)])"

declare decimal.simps [simp del]

text \<open>\<open>snprintf\<close> writes at most 24 characters and the end of the string.\<close>

definition format_line_string :: "int \<Rightarrow> format_type \<Rightarrow> string" where
  "format_line_string figures f = take 24
     (case f of CSV \<Rightarrow> ''%.'' @ decimal (nat figures) @ ''f,%f,%d,%.2f'' @ [CHR 0x0A]
      | CLASSIC \<Rightarrow> ''%12.'' @ decimal (nat figures) @ ''f %12f %12d %12.2f'' @ [CHR 0x0A])"

definition format_head_string :: "format_type \<Rightarrow> string" where
  "format_head_string f =
     (case f of CSV \<Rightarrow> ''%s,%s,%s,%s'' @ [CHR 0x0A] | CLASSIC \<Rightarrow> ''%12s %12s %12s %12s'' @ [CHR 0x0A, CHR 0x0A])"

datatype out_line =
    Head string
  | Row string rat rat int "rat option"
  | Footer "rat option" "real option" "rat option" int int int

definition EIO :: int where "EIO = 5"

text \<open>The line of a position, with \<open>1 / (1 - percentile)\<close>, which is infinite for the last one.\<close>

definition percentile_row :: "string \<Rightarrow> rat \<Rightarrow> hdr_percentile_iter \<Rightarrow> out_line" where
  "percentile_row line value_scale p =
     (let percentile = pct_percentile p / 100
      in Row line (of_int (it_highest_equivalent_value (pct_iter p)) / value_scale) percentile
           (it_count_to_index (pct_iter p)) (if percentile = 1 then None else Some (1 / (1 - percentile))))"

partial_function (option) print_loop ::
  "(out_line \<Rightarrow> 'o \<Rightarrow> bool \<times> 'o) \<Rightarrow> string \<Rightarrow> rat \<Rightarrow> hdr_percentile_iter \<Rightarrow> 'o \<Rightarrow> (bool \<times> 'o) option" where
  "print_loop put line value_scale p ow = do {
     (more, p') \<leftarrow> hdr_percentile_iter_next p;
     if \<not> more then Some (True, ow)
     else (let (ok, o') = put (percentile_row line value_scale p') ow
           in if ok then print_loop put line value_scale p' o' else Some (False, o'))
   }"

declare print_loop.simps [code]

definition footer :: "hdr_histogram \<Rightarrow> rat \<Rightarrow> out_line" where
  "footer h value_scale =
     Footer (map_option (\<lambda>m. m / value_scale) (hdr_mean h)) (map_option (\<lambda>d. d / of_rat value_scale) (hdr_stddev h))
       (map_option (\<lambda>m. of_int m / value_scale) (hdr_max h)) (total_count h) (bucket_count h) (sub_bucket_count h)"

definition hdr_percentiles_print ::
  "(out_line \<Rightarrow> 'o \<Rightarrow> bool \<times> 'o) \<Rightarrow> hdr_histogram \<Rightarrow> int \<Rightarrow> rat \<Rightarrow> format_type \<Rightarrow> 'o \<Rightarrow> (int \<times> 'o) option" where
  "hdr_percentiles_print put h ticks value_scale f ow =
     (let (ok, o1) = put (Head (format_head_string f)) ow
      in if value_scale = 0 then None
         else if \<not> ok then Some (EIO, o1)
         else do {
           (ok, o2) \<leftarrow> print_loop put (format_line_string (significant_figures h) f) value_scale (hdr_percentile_iter_init h ticks) o1;
           if \<not> ok then Some (EIO, o2)
           else if f = CLASSIC
             then (let (ok, o3) = put (footer h value_scale) o2 in Some (if ok then 0 else EIO, o3))
             else Some (0, o2)
         })"

section \<open>The deviation\<close>

lemma dev_total_loop_eq:
  assumes h: "holds h vs" and at: "it_at h k it"
  shows "dev_total_loop it m t = Some (t +
    sum_list (map (\<lambda>v. (of_int (median_equivalent_value h v) - m)\<^sup>2) (filter (\<lambda>v. int k \<le> slot_of h v) vs)))"
  using holdsD(1) [OF h] at
proof (induction k it arbitrary: t rule: iter_induct)
  case (stop k it)
  then show ?case using slot_sum_stop [OF h stop(3)] by (simp add: dev_total_loop.simps [of it])
next
  case (step k it it')
  then show ?case
    using slot_sum_step [OF h step(3,4), of "\<lambda>x. (of_int x - m)\<^sup>2"] it_at_Suc(7) [OF step(4)]
    by (simp add: dev_total_loop.simps [of it] Let_def power2_eq_square ac_simps)
qed

lemma hdr_stddev_holds:
  assumes h: "holds h vs" and vs: "vs \<noteq> []"
  defines "m \<equiv> of_int (sum_list (map (median_equivalent_value h) vs)) / of_nat (length vs)"
  shows "hdr_stddev h = Some (sqrt (of_rat
    (sum_list (map (\<lambda>v. (of_int (median_equivalent_value h v) - m)\<^sup>2) vs) / of_nat (length vs))))"
proof -
  have "filter (\<lambda>v. int 0 \<le> slot_of h v) vs = vs" using slot_of_bound(1) [OF h] by (simp add: filter_True)
  then show ?thesis
    using dev_total_loop_eq [OF h it_at_init [OF holdsD(2) [OF h]], of m 0] hdr_mean_holds [OF h vs] total_holds [OF h]
    by (simp add: hdr_stddev_def m_def)
qed


section \<open>The table of percentiles\<close>

lemma half_distance_bounds:
  assumes "0 \<le> p" "p < 100"
  shows "100 / (100 - p) < of_int (half_distance_of p)" "of_int (half_distance_of p) \<le> 2 * (100 / (100 - p))"
proof -
  define x where "x = \<lfloor>100 / (100 - p)\<rfloor>"
  have x: "1 \<le> x" using assms by (simp add: x_def)
  note b = floor_log2_bounds [OF x]
  have e: "half_distance_of p = 2 ^ Suc (nat (floor_log2 x))"
    using b(1) by (simp add: half_distance_of_def x_def [symmetric] nat_add_distrib)
  have "100 / (100 - p) < of_int (x + 1)"
    using floor_correct [of "100 / (100 - p)"] unfolding x_def of_int_add of_int_1 by linarith
  also have "\<dots> \<le> of_int (half_distance_of p)" using b(3) unfolding e of_int_le_iff by simp
  finally show "100 / (100 - p) < of_int (half_distance_of p)" .
  have "half_distance_of p \<le> 2 * x" using b(2) unfolding e by simp
  then have "of_int (half_distance_of p) \<le> (of_int (2 * x) :: rat)" by (simp only: of_int_le_iff)
  also have "\<dots> \<le> 2 * (100 / (100 - p))"
    using floor_correct [of "100 / (100 - p)"] unfolding x_def of_int_mult of_int_numeral by linarith
  finally show "of_int (half_distance_of p) \<le> 2 * (100 / (100 - p))" .
qed

text \<open>The percentile that comes after \<open>p\<close>.\<close>

definition next_percentile :: "int \<Rightarrow> rat \<Rightarrow> rat" where
  "next_percentile ticks p = p + 100 / of_int (ticks * half_distance_of p)"

lemma next_percentile_bounds:
  assumes p: "0 \<le> p" "p < 100" and t: "0 < ticks"
  shows "0 \<le> next_percentile ticks p" "next_percentile ticks p < 100"
    "p + (100 - p) / (2 * of_int ticks) \<le> next_percentile ticks p"
proof -
  note b = half_distance_bounds [OF p]
  have "0 < 100 / (100 - p)" using p by simp
  then have hd: "0 < (of_int (half_distance_of p) :: rat)" using b(1) by (rule less_trans)
  have t1: "1 \<le> (of_int ticks :: rat)" using t by simp
  have d0: "0 < (of_int (ticks * half_distance_of p) :: rat)" using hd t1 by simp
  then show "0 \<le> next_percentile ticks p" using p by (simp add: next_percentile_def)
  have "100 / (100 - p) < of_int ticks * of_int (half_distance_of p)"
    using b(1) mult_right_mono [OF t1, of "of_int (half_distance_of p)"] hd by linarith
  then have "100 < (of_int ticks * of_int (half_distance_of p)) * (100 - p)" using p by (subst (asm) pos_divide_less_eq) simp_all
  then have "100 / (of_int (ticks * half_distance_of p) :: rat) < 100 - p"
    using d0 by (subst pos_divide_less_eq) (simp_all add: mult.commute)
  then show "next_percentile ticks p < 100" unfolding next_percentile_def by linarith
  have "of_int ticks * of_int (half_distance_of p) \<le> of_int ticks * (2 * (100 / (100 - p)))"
    using b(2) t1 by (intro mult_left_mono) auto
  then have "(100 - p) / (2 * of_int ticks) \<le> 100 / (of_int (ticks * half_distance_of p) :: rat)"
    using d0 p t1 by (simp add: field_simps)
  then show "p + (100 - p) / (2 * of_int ticks) \<le> next_percentile ticks p" unfolding next_percentile_def by linarith
qed


text \<open>The count up to a position is the number of values that are not above its highest value.\<close>

lemma count_to_values:
  assumes h: "holds h vs" and at: "it_at h (Suc k) it" and k: "k < length (counts h)"
  shows "it_count_to_index it = int (length (filter (\<lambda>v. v \<le> it_highest_equivalent_value it) vs))"
proof -
  note i = it_at_Suc [OF at] and cfg = holdsD(2) [OF h] and nar = holdsD(3) [OF h]
  let ?x = "it_value_from_index it" and ?e = "highest_equivalent_value h (it_value_from_index it)"
  note e = highest_equivalent_same_slot [OF cfg nar i(2,3)]
  have "slot_of h v < int (Suc k) \<longleftrightarrow> v \<le> ?e" if v: "v \<in> set vs" for v
  proof
    assume "v \<le> ?e"
    then have "slot_of h v \<le> slot_of h ?e" using holdsD(4) [OF h v] e(2) by (intro slot_of_mono [OF cfg]) auto
    then show "slot_of h v < int (Suc k)" using e(3) i(4) by simp
  next
    assume lt: "slot_of h v < int (Suc k)"
    show "v \<le> ?e"
    proof (rule ccontr)
      assume "\<not> v \<le> ?e"
      then have "slot_of h ?e \<le> slot_of h v" using e(1) holds_range [OF h v] by (intro slot_of_mono [OF cfg]) auto
      then have "slot_of h v = slot_of h ?x" using e(3) i(4) lt by simp
      then show False using slot_of_eq_iff [OF cfg nar i(2,3) holdsD(4) [OF h v] holds_range [OF h v]] \<open>\<not> v \<le> ?e\<close> by simp
    qed
  qed
  then have "filter (\<lambda>v. slot_of h v < int (Suc k)) vs = filter (\<lambda>v. v \<le> it_highest_equivalent_value it) vs"
    unfolding i(6) by (intro filter_cong) auto
  then show ?thesis using sum_take_holds [OF h, of "Suc k"] k i(8) by simp
qed

text \<open>A position at which a line is printed.\<close>

definition at_row :: "hdr_histogram \<Rightarrow> hdr_iter \<Rightarrow> bool" where
  "at_row h it \<longleftrightarrow> (\<exists>k < length (counts h). it_at h (Suc k) it \<and> it_count_at_index it \<noteq> 0)"

lemma has_next_step:
  assumes h: "holds h vs" and at: "it_at h k it" "it_at h (Suc k) it'" and k: "k < length (counts h)"
    and n: "has_next it"
  shows "has_next it' \<or> it_count_at_index it' \<noteq> 0"
  using at k n it_at_Suc [OF at(2)] by (auto simp: has_next_def it_at_def take_Suc_conv_app_nth)

lemma percent_of_all:
  assumes h: "holds h vs" and vs: "vs \<noteq> []" and at: "it_at h k it" and n: "\<not> has_next it"
    and t: "t < 100"
  shows "(t :: rat) \<le> 100 * of_int (it_count_to_index it) / of_int (total_count h)"
proof -
  have "0 < total_count h" "total_count h \<le> it_count_to_index it"
    using total_holds [OF h] vs n at by (auto simp: has_next_def it_at_def)
  then have "100 \<le> 100 * of_int (it_count_to_index it) / (of_int (total_count h) :: rat)" by (simp add: field_simps)
  with t show ?thesis by simp
qed

definition moved :: "hdr_percentile_iter \<Rightarrow> hdr_iter \<Rightarrow> hdr_percentile_iter" where
  "moved p it = p\<lparr>pct_iter := it, pct_percentile := percentile_to_iterate_to p,
     percentile_to_iterate_to := next_percentile (ticks_per_half_distance p) (percentile_to_iterate_to p)\<rparr>"

lemma pct_loop_stops:
  assumes h: "holds h vs" and vs: "vs \<noteq> []" and at: "it_at h k it"
    and c: "pct_iter p = it" "0 < k" "k \<le> length (counts h)" "has_next it \<or> it_count_at_index it \<noteq> 0" "percentile_to_iterate_to p < 100"
  shows "\<exists>it'. pct_loop p = Some (True, moved p it') \<and> at_row h it' \<and>
    percentile_to_iterate_to p \<le> 100 * of_int (it_count_to_index it') / of_int (total_count h)"
  using holdsD(1) [OF h] at c
proof (induction k it arbitrary: p rule: iter_induct)
  case (stop k it)
  have h': "it_h it = h" using stop(1) by (simp add: it_at_def)
  have n: "\<not> has_next it" using stop(2) by (auto simp: hdr_iter_next_def split: if_splits bind_splits)
  have "pct_loop p = Some (True, moved p it)"
    using stop(4,7,8) n h' percent_of_all [OF h vs stop(1) n stop(8)]
    by (subst pct_loop.simps) (simp add: moved_def next_percentile_def Let_def)
  moreover have "at_row h it" using stop n by (auto simp: at_row_def intro: exI [of _ "k - 1"])
  ultimately show ?case using percent_of_all [OF h vs stop(1) n stop(8)] by blast
next
  case (step k it it')
  have h': "it_h it = h" using step(1) by (simp add: it_at_def)
  have n: "has_next it" using step(2) by (auto simp: hdr_iter_next_def split: if_splits)
  let ?fires = "it_count_at_index it \<noteq> 0 \<and>
    percentile_to_iterate_to p \<le> 100 * of_int (it_count_to_index it) / of_int (total_count h)"
  show ?case
  proof (cases ?fires)
    case True
    then have "pct_loop p = Some (True, moved p it)"
      using step(6) h' by (subst pct_loop.simps) (simp add: moved_def next_percentile_def Let_def)
    moreover have "at_row h it" using step(1,3,7) True by (auto simp: at_row_def intro: exI [of _ "k - 1"])
    ultimately show ?thesis using True by blast
  next
    case False
    then have "pct_loop p = pct_loop (p\<lparr>pct_iter := it'\<rparr>)"
      using step(2,6) h' by (subst pct_loop.simps) (auto simp: Let_def)
    moreover have "\<exists>it''. pct_loop (p\<lparr>pct_iter := it'\<rparr>) = Some (True, moved (p\<lparr>pct_iter := it'\<rparr>) it'') \<and> at_row h it'' \<and>
        percentile_to_iterate_to p \<le> 100 * of_int (it_count_to_index it'') / of_int (total_count h)"
      using step(5) [of "p\<lparr>pct_iter := it'\<rparr>"] has_next_step [OF h step(1,4,3) n] step(3,10) by simp
    ultimately show ?thesis by (simp add: moved_def)
  qed
qed

lemma percentile_next:
  assumes h: "holds h vs" and vs: "vs \<noteq> []" and at: "at_row h (pct_iter p) \<or> it_at h 0 (pct_iter p)"
    and n: "has_next (pct_iter p)" and t: "percentile_to_iterate_to p < 100"
  shows "\<exists>it'. hdr_percentile_iter_next p = Some (True, moved p it') \<and> at_row h it' \<and>
    percentile_to_iterate_to p \<le> 100 * of_int (it_count_to_index it') / of_int (total_count h)"
proof (cases "it_at h 0 (pct_iter p)")
  case True
  have z: "(0 :: int) \<le> 2 ^ hcm h" by simp
  have "0 \<le> it_bucket_index (pct_iter p)" "it_bucket_index (pct_iter p) = 0 \<or> 0 \<le> it_sub_bucket_index (pct_iter p)"
    using True hdr_configD(3) [OF holdsD(2) [OF h]] by (auto simp: it_at_def intro: order.trans [OF z])
  moreover from this(1) have "0 \<le> it_bucket_index (pct_iter p) * 2 ^ hcm h" by simp
  moreover have "it_bucket_index (pct_iter p) * 2 ^ hcm h + it_sub_bucket_index (pct_iter p) + 1 = 0"
    using True by (simp add: it_at_def)
  ultimately have "it_sub_bucket_index (pct_iter p) = -1" by auto
  moreover obtain it' where "hdr_iter_next (pct_iter p) = Some (True, it')" "0 < length (counts h)" "it_at h (Suc 0) it'"
    by (rule iter_next_cases [OF holdsD(1) [OF h] True]) (use n in \<open>auto simp: hdr_iter_next_def split: bind_splits\<close>)
  ultimately show ?thesis
    using pct_loop_stops [OF h vs, of "Suc 0" it' "p\<lparr>pct_iter := it'\<rparr>"] has_next_step [OF h True _ _ n] n t
    by (auto simp: hdr_percentile_iter_next_def moved_def Suc_le_eq)
next
  case False
  then obtain k where k: "k < length (counts h)" "it_at h (Suc k) (pct_iter p)" "it_count_at_index (pct_iter p) \<noteq> 0"
    using at by (auto simp: at_row_def)
  then have "it_sub_bucket_index (pct_iter p) \<noteq> -1" by (auto simp: it_at_def)
  then show ?thesis using pct_loop_stops [OF h vs k(2) refl] k t n by (auto simp: hdr_percentile_iter_next_def)
qed

text \<open>The lines are written to a list.\<close>

definition to_list :: "out_line \<Rightarrow> out_line list \<Rightarrow> bool \<times> out_line list" where
  "to_list l ls = (True, ls @ [l])"

definition table_row :: "string \<Rightarrow> rat \<Rightarrow> int \<times> rat \<times> int \<Rightarrow> out_line" where
  "table_row line scale = (\<lambda>(v, p, n). Row line (of_int v / scale) p n (if p = 1 then None else Some (1 / (1 - p))))"

definition row_right :: "int list \<Rightarrow> int \<times> rat \<times> int \<Rightarrow> bool" where
  "row_right vs = (\<lambda>(v, p, n). n = int (length (filter (\<lambda>x. x \<le> v) vs)) \<and> p * of_nat (length vs) \<le> of_int n)"

lemma print_last:
  assumes "\<not> has_next (pct_iter p)" "\<not> seen_last_value p"
  shows "print_loop to_list line scale p ls = Some (True, ls @
    [table_row line scale (it_highest_equivalent_value (pct_iter p), 1, it_count_to_index (pct_iter p))])"
proof -
  let ?q = "p\<lparr>seen_last_value := True, pct_percentile := 100\<rparr>"
  have "hdr_percentile_iter_next p = Some (True, ?q)" "hdr_percentile_iter_next ?q = Some (False, ?q)"
    using assms by (simp_all add: hdr_percentile_iter_next_def)
  then show ?thesis
    by (simp add: print_loop.simps [of _ _ _ p] print_loop.simps [of _ _ _ ?q] to_list_def percentile_row_def table_row_def Let_def)
qed

lemma row_right_at:
  assumes h: "holds h vs" and at: "at_row h it" and p: "100 * p \<le> 100 * of_int (it_count_to_index it) / of_int (total_count h)"
    and vs: "vs \<noteq> []"
  shows "row_right vs (it_highest_equivalent_value it, p, it_count_to_index it)"
proof -
  obtain k where "k < length (counts h)" "it_at h (Suc k) it" using at by (auto simp: at_row_def)
  from count_to_values [OF h this(2,1)] show ?thesis
    using p vs total_holds [OF h] by (simp add: row_right_def field_simps)
qed


text \<open>The lines from a percentile on.\<close>

definition prints_from :: "int list \<Rightarrow> rat \<Rightarrow> (int \<times> rat \<times> int) list \<Rightarrow> bool" where
  "prints_from vs p rows \<longleftrightarrow> rows \<noteq> [] \<and> (\<forall>r \<in> set rows. row_right vs r \<and> p \<le> fst (snd r)) \<and>
     fst (snd (last rows)) = 1 \<and> sorted_wrt (<) (map (\<lambda>r. fst (snd r)) rows)"

lemma prints_from_Cons:
  "prints_from vs q rows \<Longrightarrow> p < q \<Longrightarrow> row_right vs (v, p, n) \<Longrightarrow> prints_from vs p ((v, p, n) # rows)"
  by (fastforce simp: prints_from_def)

lemma print_loop_last:
  assumes h: "holds h vs" and vs: "vs \<noteq> []" and r: "at_row h (pct_iter p)" and n: "\<not> has_next (pct_iter p)" "\<not> seen_last_value p"
    and t: "percentile_to_iterate_to p < 100"
  shows "\<exists>rows. print_loop to_list line scale p ls = Some (True, ls @ map (table_row line scale) rows) \<and>
    prints_from vs (percentile_to_iterate_to p / 100) rows"
proof -
  let ?r = "(it_highest_equivalent_value (pct_iter p), 1, it_count_to_index (pct_iter p))"
  have "100 * 1 \<le> 100 * of_int (it_count_to_index (pct_iter p)) / (of_int (total_count h) :: rat)"
    using r n total_holds [OF h] vs by (auto simp: at_row_def has_next_def it_at_def field_simps)
  then have "row_right vs ?r" by (rule row_right_at [OF h r _ vs])
  then show ?thesis using print_last [OF n] t by (intro exI [of _ "[?r]"]) (simp add: prints_from_def)
qed

lemma steps_left_less:
  assumes "0 < d" "(t :: rat) < 100" "t + d \<le> t'"
  shows "nat (\<lfloor>(100 - t') / d\<rfloor> + 1) < nat (\<lfloor>(100 - t) / d\<rfloor> + 1)"
proof -
  have "(100 - t') / d \<le> (100 - t - d) / d" using assms by (intro divide_right_mono) auto
  also have "\<dots> = (100 - t) / d - 1" using assms(1) by (simp add: diff_divide_distrib)
  finally have "\<lfloor>(100 - t') / d\<rfloor> \<le> \<lfloor>(100 - t) / d\<rfloor> - 1" by linarith
  moreover have "0 \<le> \<lfloor>(100 - t) / d\<rfloor>" using assms by simp
  ultimately show ?thesis by linarith
qed

lemma percent_below:
  assumes "c < n" "(t :: rat) \<le> 100 * of_int c / of_int n" "0 \<le> c"
  shows "100 / of_int n \<le> 100 - t"
proof -
  have "100 * of_int c / of_int n \<le> 100 * (of_int n - 1) / (of_int n :: rat)"
  proof (intro divide_right_mono mult_left_mono)
    show "of_int c \<le> of_int n - (1 :: rat)" using assms(1) by (metis of_int_1 of_int_diff of_int_le_iff zle_diff1_eq)
  qed (use assms in auto)
  also have "\<dots> = 100 - 100 / of_int n" using assms by (simp add: field_simps)
  finally show ?thesis using assms(2) by linarith
qed

text \<open>As long as values are left above, a line takes the percentile on by a fixed part of what remains.\<close>

lemma percentile_advances:
  assumes h: "holds h vs" and vs: "vs \<noteq> []" and ticks: "0 < ticks" and r: "at_row h it" and n: "has_next it"
    and t: "0 \<le> t" "t < 100" "t \<le> 100 * of_int (it_count_to_index it) / of_int (total_count h)"
  defines "d \<equiv> 100 / of_nat (length vs) / (2 * of_int ticks) :: rat"
  shows "nat (\<lfloor>(100 - next_percentile ticks t) / d\<rfloor> + 1) < nat (\<lfloor>(100 - t) / d\<rfloor> + 1)"
proof (rule steps_left_less)
  obtain k where k: "k < length (counts h)" "it_at h (Suc k) it" using r by (auto simp: at_row_def)
  have lt: "it_count_to_index it < total_count h" "0 \<le> it_count_to_index it"
    using n it_at_Suc(7) [OF k(2)] count_to_values [OF h k(2,1)] by (simp_all add: has_next_def)
  have "100 / of_int (total_count h) / (2 * of_int ticks) \<le> (100 - t) / (2 * of_int ticks)"
    using percent_below [OF lt(1) t(3) lt(2)] ticks by (intro divide_right_mono) auto
  then show "t + d \<le> next_percentile ticks t"
    using next_percentile_bounds(3) [OF t(1,2) ticks] total_holds [OF h] by (simp add: d_def)
  show "0 < d" using ticks vs by (simp add: d_def)
qed (rule t(2))

lemma print_loop_row:
  assumes h: "holds h vs" and vs: "vs \<noteq> []" and ticks: "0 < ticks" "ticks_per_half_distance p = ticks"
    and n: "hdr_percentile_iter_next p = Some (True, moved p it)" and r: "at_row h it"
    and t: "0 \<le> percentile_to_iterate_to p" "percentile_to_iterate_to p < 100"
      "percentile_to_iterate_to p \<le> 100 * of_int (it_count_to_index it) / of_int (total_count h)"
    and rest: "\<And>ls. \<exists>rows. print_loop to_list line scale (moved p it) ls = Some (True, ls @ map (table_row line scale) rows) \<and>
      prints_from vs (percentile_to_iterate_to (moved p it) / 100) rows"
  shows "\<exists>rows. print_loop to_list line scale p ls = Some (True, ls @ map (table_row line scale) rows) \<and>
    prints_from vs (percentile_to_iterate_to p / 100) rows"
proof -
  let ?t = "percentile_to_iterate_to p"
  let ?row = "(it_highest_equivalent_value it, ?t / 100, it_count_to_index it)"
  obtain rows where rows: "print_loop to_list line scale (moved p it) (ls @ [table_row line scale ?row]) =
      Some (True, (ls @ [table_row line scale ?row]) @ map (table_row line scale) rows)"
    "prints_from vs (next_percentile ticks ?t / 100) rows"
    using rest [of "ls @ [table_row line scale ?row]"] ticks(2) by (auto simp: moved_def)
  have "row_right vs ?row" by (rule row_right_at [OF h r _ vs]) (use t(3) in simp)
  moreover have "?t / 100 < next_percentile ticks ?t / 100"
  proof -
    have "0 < (100 - ?t) / (2 * of_int ticks)" using t(2) ticks(1) by simp
    then show ?thesis using next_percentile_bounds(3) [OF t(1,2) ticks(1)] by linarith
  qed
  ultimately have "prints_from vs (?t / 100) (?row # rows)" by (intro prints_from_Cons [OF rows(2)])
  moreover have "percentile_row line scale (moved p it) = table_row line scale ?row"
    using t(2) by (auto simp: percentile_row_def table_row_def moved_def Let_def)
  then have "print_loop to_list line scale p ls = Some (True, ls @ map (table_row line scale) (?row # rows))"
    using n rows(1) by (simp add: print_loop.simps [of _ _ _ p] to_list_def)
  ultimately show ?thesis by blast
qed

lemma print_loop_ends:
  fixes m :: nat
  assumes h: "holds h vs" and vs: "vs \<noteq> []" and ticks: "0 < ticks"
  defines "d \<equiv> 100 / of_nat (length vs) / (2 * of_int ticks) :: rat"
  assumes "at_row h (pct_iter p) \<or> it_at h 0 (pct_iter p)" "\<not> seen_last_value p" "ticks_per_half_distance p = ticks"
    "0 \<le> percentile_to_iterate_to p" "percentile_to_iterate_to p < 100"
    "nat (\<lfloor>(100 - percentile_to_iterate_to p) / d\<rfloor> + 1) = m"
  shows "\<exists>rows. print_loop to_list line scale p ls = Some (True, ls @ map (table_row line scale) rows) \<and>
    prints_from vs (percentile_to_iterate_to p / 100) rows"
  using assms(5-)
proof (induction m arbitrary: p ls rule: less_induct)
  case (less m)
  let ?t = "percentile_to_iterate_to p"
  show ?case
  proof (cases "has_next (pct_iter p)")
    case False
    then have "at_row h (pct_iter p)" using less.prems(1) total_holds [OF h] vs by (auto simp: it_at_def has_next_def)
    then show ?thesis using print_loop_last [OF h vs _ False less.prems(2,5)] by blast
  next
    case True
    obtain it' where n: "hdr_percentile_iter_next p = Some (True, moved p it')" and r: "at_row h it'"
      and c: "?t \<le> 100 * of_int (it_count_to_index it') / of_int (total_count h)"
      using percentile_next [OF h vs less.prems(1) True less.prems(5)] by blast
    note b = next_percentile_bounds [OF less.prems(4,5) ticks]
    have p': "at_row h (pct_iter (moved p it'))" "\<not> seen_last_value (moved p it')" "ticks_per_half_distance (moved p it') = ticks"
      "percentile_to_iterate_to (moved p it') = next_percentile ticks ?t" "pct_iter (moved p it') = it'"
      using r less.prems(2,3) by (simp_all add: moved_def)
    show ?thesis
    proof (rule print_loop_row [OF h vs ticks less.prems(3) n r less.prems(4,5) c])
      fix ls
      show "\<exists>rows. print_loop to_list line scale (moved p it') ls = Some (True, ls @ map (table_row line scale) rows) \<and>
        prints_from vs (percentile_to_iterate_to (moved p it') / 100) rows"
      proof (cases "has_next it'")
        case False
        then show ?thesis by (intro print_loop_last [OF h vs p'(1) _ p'(2)]) (use b(2) p'(4,5) in simp_all)
      next
        case True
        have "nat (\<lfloor>(100 - next_percentile ticks ?t) / d\<rfloor> + 1) < m"
          using percentile_advances [OF h vs ticks r True less.prems(4,5) c] by (simp only: d_def [symmetric] less.prems(6))
        then show ?thesis by (rule less.IH [of _ "moved p it'"]) (use p' b in simp_all)
      qed
    qed
  qed
qed

section \<open>Properties\<close>



end
