(* ===== verification/Tinymt64.thy ===== *)
theory Tinymt64
  imports Prelude
begin

text \<open>
  The pseudo random generator of \<open>wrk2/src/tinymt64.c\<close> and \<open>tinymt64.h\<close>: a state of
  127 bits with three parameters. \<open>status\<close> is the array of two words. A double in \<open>[1, 2)\<close>
  is built from its bit pattern, so its value is an exact rational (\<open>double_value\<close>);
  \<open>tinymt64_generate_double\<close>, which rounds a 64-bit integer, is not modelled.
\<close>

section \<open>The generator\<close>

record tinymt64 =
  status :: "u64 list"
  mat1 :: u32
  mat2 :: u32
  tmat :: u64

definition TINYMT64_MASK :: u64 where
  "TINYMT64_MASK = 0x7fffffffffffffff"

definition ini_func1 :: "u64 \<Rightarrow> u64" where
  "ini_func1 x = (x XOR drop_bit 59 x) * 2173292883993"

definition ini_func2 :: "u64 \<Rightarrow> u64" where
  "ini_func2 x = (x XOR drop_bit 59 x) * 58885565329898161"

definition period_certification :: "tinymt64 \<Rightarrow> tinymt64" where
  "period_certification r =
     (if status r ! 0 AND TINYMT64_MASK = 0 \<and> status r ! 1 = 0
      then r\<lparr>status := [84, 77]\<rparr> else r)"

definition MIN_LOOP :: int where
  "MIN_LOOP = 8"

definition init_mix :: "nat \<Rightarrow> u64 list \<Rightarrow> u64 list" where
  "init_mix i st =
     (let prev = st ! ((i - 1) mod 2)
      in st[i mod 2 := st ! (i mod 2) XOR
           (of_nat i + 6364136223846793005 * (prev XOR drop_bit 62 prev))])"

definition tinymt64_init :: "tinymt64 \<Rightarrow> u64 \<Rightarrow> tinymt64" where
  "tinymt64_init r seed =
     period_certification
       (r\<lparr>status := fold init_mix [1..<nat MIN_LOOP]
            [seed XOR push_bit 32 (ucast (mat1 r)), ucast (mat2 r) XOR tmat r]\<rparr>)"

text \<open>
  One round of \<open>tinymt64_init_by_array\<close>: the word at \<open>i\<close> and its neighbours in the array
  \<open>st\<close> of four words; \<open>k\<close> is what the round adds.
\<close>

definition array_mix1 :: "nat \<Rightarrow> u64 \<Rightarrow> u64 list \<Rightarrow> u64 list" where
  "array_mix1 i k st =
     (let r = ini_func1 (st ! i XOR st ! ((i + 1) mod 4) XOR st ! ((i + 3) mod 4));
          st1 = st[(i + 1) mod 4 := st ! ((i + 1) mod 4) + r];
          r' = r + k;
          st2 = st1[(i + 2) mod 4 := st1 ! ((i + 2) mod 4) + r']
      in st2[i := r'])"

definition array_mix2 :: "nat \<Rightarrow> u64 list \<Rightarrow> u64 list" where
  "array_mix2 i st =
     (let r = ini_func2 (st ! i + st ! ((i + 1) mod 4) + st ! ((i + 3) mod 4));
          st1 = st[(i + 1) mod 4 := st ! ((i + 1) mod 4) XOR r];
          r' = r - of_nat i;
          st2 = st1[(i + 2) mod 4 := st1 ! ((i + 2) mod 4) XOR r']
      in st2[i := r'])"

fun array_keys :: "u64 list \<Rightarrow> nat \<Rightarrow> u64 list \<Rightarrow> nat \<times> u64 list" where
  "array_keys [] i st = (i, st)"
| "array_keys (k # ks) i st = array_keys ks ((i + 1) mod 4) (array_mix1 i (k + of_nat i) st)"

fun array_fill :: "nat \<Rightarrow> nat \<Rightarrow> u64 list \<Rightarrow> nat \<times> u64 list" where
  "array_fill 0 i st = (i, st)"
| "array_fill (Suc n) i st = array_fill n ((i + 1) mod 4) (array_mix1 i (of_nat i) st)"

fun array_finish :: "nat \<Rightarrow> nat \<Rightarrow> u64 list \<Rightarrow> u64 list" where
  "array_finish 0 i st = st"
| "array_finish (Suc n) i st = array_finish n ((i + 1) mod 4) (array_mix2 i st)"

text \<open>The first round uses the word 0, and adds the length of the key.\<close>

definition tinymt64_init_by_array :: "tinymt64 \<Rightarrow> u64 list \<Rightarrow> tinymt64" where
  "tinymt64_init_by_array r key =
     (let n = length key;
          count = max (n + 1) 8 - 1;
          st0 = array_mix1 0 (of_nat n) [0, ucast (mat1 r), ucast (mat2 r), tmat r];
          (i1, st1) = array_keys (take count key) 1 st0;
          (i2, st2) = array_fill (count - n) i1 st1;
          st3 = array_finish 4 i2 st2
      in period_certification (r\<lparr>status := [st3 ! 0 XOR st3 ! 1, st3 ! 2 XOR st3 ! 3]\<rparr>))"

text \<open>\<open>-((int64_t)(x & 1)) & m\<close>: \<open>m\<close> when \<open>x\<close> is odd, and 0 otherwise.\<close>

definition odd_mask :: "u64 \<Rightarrow> u64 \<Rightarrow> u64" where
  "odd_mask x m = - (x AND 1) AND m"

definition mix_state :: "u64 \<Rightarrow> u64" where
  "mix_state x =
     (let x1 = x XOR push_bit 12 x;
          x2 = x1 XOR drop_bit 32 x1;
          x3 = x2 XOR push_bit 32 x2
      in x3 XOR push_bit 11 x3)"

definition tinymt64_next_state :: "tinymt64 \<Rightarrow> tinymt64" where
  "tinymt64_next_state r =
     (let s0 = status r ! 0 AND TINYMT64_MASK;
          x = mix_state (s0 XOR status r ! 1)
      in r\<lparr>status := [status r ! 1 XOR odd_mask x (ucast (mat1 r)),
                      x XOR odd_mask x (push_bit 32 (ucast (mat2 r)))]\<rparr>)"

text \<open>The sum of the two words, mixed with the high bits of the first.\<close>

definition temper_word :: "tinymt64 \<Rightarrow> u64" where
  "temper_word r = (status r ! 0 + status r ! 1) XOR drop_bit 8 (status r ! 0)"

definition tinymt64_temper :: "tinymt64 \<Rightarrow> u64" where
  "tinymt64_temper r = (let x = temper_word r in x XOR odd_mask x (tmat r))"

definition tinymt64_generate_uint64 :: "tinymt64 \<Rightarrow> u64 \<times> tinymt64" where
  "tinymt64_generate_uint64 r = (let r' = tinymt64_next_state r in (tinymt64_temper r', r'))"

section \<open>Doubles\<close>

text \<open>The value of a double with a positive sign and a normal exponent.\<close>

definition double_value :: "u64 \<Rightarrow> rat" where
  "double_value u =
     (let e = unat (drop_bit 52 u); m = unat (take_bit 52 u)
      in (1 + of_nat m / 2 ^ 52) * (if 1023 \<le> e then 2 ^ (e - 1023) else 1 / 2 ^ (1023 - e)))"

definition tinymt64_temper_conv :: "tinymt64 \<Rightarrow> rat" where
  "tinymt64_temper_conv r =
     (let x = temper_word r
      in double_value (drop_bit 12 (x XOR odd_mask x (tmat r)) OR 0x3ff0000000000000))"

definition tinymt64_temper_conv_open :: "tinymt64 \<Rightarrow> rat" where
  "tinymt64_temper_conv_open r =
     (let x = temper_word r
      in double_value (drop_bit 12 (x XOR odd_mask x (tmat r)) OR 0x3ff0000000000001))"

definition tinymt64_generate_double01 :: "tinymt64 \<Rightarrow> rat \<times> tinymt64" where
  "tinymt64_generate_double01 r = (let r' = tinymt64_next_state r in (tinymt64_temper_conv r' - 1, r'))"

definition tinymt64_generate_double12 :: "tinymt64 \<Rightarrow> rat \<times> tinymt64" where
  "tinymt64_generate_double12 r = (let r' = tinymt64_next_state r in (tinymt64_temper_conv r', r'))"

definition tinymt64_generate_doubleOC :: "tinymt64 \<Rightarrow> rat \<times> tinymt64" where
  "tinymt64_generate_doubleOC r = (let r' = tinymt64_next_state r in (2 - tinymt64_temper_conv r', r'))"

definition tinymt64_generate_doubleOO :: "tinymt64 \<Rightarrow> rat \<times> tinymt64" where
  "tinymt64_generate_doubleOO r =
     (let r' = tinymt64_next_state r in (tinymt64_temper_conv_open r' - 1, r'))"

section \<open>The state is never zero\<close>

definition live_state :: "tinymt64 \<Rightarrow> bool" where
  "live_state r \<longleftrightarrow> length (status r) = 2 \<and> \<not> (status r ! 0 AND TINYMT64_MASK = 0 \<and> status r ! 1 = 0)"

lemma certified: "length (status r) = 2 \<Longrightarrow> live_state (period_certification r)"
  by (simp add: period_certification_def live_state_def TINYMT64_MASK_def)

lemma length_init_mix: "length (init_mix i st) = length st"
  by (simp add: init_mix_def Let_def)

lemma length_fold_init_mix: "length (fold init_mix is st) = length st"
  by (induction "is" arbitrary: st) (simp_all add: length_init_mix)

lemma xor_push_eq_0:
  assumes "(x :: u64) XOR push_bit (Suc k) x = 0"
  shows "x = 0"
proof (rule bit_word_eqI)
  fix n
  assume "n < LENGTH(64)"
  have e: "bit x n = (Suc k \<le> n \<and> bit x (n - Suc k))" if "n < 64" for n
  proof -
    have "bit (x XOR push_bit (Suc k) x) n = bit 0 n" using assms by simp
    then show ?thesis using that by (simp only: bit_xor_iff bit_push_bit_iff) auto
  qed
  have "\<not> bit x n" if "n < 64" for n
    using that
  proof (induction n rule: less_induct)
    case (less n)
    show ?case
    proof
      assume b: "bit x n"
      then have "Suc k \<le> n" "bit x (n - Suc k)" using e [OF less.prems] by simp_all
      moreover from this have "n - Suc k < n" by simp
      ultimately show False using less.IH [of "n - Suc k"] less.prems by simp
    qed
  qed
  with \<open>n < LENGTH(64)\<close> show "bit x n = bit 0 n" by simp
qed


lemma xor_drop_eq_0:
  assumes "(x :: u64) XOR drop_bit (Suc k) x = 0"
  shows "x = 0"
proof (rule bit_word_eqI)
  fix n
  assume "n < LENGTH(64)"
  have e: "bit x n = bit x (n + Suc k)" for n
  proof -
    have "bit (x XOR drop_bit (Suc k) x) n = bit 0 n" using assms by simp
    then show ?thesis by (simp only: bit_xor_iff bit_drop_bit_eq) (auto simp: add.commute)
  qed
  have "bit x n = bit x (n + j * Suc k)" for j n
  proof (induction j arbitrary: n)
    case (Suc j)
    have "bit x (n + Suc j * Suc k) = bit x ((n + j * Suc k) + Suc k)" by (simp add: algebra_simps)
    then show ?case using Suc e by metis
  qed simp
  from this [of n 64] have "bit x n = bit x (n + 64 * Suc k)" .
  moreover have "\<not> bit x (n + 64 * Suc k)"
    using bit_imp_le_length [of x "n + 64 * Suc k"] by auto
  ultimately show "bit x n = bit 0 n" by simp
qed

lemma mix_state_eq_0:
  assumes "mix_state x = 0"
  shows "x = 0"
proof -
  define x1 where "x1 = x XOR push_bit 12 x"
  define x2 where "x2 = x1 XOR drop_bit 32 x1"
  define x3 where "x3 = x2 XOR push_bit 32 x2"
  have "x3 XOR push_bit 11 x3 = 0"
    using assms by (simp only: mix_state_def Let_def x1_def x2_def x3_def)
  then have "x3 = 0" using xor_push_eq_0 [of x3 10] by simp
  then have "x2 = 0" using xor_push_eq_0 [of x2 31] by (simp add: x3_def)
  then have "x1 = 0" using xor_drop_eq_0 [of x1 31] by (simp add: x2_def)
  then show "x = 0" using xor_push_eq_0 [of x 11] by (simp add: x1_def)
qed

lemma next_live:
  assumes "live_state r"
  shows "live_state (tinymt64_next_state r)"
proof -
  define s0 s1 where "s0 = status r ! 0 AND TINYMT64_MASK" and "s1 = status r ! 1"
  define x where "x = mix_state (s0 XOR s1)"
  let ?m1 = "odd_mask x (ucast (mat1 r))" and ?m2 = "odd_mask x (push_bit 32 (ucast (mat2 r)))"
  have n: "status (tinymt64_next_state r) = [s1 XOR ?m1, x XOR ?m2]"
    by (simp add: tinymt64_next_state_def s0_def s1_def x_def Let_def)
  have False if z: "(s1 XOR ?m1) AND TINYMT64_MASK = 0" "x XOR ?m2 = 0"
  proof -
    have "bit (x XOR ?m2) 0 = bit x 0"
      by (simp add: odd_mask_def bit_xor_iff bit_and_iff bit_push_bit_iff)
    then have ev: "\<not> bit x 0" using z(2) by simp
    then have o: "odd_mask x m = 0" for m
      by (simp add: odd_mask_def and_one_eq bit_0 even_iff_mod_2_eq_zero)
    have "x = 0" using z(2) o by simp
    then have "s0 XOR s1 = 0" unfolding x_def by (rule mix_state_eq_0)
    then have eq: "s0 = s1" by (metis xor.assoc xor.left_neutral xor_self_eq xor.commute)
    have "s1 AND TINYMT64_MASK = 0" using z(1) o by simp
    then have "s0 AND TINYMT64_MASK = 0" using eq by simp
    then have "s0 = 0" by (simp add: s0_def and.assoc)
    with eq assms show False by (simp add: live_state_def s0_def s1_def)
  qed
  then show ?thesis by (auto simp: live_state_def n)
qed

lemma init_live: "live_state (tinymt64_init r seed)"
  unfolding tinymt64_init_def by (rule certified) (simp add: length_fold_init_mix)

lemma init_by_array_live: "live_state (tinymt64_init_by_array r key)"
  by (simp add: tinymt64_init_by_array_def Let_def certified split: prod.split)

lemma iterate_live: "live_state r \<Longrightarrow> live_state ((tinymt64_next_state ^^ k) r)"
  by (induction k) (simp_all add: next_live)

text \<open>C36: Whatever the seed, the key or the parameters (wrk leaves them 0), the generator never
  reaches the state 0 of its 127 bits, from which it could not leave: neither at the start nor after any
  number of steps.\<close>

theorem generator_never_zero:
  "live_state ((tinymt64_next_state ^^ k) (tinymt64_init r seed)) \<and>
   live_state ((tinymt64_next_state ^^ k) (tinymt64_init_by_array r key))"
  by (simp add: iterate_live init_live init_by_array_live)

section \<open>The ranges of the doubles\<close>

lemma conv_bits:
  assumes "u = drop_bit 12 (y :: u64) OR (0x3ff0000000000000 OR b)" "take_bit 52 b = b"
  shows "drop_bit 52 u = 0x3ff" "take_bit 52 u = drop_bit 12 y OR b"
proof -
  have c: "drop_bit 52 (0x3ff0000000000000 :: u64) = 0x3ff" "take_bit 52 (0x3ff0000000000000 :: u64) = 0"
    by (code_simp, code_simp)
  have d1: "drop_bit 52 (drop_bit 12 y) = 0"
    by (rule bit_word_eqI) (use bit_imp_le_length [of y] in \<open>force simp: bit_drop_bit_eq\<close>)
  have d2: "take_bit 52 (drop_bit 12 y) = drop_bit 12 y"
    by (rule bit_word_eqI) (use bit_imp_le_length [of y] in \<open>force simp: bit_drop_bit_eq bit_take_bit_iff\<close>)
  have "drop_bit 52 b = 0"
    using assms(2) by (metis drop_bit_take_bit diff_self_eq_0 take_bit_0)
  with c d1 d2 assms show "drop_bit 52 u = 0x3ff" "take_bit 52 u = drop_bit 12 y OR b"
    by (simp_all add: drop_bit_or take_bit_or)
qed

lemma double_value_conv:
  assumes "drop_bit 52 u = 0x3ff"
  shows "double_value u = 1 + of_nat (unat (take_bit 52 u)) / 2 ^ 52"
  unfolding double_value_def assms by (simp add: Let_def)

lemma mantissa_bound: "unat (take_bit 52 (u :: u64)) < 2 ^ 52"
proof -
  have "take_bit 52 (unat u) < 2 ^ 52" by (rule take_bit_nat_less_exp)
  then show ?thesis by (simp add: unsigned_take_bit_eq)
qed

lemma temper_conv_range: "1 \<le> tinymt64_temper_conv r \<and> tinymt64_temper_conv r < 2"
proof -
  define y where "y = temper_word r XOR odd_mask (temper_word r) (tmat r)"
  define u where "u = drop_bit 12 y OR 0x3ff0000000000000"
  have "drop_bit 52 u = 0x3ff" by (rule conv_bits [of u y 0]) (simp_all add: u_def)
  then have "tinymt64_temper_conv r = 1 + of_nat (unat (take_bit 52 u)) / 2 ^ 52"
    by (simp add: tinymt64_temper_conv_def Let_def y_def u_def double_value_conv)
  moreover have "(of_nat (unat (take_bit 52 u)) :: rat) < 2 ^ 52"
    using mantissa_bound [of u] by (metis of_nat_less_iff of_nat_numeral of_nat_power)
  moreover have "(0 :: rat) \<le> of_nat (unat (take_bit 52 u))" by (rule of_nat_0_le_iff)
  ultimately show ?thesis by (simp del: of_nat_unat)
qed

lemma temper_conv_open_range: "1 < tinymt64_temper_conv_open r \<and> tinymt64_temper_conv_open r < 2"
proof -
  define y where "y = temper_word r XOR odd_mask (temper_word r) (tmat r)"
  define u where "u = drop_bit 12 y OR 0x3ff0000000000001"
  have u: "u = drop_bit 12 y OR (0x3ff0000000000000 OR 1)" by (simp add: u_def)
  have b: "take_bit 52 (1 :: u64) = 1" by simp
  have "drop_bit 52 u = 0x3ff" by (rule conv_bits(1) [OF u b])
  then have e: "tinymt64_temper_conv_open r = 1 + of_nat (unat (take_bit 52 u)) / 2 ^ 52"
    by (simp add: tinymt64_temper_conv_open_def Let_def y_def u_def double_value_conv)
  have "(of_nat (unat (take_bit 52 u)) :: rat) < 2 ^ 52"
    using mantissa_bound [of u] by (metis of_nat_less_iff of_nat_numeral of_nat_power)
  moreover have "bit (take_bit 52 u) 0"
    unfolding conv_bits(2) [OF u b] by (simp add: bit_or_iff)
  then have "take_bit 52 u \<noteq> 0" by auto
  then have "0 < unat (take_bit 52 u)" by (simp add: unat_gt_0)
  then have "(0 :: rat) < of_nat (unat (take_bit 52 u))" by (simp only: of_nat_0_less_iff)
  ultimately show ?thesis unfolding e by (simp del: of_nat_unat)
qed

text \<open>The doubles lie in the intervals that their names give: \<open>[1, 2)\<close>, \<open>[0, 1)\<close>, \<open>(0, 1]\<close> and
  \<open>(0, 1)\<close>, from every state of the generator.\<close>

theorem double_ranges:
  "1 \<le> fst (tinymt64_generate_double12 r) \<and> fst (tinymt64_generate_double12 r) < 2 \<and>
   0 \<le> fst (tinymt64_generate_double01 r) \<and> fst (tinymt64_generate_double01 r) < 1 \<and>
   0 < fst (tinymt64_generate_doubleOC r) \<and> fst (tinymt64_generate_doubleOC r) \<le> 1 \<and>
   0 < fst (tinymt64_generate_doubleOO r) \<and> fst (tinymt64_generate_doubleOO r) < 1"
  using temper_conv_range [of "tinymt64_next_state r"] temper_conv_open_range [of "tinymt64_next_state r"]
  by (simp add: tinymt64_generate_double12_def tinymt64_generate_double01_def
    tinymt64_generate_doubleOC_def tinymt64_generate_doubleOO_def Let_def)

end
