(* ===== verification/Stats.thy ===== *)
theory Stats
  imports Hdr_Print Tinymt64
begin

text \<open>
  The statistics of \<open>wrk2/src/stats.c\<close>: a ring buffer of samples with its running extremes
  (or a histogram instead of the ring), the queries on it, and the unbiased random integers
  of \<open>rand64\<close>. \<open>long double\<close> is an exact rational, and a real number where a square root is
  taken. A division by zero and an access outside the array have no result.
\<close>

section \<open>The structure\<close>

record stats =
  samples :: u64
  ring_index :: u64
  limit :: u64
  smin :: u64
  smax :: u64
  histogram :: "hdr_histogram option"
  sdata :: "u64 list"

text \<open>The structure is 48 bytes and 8 for every sample; when that size wraps, the array is
  shorter than \<open>samples\<close> says.\<close>

definition stats_alloc :: "u64 \<Rightarrow> stats" where
  "stats_alloc n =
     (let bytes = 48 + 8 * n
      in \<lparr>samples = n, ring_index = 0, limit = 0, smin = -1, smax = 0, histogram = None,
          sdata = replicate ((unat bytes - 48) div 8) 0\<rparr>)"

definition stats_reset :: "stats \<Rightarrow> stats" where
  "stats_reset s = s\<lparr>limit := 0, ring_index := 0, smin := -1, smax := 0\<rparr>"

definition stats_rewind :: "stats \<Rightarrow> stats" where
  "stats_rewind s = s\<lparr>limit := 0, ring_index := 0\<rparr>"

definition extremes :: "stats \<Rightarrow> u64 \<Rightarrow> stats" where
  "extremes s x =
     (let s1 = (if x < smin s then s\<lparr>smin := x\<rparr> else s)
      in if smax s1 < x then s1\<lparr>smax := x\<rparr> else s1)"

definition stats_record :: "stats \<Rightarrow> u64 \<Rightarrow> stats option" where
  "stats_record s0 x =
     (let s = extremes s0 x
      in case histogram s of
           Some h \<Rightarrow> do { (ok, h') \<leftarrow> hdr_record_value h (as_int64 (uint x)); Some (s\<lparr>histogram := Some h'\<rparr>) }
         | None \<Rightarrow>
             if length (sdata s) \<le> unat (ring_index s) then None
             else (let s1 = s\<lparr>sdata := (sdata s)[unat (ring_index s) := x], ring_index := ring_index s + 1\<rparr>;
                       s2 = (if limit s1 < samples s1 then s1\<lparr>limit := limit s1 + 1\<rparr> else s1)
                   in Some (if ring_index s2 = samples s2 then s2\<lparr>ring_index := 0\<rparr> else s2)))"

text \<open>The difference is computed in 64 bits without sign and returned as an \<open>int\<close>.\<close>

definition stats_compare :: "u64 \<Rightarrow> u64 \<Rightarrow> int" where
  "stats_compare x y = as_int32 (uint (x - y))"

section \<open>Queries\<close>

definition recorded :: "stats \<Rightarrow> u64 list option" where
  "recorded s = (if unat (limit s) \<le> length (sdata s) then Some (take (unat (limit s)) (sdata s)) else None)"

definition stats_mean :: "stats \<Rightarrow> rat option" where
  "stats_mean s =
     (case histogram s of
        Some h \<Rightarrow> hdr_mean h
      | None \<Rightarrow>
          if limit s = 0 then Some 0
          else do { xs \<leftarrow> recorded s; Some (of_int (uint (sum_list xs)) / of_int (uint (limit s))) })"

text \<open>\<open>mean\<close> is used only for the ring; a histogram takes its own.\<close>

definition stats_stdev :: "stats \<Rightarrow> rat \<Rightarrow> real option" where
  "stats_stdev s mean =
     (case histogram s of
        Some h \<Rightarrow> hdr_stddev h
      | None \<Rightarrow>
          if limit s < 2 then Some 0
          else do {
            xs \<leftarrow> recorded s;
            Some (sqrt (of_rat (sum_list (map (\<lambda>x. (of_int (uint x) - mean)\<^sup>2) xs) / of_int (uint (limit s - 1)))))
          })"

text \<open>\<open>qsort\<close> of the C library sorts by the comparison it is given.\<close>

definition stats_summarize ::
  "((u64 \<Rightarrow> u64 \<Rightarrow> int) \<Rightarrow> u64 list \<Rightarrow> u64 list) \<Rightarrow> stats \<Rightarrow> (rat \<times> stats) option" where
  "stats_summarize qsort s = do {
     xs \<leftarrow> recorded s;
     let s' = s\<lparr>sdata := qsort stats_compare xs @ drop (unat (limit s)) (sdata s)\<rparr>;
     m \<leftarrow> stats_mean s';
     Some (m, s')
   }"

text \<open>The counts up to the lower value, and up to the first slot above the upper one.\<close>

partial_function (option) within_loop ::
  "hdr_iter \<Rightarrow> int \<Rightarrow> int \<Rightarrow> int \<Rightarrow> (int \<times> int option) option" where
  "within_loop it lower_value upper_value lower_count = do {
     (more, it') \<leftarrow> hdr_iter_next it;
     if \<not> more then Some (lower_count, None)
     else (let lc = (if it_value_from_index it' < lower_value then it_count_to_index it' else lower_count)
           in if upper_value < it_highest_equivalent_value it'
              then Some (lc, Some (it_count_to_index it'))
              else within_loop it' lower_value upper_value lc)
   }"

declare within_loop.simps [code]

definition stats_within_stdev :: "stats \<Rightarrow> rat \<Rightarrow> rat \<Rightarrow> u64 \<Rightarrow> rat option" where
  "stats_within_stdev s mean stdev n =
     (let upper = mean + stdev * of_int (uint n); lower = mean - stdev * of_int (uint n)
      in case histogram s of
           Some h \<Rightarrow>
             if total_count h = 0 then Some 0
             else do {
               (lower_count, upper_count) \<leftarrow>
                 within_loop (hdr_iter_init h) (trunc_rat lower) (trunc_rat upper) 0;
               let uc = (case upper_count of Some c \<Rightarrow> c | None \<Rightarrow> total_count h);
               Some (100 * of_int (uc - lower_count) / of_int (total_count h))
             }
         | None \<Rightarrow> do {
             xs \<leftarrow> recorded s;
             let inside = length (filter (\<lambda>x. lower \<le> of_int (uint x) \<and> of_int (uint x) \<le> upper) xs);
             if limit s = 0 then None
             else Some (of_nat inside / of_int (uint (limit s)) * 100)
           })"

text \<open>\<open>round\<close> of C rounds halfway cases away from zero.\<close>

definition c_round :: "rat \<Rightarrow> int" where
  "c_round x = (if 0 \<le> x then \<lfloor>x + 1 / 2\<rfloor> else - \<lfloor>1 / 2 - x\<rfloor>)"

definition stats_percentile :: "stats \<Rightarrow> rat \<Rightarrow> u64 option" where
  "stats_percentile s p =
     (case histogram s of
        Some h \<Rightarrow> do { value \<leftarrow> hdr_value_at_percentile h p; Some (if value < 0 then 0 else word_of_int value) }
      | None \<Rightarrow>
          (let rank = c_round (p / 100 * of_int (uint (limit s)) + 1 / 2)
           in array_get (sdata s) (rank - 1)))"

section \<open>Random integers\<close>

text \<open>The largest multiple of \<open>n\<close> below \<open>2 ^ 64\<close>, or 0 less than the largest word.\<close>

definition rand64_max :: "u64 \<Rightarrow> u64" where
  "rand64_max n = - 1 - (- 1) mod n"

partial_function (option) rand64_loop :: "tinymt64 \<Rightarrow> u64 \<Rightarrow> (u64 \<times> tinymt64) option" where
  "rand64_loop st m =
     (let (x, st') = tinymt64_generate_uint64 st
      in if m \<le> x then rand64_loop st' m else Some (x, st'))"

declare rand64_loop.simps [code]

definition rand64 :: "tinymt64 \<Rightarrow> u64 \<Rightarrow> (u64 \<times> tinymt64) option" where
  "rand64 st n =
     (if n = 0 then None
      else do { (x, st') \<leftarrow> rand64_loop st (rand64_max n); Some (x mod n, st') })"

fun stats_sample :: "stats \<Rightarrow> tinymt64 \<Rightarrow> nat \<Rightarrow> stats \<Rightarrow> (stats \<times> tinymt64) option" where
  "stats_sample dst st 0 src = Some (dst, st)"
| "stats_sample dst st (Suc k) src =
     (case rand64 st (limit src) of
        None \<Rightarrow> None
      | Some (n, st') \<Rightarrow>
          (case array_get (sdata src) (uint n) of
             None \<Rightarrow> None
           | Some x \<Rightarrow>
               (case stats_record dst x of
                  None \<Rightarrow> None
                | Some dst' \<Rightarrow> stats_sample dst' st' k src)))"

section \<open>The ring refines the list of what was recorded\<close>

fun stats_record_all :: "stats \<Rightarrow> u64 list \<Rightarrow> stats option" where
  "stats_record_all s [] = Some s"
| "stats_record_all s (x # xs) =
     (case stats_record s x of None \<Rightarrow> None | Some s' \<Rightarrow> stats_record_all s' xs)"

text \<open>
  The ring \<open>s\<close> holds the last \<open>n\<close> values of \<open>xs\<close>: value \<open>k\<close> is at \<open>k mod n\<close>.
\<close>

definition ring_of :: "nat \<Rightarrow> u64 list \<Rightarrow> stats \<Rightarrow> bool" where
  "ring_of n xs s \<longleftrightarrow> 0 < n \<and> histogram s = None \<and> unat (samples s) = n \<and> length (sdata s) = n \<and>
     unat (ring_index s) = length xs mod n \<and> unat (limit s) = min (length xs) n \<and>
     (\<forall>k < length xs. length xs \<le> k + n \<longrightarrow> sdata s ! (k mod n) = xs ! k) \<and>
     smin s = foldl min (-1) xs \<and> smax s = foldl max 0 xs"

lemma mod_close:
  assumes "(k :: nat) mod n = m mod n" "k \<le> m" "m < k + n"
  shows "k = m"
proof -
  have "n dvd m - k" using mod_eq_dvd_iff_nat [OF assms(2), of n] assms(1) by simp
  moreover have "m - k < n" using assms(2,3) by simp
  ultimately have "\<not> 0 < m - k" using nat_dvd_not_less by blast
  then show ?thesis using assms(2) by simp
qed

lemma unat_Suc_eq: "unat (w :: u64) < unat (v :: u64) \<Longrightarrow> unat (w + 1) = Suc (unat w)"
proof -
  assume a: "unat w < unat v"
  have "unat v < 2 ^ LENGTH(64)" by (rule unsigned_less)
  then show ?thesis using a by (simp add: unat_word_ariths)
qed

lemma ring_limit_next:
  assumes "unat (l :: u64) = min m n" "unat (k :: u64) = n"
  shows "unat (if l < k then l + 1 else l) = min (Suc m) n"
  using assms unat_Suc_eq [of l k] by (auto simp: word_less_nat_alt)

lemma ring_index_next:
  assumes "unat (i :: u64) = m mod n" "unat (k :: u64) = n" "0 < n"
  shows "unat (if i + 1 = k then 0 else i + 1) = Suc m mod n"
proof -
  have i1: "unat (i + 1) = Suc (m mod n)" using assms unat_Suc_eq [of i k] by simp
  have "i + 1 = k \<longleftrightarrow> Suc (m mod n) = n" using i1 assms(2) by (metis word_unat_eq_iff)
  then show ?thesis using i1 by (simp add: mod_Suc)
qed

lemma ring_record:
  assumes "ring_of n xs s"
  shows "\<exists>s'. stats_record s x = Some s' \<and> ring_of n (xs @ [x]) s'"
proof -
  let ?m = "length xs" and ?i = "ring_index s"
  have n: "0 < n" "histogram s = None" "unat (samples s) = n" "length (sdata s) = n" "unat ?i = ?m mod n"
    "unat (limit s) = min ?m n" using assms by (simp_all add: ring_of_def)
  have inb: "unat ?i < n" using n by simp
  then have i1: "unat (?i + 1) = Suc (?m mod n)" using n unat_Suc_eq [of ?i "samples s"] by simp
  define s1 where "s1 = (extremes s x)\<lparr>sdata := (sdata s)[?m mod n := x], ring_index := ?i + 1\<rparr>"
  define s2 where "s2 = (if limit s1 < samples s1 then s1\<lparr>limit := limit s1 + 1\<rparr> else s1)"
  define s3 where "s3 = (if ring_index s2 = samples s2 then s2\<lparr>ring_index := 0\<rparr> else s2)"
  have ex: "sdata (extremes s x) = sdata s" "ring_index (extremes s x) = ?i" "limit (extremes s x) = limit s"
    "samples (extremes s x) = samples s" "histogram (extremes s x) = None"
    "smin (extremes s x) = min (smin s) x" "smax (extremes s x) = max (smax s) x"
    using n by (auto simp: extremes_def Let_def min_def max_def)
  have r: "stats_record s x = Some s3"
    using n inb by (simp add: stats_record_def ex Let_def s1_def s2_def s3_def)
  have lim: "unat (limit s3) = min (Suc ?m) n"
    using ring_limit_next [of "limit s" ?m n "samples s"] n by (simp add: s3_def s2_def s1_def ex if_distrib [of limit] cong: if_cong)
  have idx: "unat (ring_index s3) = Suc ?m mod n"
    using ring_index_next [of ?i ?m n "samples s"] n by (auto simp: s3_def s2_def s1_def ex split: if_splits)
  have d: "sdata s3 = (sdata s)[?m mod n := x]" by (simp add: s3_def s2_def s1_def)
  have el: "sdata s3 ! (k mod n) = (xs @ [x]) ! k" if "k < Suc ?m" "Suc ?m \<le> k + n" for k
  proof (cases "k = ?m")
    case True
    then show ?thesis using n by (simp add: d)
  next
    case False
    then have k: "k < ?m" "?m \<le> k + n" using that by simp_all
    have "k mod n \<noteq> ?m mod n" using mod_close [of k n ?m] that k by auto
    then show ?thesis using assms k by (simp add: d ring_of_def nth_append)
  qed
  have "ring_of n (xs @ [x]) s3"
    using assms n lim idx el d
    by (auto simp: ring_of_def s3_def s2_def s1_def ex less_Suc_eq)
  with r show ?thesis by blast
qed

lemma ring_record_all:
  assumes "ring_of n xs s"
  shows "\<exists>s'. stats_record_all s ys = Some s' \<and> ring_of n (xs @ ys) s'"
  using assms
proof (induction ys arbitrary: xs s)
  case (Cons y ys)
  then show ?case using ring_record [OF Cons.prems, of y] Cons.IH [of "xs @ [y]"] by fastforce
qed simp

lemma ring_alloc:
  assumes "0 < n" "n \<le> 2 ^ 60"
  shows "ring_of (nat n) [] (stats_alloc (word_of_int n))"
proof -
  have u: "uint (word_of_int n :: u64) = n" using assms by (simp add: uint_word_of_int_eq take_bit_int_eq_self)
  have "48 + 8 * (word_of_int n :: u64) = word_of_int (48 + 8 * n)" by simp
  then have "uint (48 + 8 * (word_of_int n :: u64)) = 48 + 8 * n"
    using assms by (simp only: uint_word_of_int_eq) (simp add: take_bit_int_eq_self)
  then have b: "unat (48 + 8 * (word_of_int n :: u64)) = 48 + 8 * nat n"
    using assms by (simp add: unat_eq_nat_uint nat_add_distrib nat_mult_distrib)
  have l: "length (sdata (stats_alloc (word_of_int n))) = nat n"
    by (simp only: stats_alloc_def Let_def stats.select_convs length_replicate b)
  have un: "unat (word_of_int n :: u64) = nat n" using u by (simp only: unat_eq_nat_uint)
  have "samples (stats_alloc (word_of_int n)) = word_of_int n" by (simp add: stats_alloc_def Let_def)
  then show ?thesis unfolding ring_of_def l using un assms(1) by (simp add: stats_alloc_def Let_def)
qed

lemma ring_contents:
  assumes "ring_of n xs s"
  shows "mset (take (unat (limit s)) (sdata s)) = mset (drop (length xs - n) xs)"
proof -
  let ?m = "length xs" and ?l = "min (length xs) n"
  have n: "0 < n" "length (sdata s) = n" "unat (limit s) = ?l" using assms by (simp_all add: ring_of_def)
  have el: "sdata s ! (k mod n) = xs ! k" if "k \<in> {?m - ?l..<?m}" for k
    using assms that by (auto simp: ring_of_def)
  have inj: "inj_on (\<lambda>k. k mod n) {?m - ?l..<?m}"
  proof (rule linorder_inj_onI')
    fix i j assume "i \<in> {?m - ?l..<?m}" "j \<in> {?m - ?l..<?m}" "i < j"
    moreover from this have "j < i + n" by (auto simp: min_def split: if_splits)
    ultimately show "i mod n \<noteq> j mod n" using mod_close [of i n j] by auto
  qed
  have img: "(\<lambda>k. k mod n) ` {?m - ?l..<?m} = {0..<?l}"
  proof (rule card_subset_eq)
    show "(\<lambda>k. k mod n) ` {?m - ?l..<?m} \<subseteq> {0..<?l}"
      using n(1) by (cases "?m \<le> n") auto
    show "card ((\<lambda>k. k mod n) ` {?m - ?l..<?m}) = card {0..<?l}"
      using card_image [OF inj] by simp
  qed simp
  have "mset (take ?l (sdata s)) = image_mset (\<lambda>i. sdata s ! i) (mset_set {0..<?l})"
  proof -
    have "take ?l (sdata s) = map (\<lambda>i. sdata s ! i) [0..<?l]"
      using n(2) by (intro nth_equalityI) simp_all
    then show ?thesis by (simp add: mset_map)
  qed
  also have "\<dots> = image_mset (\<lambda>i. sdata s ! i) (image_mset (\<lambda>k. k mod n) (mset_set {?m - ?l..<?m}))"
    using image_mset_mset_set [OF inj] img by simp
  also have "\<dots> = image_mset (\<lambda>k. xs ! k) (mset_set {?m - ?l..<?m})"
    using el by (auto simp: multiset.map_comp comp_def intro!: image_mset_cong)
  also have "\<dots> = mset (drop (?m - n) xs)"
  proof -
    have "drop (?m - n) xs = map (\<lambda>k. xs ! k) [?m - ?l..<?m]"
      by (intro nth_equalityI) (simp_all add: min_def)
    then show ?thesis by (simp add: mset_map)
  qed
  finally show ?thesis using n(3) by simp
qed

text \<open>C26: The ring refines the list of what was recorded: after any recordings into a ring of \<open>n\<close>
  samples it holds exactly the last \<open>n\<close> of them (all of them while there are fewer), and the extremes are
  those of everything that was recorded.\<close>

theorem ring_holds_latest:
  assumes "0 < n" "n \<le> 2 ^ 60"
  shows "\<exists>s. stats_record_all (stats_alloc (word_of_int n)) xs = Some s \<and>
    mset (take (unat (limit s)) (sdata s)) = mset (drop (length xs - nat n) xs) \<and>
    smin s = foldl min (-1) xs \<and> smax s = foldl max 0 xs"
proof -
  obtain s where "stats_record_all (stats_alloc (word_of_int n)) xs = Some s" "ring_of (nat n) xs s"
    using ring_record_all [OF ring_alloc [OF assms], of xs] by auto
  then show ?thesis using ring_contents [of "nat n" xs s] by (auto simp: ring_of_def)
qed

lemma ring_holds_latest_witness:
  "\<exists>s. stats_record_all (stats_alloc 2) [5, 7, 9] = Some s \<and>
    mset (take (unat (limit s)) (sdata s)) = {#7, 9#} \<and> smin s = 5 \<and> smax s = 9"
proof -
  have "foldl min (-1) [5, 7, 9 :: u64] = 5" "foldl max 0 [5, 7, 9 :: u64] = 9" by code_simp+
  moreover have "mset (drop (length [5, 7, 9 :: u64] - nat 2) [5, 7, 9]) = {#7, 9#}" by simp
  ultimately show ?thesis using ring_holds_latest [of 2 "[5, 7, 9]"] by (simp only:) simp
qed


section \<open>Percentiles and comparison\<close>

text \<open>C37: Without a histogram, a percentile below 100 of \<open>n\<close> recorded values is element
  \<open>floor (p / 100 * n)\<close> of the array, one of the recorded ones; percentile 100 is element \<open>n\<close>, the
  one after the last recorded value, and outside the array when the ring is full.\<close>

theorem percentile_element:
  assumes "histogram s = None" "0 < limit s" "unat (limit s) \<le> length (sdata s)" "0 \<le> p" "p < 100"
  shows "\<exists>i. i = nat \<lfloor>p / 100 * of_int (uint (limit s))\<rfloor> \<and> i < unat (limit s) \<and>
      stats_percentile s p = Some (sdata s ! i) \<and>
    stats_percentile s 100 = array_get (sdata s) (uint (limit s))"
proof -
  let ?n = "uint (limit s)" and ?q = "p / 100 * of_int (uint (limit s))"
  have n: "0 < ?n" using assms(2) by (simp add: word_less_def)
  have q0: "0 \<le> ?q"
    using assms(4) n by (intro mult_nonneg_nonneg divide_nonneg_nonneg of_int_nonneg) simp_all
  have "p / 100 < 1" using assms(5) by simp
  moreover have "(0 :: rat) < of_int ?n" using n by (simp only: of_int_0_less_iff)
  ultimately have "?q < 1 * of_int ?n" by (rule mult_strict_right_mono)
  then have qn: "?q < of_int ?n" by (simp only: mult_1_left)
  have f: "0 \<le> \<lfloor>?q\<rfloor>" "\<lfloor>?q\<rfloor> < ?n" using q0 qn by (simp_all add: floor_less_iff)
  have r: "c_round (?q + 1 / 2) = \<lfloor>?q\<rfloor> + 1" using q0 by (simp add: c_round_def add.assoc)
  have l: "?n \<le> int (length (sdata s))" using assms(3) by (metis of_nat_le_iff of_nat_unat)
  have "stats_percentile s p = array_get (sdata s) \<lfloor>?q\<rfloor>"
    by (simp only: stats_percentile_def assms(1) option.case Let_def r) simp
  then have "stats_percentile s p = Some (sdata s ! nat \<lfloor>?q\<rfloor>)"
    using f l by simp
  moreover have "stats_percentile s 100 = array_get (sdata s) ?n"
  proof -
    have "\<lfloor>(of_int ?n :: rat) + 1 / 2 + 1 / 2\<rfloor> = ?n + 1"
      by (simp only: add.assoc) (simp del: of_int_uint)
    moreover have "(0 :: rat) \<le> of_int ?n + 1 / 2" using n by (simp del: of_int_uint)
    ultimately have "c_round (of_int ?n + 1 / 2) = ?n + 1" by (simp only: c_round_def if_True)
    moreover have "100 / 100 * (of_int ?n :: rat) = of_int ?n" by simp
    ultimately show ?thesis by (simp only: stats_percentile_def assms(1) option.case Let_def) simp
  qed
  moreover have "nat \<lfloor>?q\<rfloor> < unat (limit s)" using f by (simp add: nat_less_iff)
  ultimately show ?thesis by blast
qed

lemma percentile_element_witness:
  "stats_percentile ((stats_alloc 4)\<lparr>limit := 4, sdata := [3, 5, 8, 9]\<rparr>) 50 = Some 8 \<and>
   stats_percentile ((stats_alloc 4)\<lparr>limit := 4, sdata := [3, 5, 8, 9]\<rparr>) 100 = None"
  using percentile_element [of "(stats_alloc 4)\<lparr>limit := 4, sdata := [3, 5, 8, 9]\<rparr>" 50]
  by (simp add: stats_alloc_def Let_def array_get_def)

text \<open>The comparison that sorts the samples is the difference when it fits an \<open>int\<close>; for
  values further apart the sign is that of the low 32 bits, so the order is not transitive and a larger value
  can come first.\<close>

theorem compare_near:
  assumes "\<bar>uint x - uint y\<bar> < 2 ^ 31"
  shows "stats_compare x y = uint x - uint y \<and> stats_compare (2 ^ 31) 0 < 0"
proof -
  have "as_int32 (uint (x - y)) = signed_take_bit 31 (take_bit 64 (uint x - uint y))"
    by (simp add: as_int32_def uint_word_ariths take_bit_eq_mod)
  also have "\<dots> = signed_take_bit 31 (uint x - uint y)"
    by (simp add: signed_take_bit_take_bit)
  also have "\<dots> = uint x - uint y"
    using assms by (intro signed_take_bit_int_eq_self) auto
  finally have "stats_compare x y = uint x - uint y" by (simp add: stats_compare_def)
  moreover have "stats_compare (2 ^ 31) 0 < 0" by code_simp
  ultimately show ?thesis by simp
qed

lemma compare_near_witness: "stats_compare 3 10 = -7"
  using compare_near [of 3 10] by simp


section \<open>Random integers without bias\<close>

lemma rand64_max_facts:
  assumes "n \<noteq> 0"
  shows "unat (rand64_max n) = (2 ^ 64 - 1) div unat n * unat n" "2 ^ 64 - unat n \<le> unat (rand64_max n)"
proof -
  let ?w = "- 1 :: u64"
  have w: "unat ?w = 2 ^ 64 - 1" by (simp add: unsigned_minus_1_eq_mask mask_eq_exp_minus_1)
  have "?w mod n \<le> ?w" by (rule word_order.extremum)
  then have "unat (rand64_max n) = unat ?w - unat (?w mod n)"
    by (simp add: rand64_max_def unat_sub)
  also have "\<dots> = unat ?w - unat ?w mod unat n" by (simp only: unat_mod)
  also have "\<dots> = unat ?w div unat n * unat n" by (rule minus_mod_eq_div_mult)
  finally show e: "unat (rand64_max n) = (2 ^ 64 - 1) div unat n * unat n" by (simp only: w)
  have "0 < unat n" using assms by (simp add: unat_gt_0)
  then have "(2 ^ 64 - 1) mod unat n < unat n" by simp
  moreover have "(2 ^ 64 - 1) div unat n * unat n + (2 ^ 64 - 1) mod unat n = 2 ^ 64 - 1" by (rule div_mult_mod_eq)
  ultimately show "2 ^ 64 - unat n \<le> unat (rand64_max n)" unfolding e by linarith
qed

text \<open>Of the accepted draws, as many have one remainder as another.\<close>

lemma card_residues:
  assumes "r < (n :: nat)"
  shows "card {x. x < q * n \<and> x mod n = r} = q"
proof -
  have "{x. x < q * n \<and> x mod n = r} = (\<lambda>i. i * n + r) ` {0..<q}"
  proof (intro set_eqI iffI)
    fix x assume "x \<in> {x. x < q * n \<and> x mod n = r}"
    then have x: "x < q * n" "x mod n = r" by simp_all
    then have "x = x div n * n + r" by (metis div_mult_mod_eq)
    moreover have "x div n < q" using x(1) by (simp add: less_mult_imp_div_less)
    ultimately show "x \<in> (\<lambda>i. i * n + r) ` {0..<q}" by auto
  next
    fix x assume "x \<in> (\<lambda>i. i * n + r) ` {0..<q}"
    then obtain i where i: "x = i * n + r" "i < q" by (auto simp only: image_iff atLeastLessThan_iff)
    then have "Suc i * n \<le> q * n" by (intro mult_right_mono) simp_all
    then show "x \<in> {x. x < q * n \<and> x mod n = r}" using i assms by simp
  qed
  moreover have "inj_on (\<lambda>i. i * n + r) {0..<q}" using assms by (auto simp: inj_on_def)
  ultimately show ?thesis by (simp add: card_image)
qed

text \<open>\<open>rand64\<close> is unbiased: every remainder below \<open>n\<close> has the same number of accepted draws,
  and fewer than \<open>n + 1\<close> of the \<open>2 ^ 64\<close> draws are rejected.\<close>

theorem rand64_unbiased:
  assumes "r < n"
  shows "card {x. x < rand64_max n \<and> x mod n = r} = (2 ^ 64 - 1) div unat n \<and>
    2 ^ 64 - unat n \<le> unat (rand64_max n)"
proof -
  have n: "n \<noteq> 0" using assms by auto
  let ?q = "(2 ^ 64 - 1) div unat n"
  have "unat ` {x. x < rand64_max n \<and> x mod n = r} = {x. x < ?q * unat n \<and> x mod unat n = unat r}"
  proof (intro set_eqI iffI)
    fix x assume "x \<in> unat ` {x. x < rand64_max n \<and> x mod n = r}"
    then obtain w where w: "x = unat w" "w < rand64_max n" "w mod n = r" by auto
    have "unat w < ?q * unat n" using w(2) rand64_max_facts(1) [OF n] by (simp only: word_less_nat_alt)
    moreover have "unat w mod unat n = unat r" using w(3) by (metis unat_mod)
    ultimately show "x \<in> {x. x < ?q * unat n \<and> x mod unat n = unat r}" using w(1) by simp
  next
    fix x assume "x \<in> {x. x < ?q * unat n \<and> x mod unat n = unat r}"
    then have x: "x < unat (rand64_max n)" "x mod unat n = unat r"
      using rand64_max_facts(1) [OF n] by simp_all
    have "unat (rand64_max n) < 2 ^ LENGTH(64)" by (rule unsigned_less)
    then have u: "unat (word_of_nat x :: u64) = x" using x(1) by (simp add: unat_of_nat take_bit_nat_eq_self)
    have "(word_of_nat x :: u64) < rand64_max n" using x(1) u by (simp only: word_less_nat_alt)
    moreover have "(word_of_nat x :: u64) mod n = r"
      using x(2) u by (metis unat_mod word_unat_eq_iff)
    ultimately show "x \<in> unat ` {x. x < rand64_max n \<and> x mod n = r}" using u by (intro image_eqI [where x = "word_of_nat x"]) simp_all
  qed
  moreover have "inj_on unat {x. x < rand64_max n \<and> x mod n = r}"
    by (rule inj_onI) (rule unsigned_word_eqI)
  note card_image [OF this]
  ultimately have "card {x. x < rand64_max n \<and> x mod n = r} =
      card {x. x < ?q * unat n \<and> x mod unat n = unat r}" by (simp only:)
  also have "\<dots> = ?q" using assms by (intro card_residues) (simp only: word_less_nat_alt)
  finally show ?thesis using rand64_max_facts(2) [OF n] by simp
qed

lemma rand64_unbiased_witness:
  "card {x. x < rand64_max 10 \<and> x mod 10 = 3} = 1844674407370955161"
  using rand64_unbiased [of 3 10] by simp

text \<open>Draw number \<open>k\<close> and the state after it.\<close>

fun draw :: "tinymt64 \<Rightarrow> nat \<Rightarrow> u64 \<times> tinymt64" where
  "draw st 0 = tinymt64_generate_uint64 st"
| "draw st (Suc k) = draw (snd (tinymt64_generate_uint64 st)) k"

lemma rand64_loop_draw:
  assumes "fst (draw st k) < m" "\<forall>j < k. m \<le> fst (draw st j)"
  shows "rand64_loop st m = Some (draw st k)"
  using assms
proof (induction k arbitrary: st)
  case 0
  then show ?case
    by (cases "tinymt64_generate_uint64 st") (auto simp: rand64_loop.simps [of st])
next
  case (Suc k)
  obtain x st' where g: "tinymt64_generate_uint64 st = (x, st')" by fastforce
  have "m \<le> x" using Suc.prems(2) g by (metis draw.simps(1) fst_conv zero_less_Suc)
  moreover have "rand64_loop st' m = Some (draw st' k)"
  proof (rule Suc.IH)
    show "fst (draw st' k) < m" using Suc.prems(1) g by simp
    show "\<forall>j < k. m \<le> fst (draw st' j)"
    proof (intro allI impI)
      fix j assume "j < k"
      then have "m \<le> fst (draw st (Suc j))" using Suc.prems(2) by blast
      then show "m \<le> fst (draw st' j)" using g by simp
    qed
  qed
  ultimately show ?case using g by (simp add: rand64_loop.simps [of st])
qed

text \<open>\<open>rand64\<close> returns as soon as the generator gives a draw below the limit: the remainder
  of the first such draw, below \<open>n\<close>, and the state after it. For \<open>n = 0\<close> it divides by zero.\<close>

theorem rand64_returns:
  assumes "n \<noteq> 0" "fst (draw st k) < rand64_max n" "\<forall>j < k. rand64_max n \<le> fst (draw st j)"
  shows "rand64 st n = Some (fst (draw st k) mod n, snd (draw st k)) \<and> fst (draw st k) mod n < n \<and>
    rand64 st 0 = None"
  using assms rand64_loop_draw [OF assms(2,3)]
  by (simp add: rand64_def word_gt_0 word_mod_less_divisor split: prod.split)

lemma rand64_returns_witness:
  "\<exists>x st'. rand64 (tinymt64_init \<lparr>status = [0, 0], mat1 = 0, mat2 = 0, tmat = 0\<rparr> 1) 6 = Some (x, st') \<and> x < 6"
proof -
  let ?st = "tinymt64_init \<lparr>status = [0, 0], mat1 = 0, mat2 = 0, tmat = 0\<rparr> 1"
  have "fst (draw ?st 0) < rand64_max 6" by code_simp
  then show ?thesis using rand64_returns [of 6 ?st 0] by (simp del: draw.simps)
qed

end
