(* ===== verification/Script.thy ===== *)
theory Script
  imports Http_Props Stats
begin

text \<open>
  \<open>wrk2/src/script.c\<close>: the growing buffers in which the headers and the body of a response are kept
  for the script, what the script is given of them, the check of the script's request, the parts of the URL, and the
  copying of values between two Lua states. A Lua state is seen through the documented operations of
  its C interface; what the Lua code computes is an argument.
\<close>

section \<open>Buffers\<close>

text \<open>
  The allocated bytes of a buffer, those never written being \<open>None\<close>; a buffer that is \<open>NULL\<close> has none. The
  cursor is the offset from the start. \<open>length\<close> of the source is the number of bytes.
\<close>

record buffer =
  mem :: "char option list"
  cursor :: nat

definition no_buffer :: buffer where
  "no_buffer = \<lparr>mem = [], cursor = 0\<rparr>"

definition NUL :: char where "NUL = CHR 0x00"

text \<open>\<open>realloc\<close> keeps the bytes and adds 1024 that are not initialised, until the data fit.\<close>

function grow :: "nat \<Rightarrow> char option list \<Rightarrow> char option list" where
  "grow needed m = (if length m \<le> needed then grow needed (m @ replicate 1024 None) else m)"
  by auto
termination by (relation "measure (\<lambda>(needed, m). Suc needed - length m)") auto

declare grow.simps [simp del]

definition buffer_append :: "buffer \<Rightarrow> string \<Rightarrow> buffer" where
  "buffer_append b s =
     (let used = cursor b; m = grow (used + length s + 1) (mem b)
      in b\<lparr>mem := take used m @ map Some s @ drop (used + length s) m, cursor := used + length s\<rparr>)"

definition buffer_reset :: "buffer \<Rightarrow> buffer" where
  "buffer_reset b = b\<lparr>cursor := 0\<rparr>"

text \<open>\<open>*b->cursor++ = '\0'\<close>, which must stay inside the allocation.\<close>

definition put_nul :: "buffer \<Rightarrow> buffer option" where
  "put_nul b =
     (if cursor b < length (mem b)
      then Some (b\<lparr>mem := (mem b)[cursor b := Some NUL], cursor := cursor b + 1\<rparr>) else None)"

text \<open>The string from an address to the next NUL; a byte that is not initialised or not allocated has no value.\<close>

fun c_string :: "char option list \<Rightarrow> string option" where
  "c_string [] = None"
| "c_string (None # m) = None"
| "c_string (Some c # m) = (if c = NUL then Some [] else map_option (Cons c) (c_string m))"

definition buffer_pushlstring :: "buffer \<Rightarrow> nat \<Rightarrow> (string \<times> nat) option" where
  "buffer_pushlstring b start = map_option (\<lambda>s. (s, start + length s + 1)) (c_string (drop start (mem b)))"

section \<open>What the script is given of a response\<close>

text \<open>The assignments to the table of headers, in order: pairs of strings from the buffer up to the cursor.\<close>

function headers_from :: "buffer \<Rightarrow> nat \<Rightarrow> (string \<times> string) list option" where
  "headers_from b c =
     (if c < cursor b
      then (case buffer_pushlstring b c of
              None \<Rightarrow> None
            | Some (k, c1) \<Rightarrow>
                (case buffer_pushlstring b c1 of
                   None \<Rightarrow> None
                 | Some (v, c2) \<Rightarrow> map_option (Cons (k, v)) (headers_from b c2)))
      else Some [])"
  by auto
termination by (relation "measure (\<lambda>(b, c). cursor b - c)") (auto simp: buffer_pushlstring_def)

declare headers_from.simps [simp del]

text \<open>The headers and the body that the script's \<open>response\<close> is called with, and the buffers afterwards.\<close>

definition script_response ::
  "buffer \<Rightarrow> buffer \<Rightarrow> ((string \<times> string) list \<times> string \<times> buffer \<times> buffer) option" where
  "script_response headers body = do {
     hs \<leftarrow> headers_from headers 0;
     text \<leftarrow> those (take (cursor body) (mem body));
     Some (hs, text, buffer_reset headers, buffer_reset body)
   }"

text \<open>The table that the assignments leave: a later header with the same name replaces the value.\<close>

definition lua_table :: "(string \<times> string) list \<Rightarrow> (string \<rightharpoonup> string)" where
  "lua_table hs = foldl (\<lambda>t (k, v). t(k \<mapsto> v)) Map.empty hs"

section \<open>The callbacks that fill the buffers\<close>

text \<open>The part of a connection that \<open>header_field\<close>, \<open>header_value\<close> and \<open>response_body\<close> of \<open>wrk.c\<close> use.\<close>

datatype text_state = FIELD | VALUE

record response_text =
  text_state :: text_state
  headers :: buffer
  body :: buffer

definition no_text :: response_text where
  "no_text = \<lparr>text_state = FIELD, headers = no_buffer, body = no_buffer\<rparr>"

definition end_text :: "response_text \<Rightarrow> text_state \<Rightarrow> response_text option" where
  "end_text r st = map_option (\<lambda>b. r\<lparr>headers := b, text_state := st\<rparr>) (put_nul (headers r))"

definition header_field :: "response_text \<Rightarrow> string \<Rightarrow> response_text option" where
  "header_field r s = do {
     r1 \<leftarrow> (if text_state r = VALUE then end_text r FIELD else Some r);
     Some (r1\<lparr>headers := buffer_append (headers r1) s\<rparr>)
   }"

definition header_value :: "response_text \<Rightarrow> string \<Rightarrow> response_text option" where
  "header_value r s = do {
     r1 \<leftarrow> (if text_state r = FIELD then end_text r VALUE else Some r);
     Some (r1\<lparr>headers := buffer_append (headers r1) s\<rparr>)
   }"

definition response_body :: "response_text \<Rightarrow> string \<Rightarrow> response_text" where
  "response_body r s = r\<lparr>body := buffer_append (body r) s\<rparr>"

text \<open>The end of a response: nothing is handed to the script when no header was ever stored.\<close>

definition response_text_complete ::
  "response_text \<Rightarrow> (((string \<times> string) list \<times> string) option \<times> response_text) option" where
  "response_text_complete r =
     (if mem (headers r) = [] then Some (None, r)
      else do {
        b \<leftarrow> put_nul (headers r);
        (hs, text, headers', body') \<leftarrow> script_response b (body r);
        Some (Some (hs, text), \<lparr>text_state = FIELD, headers = headers', body = body'\<rparr>)
      })"

section \<open>Buffers hold the bytes appended\<close>

definition holds :: "buffer \<Rightarrow> string \<Rightarrow> bool" where
  "holds b s \<longleftrightarrow> cursor b = length s \<and> cursor b \<le> length (mem b) \<and> take (length s) (mem b) = map Some s"

lemma grow_spec: "\<exists>k. grow n m = m @ replicate k None \<and> n < length (grow n m)"
proof (induction n m rule: grow.induct)
  case (1 n m)
  show ?case
  proof (cases "length m \<le> n")
    case True
    then obtain k where "grow n (m @ replicate 1024 None) = (m @ replicate 1024 None) @ replicate k None"
      "n < length (grow n (m @ replicate 1024 None))" using 1 by blast
    then show ?thesis using True by (intro exI [of _ "1024 + k"]) (simp add: grow.simps [of n m] replicate_add)
  next
    case False
    then show ?thesis by (intro exI [of _ 0]) (simp add: grow.simps [of n m])
  qed
qed

lemma holds_append:
  assumes "holds b s"
  shows "holds (buffer_append b t) (s @ t)" "cursor (buffer_append b t) + 1 < length (mem (buffer_append b t))"
proof -
  obtain k where g: "grow (cursor b + length t + 1) (mem b) = mem b @ replicate k None"
    "cursor b + length t + 1 < length (mem b @ replicate k None)"
    using grow_spec [of "cursor b + length t + 1" "mem b"] by metis
  have m: "mem (buffer_append b t) = map Some (s @ t) @ drop (length s + length t) (mem b @ replicate k None)"
    using assms g by (simp add: buffer_append_def holds_def Let_def)
  then show "holds (buffer_append b t) (s @ t)" "cursor (buffer_append b t) + 1 < length (mem (buffer_append b t))"
    using assms g by (auto simp: holds_def buffer_append_def Let_def)
qed

lemma holds_put_nul:
  assumes "holds b s" "cursor b < length (mem b)"
  shows "\<exists>b'. put_nul b = Some b' \<and> holds b' (s @ [NUL])"
  using assms by (auto simp: put_nul_def holds_def take_Suc_conv_app_nth)

lemma holds_reset [simp]: "holds (buffer_reset b) []"
  by (simp add: holds_def buffer_reset_def)

lemma holds_no_buffer [simp]: "holds no_buffer []"
  by (simp add: holds_def no_buffer_def)

lemma holds_text: "holds b s \<Longrightarrow> those (take (cursor b) (mem b)) = Some s"
proof -
  have "those (map Some s) = Some s" for s :: string by (induction s) simp_all
  then show "holds b s \<Longrightarrow> those (take (cursor b) (mem b)) = Some s" by (simp add: holds_def)
qed

section \<open>Headers arrive unchanged\<close>

text \<open>The bytes of a list of headers as the buffer has them, each string ended by a NUL.\<close>

definition encoded :: "(string \<times> string) list \<Rightarrow> string" where
  "encoded hs = concat (map (\<lambda>(k, v). k @ NUL # v @ [NUL]) hs)"

lemma encoded_simps [simp]:
  "encoded [] = []" "encoded ((k, v) # hs) = k @ NUL # v @ NUL # encoded hs"
  "encoded (hs @ hs') = encoded hs @ encoded hs'"
  by (simp_all add: encoded_def)

lemma c_string_upto_nul:
  "NUL \<notin> set s \<Longrightarrow> c_string (map Some s @ Some NUL # m) = Some s"
  by (induction s) auto

lemma headers_from_encoded:
  assumes "drop i (mem b) = map Some (encoded hs) @ rest" "cursor b = i + length (encoded hs)"
    and "\<forall>(k, v) \<in> set hs. NUL \<notin> set k \<and> NUL \<notin> set v"
  shows "headers_from b i = Some hs"
  using assms
proof (induction hs arbitrary: i)
  case Nil
  then show ?case by (simp add: headers_from.simps)
next
  case (Cons h hs)
  obtain k v where h: "h = (k, v)" by (cases h)
  let ?j = "i + length k + 1" and ?l = "i + length k + 1 + length v + 1"
  have nul: "NUL \<notin> set k" "NUL \<notin> set v" using Cons.prems(3) h by auto
  have d: "drop i (mem b) = map Some k @ Some NUL # map Some v @ Some NUL # map Some (encoded hs) @ rest"
    using Cons.prems(1) h by simp
  have dj: "drop ?j (mem b) = map Some v @ Some NUL # map Some (encoded hs) @ rest"
    using arg_cong [OF d, of "drop (length k + 1)"] by (simp add: drop_Suc add.commute)
  have dl: "drop ?l (mem b) = map Some (encoded hs) @ rest"
    using arg_cong [OF dj, of "drop (length v + 1)"] by (simp add: drop_Suc add.commute)
  have "buffer_pushlstring b i = Some (k, ?j)" "buffer_pushlstring b ?j = Some (v, ?l)"
    unfolding buffer_pushlstring_def d dj c_string_upto_nul [OF nul(1)] c_string_upto_nul [OF nul(2)] by simp_all
  moreover have "headers_from b ?l = Some hs"
    by (rule Cons.IH [OF dl]) (use Cons.prems(2,3) h in auto)
  moreover have "i < cursor b" using Cons.prems(2) h by simp
  ultimately show ?case by (simp add: headers_from.simps [of b i] h)
qed

text \<open>The callbacks of one response: the pieces of the names and values of its headers, as the parser cuts them at the ends
  of its buffers, and the pieces of the body.\<close>

definition header_pieces :: "string list \<times> string list \<Rightarrow> response_text \<Rightarrow> response_text option" where
  "header_pieces h r = do {
     r1 \<leftarrow> foldl (\<lambda>r s. Option.bind r (\<lambda>r. header_field r s)) (Some r) (fst h);
     foldl (\<lambda>r s. Option.bind r (\<lambda>r. header_value r s)) (Some r1) (snd h)
   }"

fun all_pieces :: "(string list \<times> string list) list \<Rightarrow> response_text \<Rightarrow> response_text option" where
  "all_pieces [] r = Some r"
| "all_pieces (h # hs) r = Option.bind (header_pieces h r) (all_pieces hs)"

definition joined :: "string list \<times> string list \<Rightarrow> string \<times> string" where
  "joined h = (concat (fst h), concat (snd h))"

text \<open>In a value: the last NUL is not yet written, and there is room for it.\<close>

definition in_value :: "response_text \<Rightarrow> (string \<times> string) list \<Rightarrow> bool" where
  "in_value r hs \<longleftrightarrow> text_state r = VALUE \<and> hs \<noteq> [] \<and> holds (headers r) (butlast (encoded hs)) \<and>
     cursor (headers r) < length (mem (headers r))"

definition in_field :: "response_text \<Rightarrow> string \<Rightarrow> bool" where
  "in_field r s \<longleftrightarrow> text_state r = FIELD \<and> holds (headers r) s"

lemma fields_held:
  assumes "in_field r s"
  shows "\<exists>r'. foldl (\<lambda>r s. Option.bind r (\<lambda>r. header_field r s)) (Some r) fs = Some r' \<and>
    in_field r' (s @ concat fs) \<and> (fs \<noteq> [] \<longrightarrow> cursor (headers r') < length (mem (headers r'))) \<and> body r' = body r"
  using assms
proof (induction fs rule: rev_induct)
  case (snoc f fs)
  then obtain r1 where r1: "foldl (\<lambda>r s. Option.bind r (\<lambda>r. header_field r s)) (Some r) fs = Some r1"
    "in_field r1 (s @ concat fs)" "body r1 = body r" by blast
  then show ?case using holds_append [of "headers r1" "s @ concat fs" f]
    by (auto simp: header_field_def in_field_def)
qed simp

lemma values_held:
  assumes "text_state r = VALUE" "holds (headers r) s" "cursor (headers r) \<le> length (mem (headers r))"
  shows "\<exists>r'. foldl (\<lambda>r s. Option.bind r (\<lambda>r. header_value r s)) (Some r) vs = Some r' \<and>
    text_state r' = VALUE \<and> holds (headers r') (s @ concat vs) \<and>
    (vs \<noteq> [] \<longrightarrow> cursor (headers r') < length (mem (headers r'))) \<and> body r' = body r"
  using assms
proof (induction vs rule: rev_induct)
  case (snoc v vs)
  then obtain r1 where r1: "foldl (\<lambda>r s. Option.bind r (\<lambda>r. header_value r s)) (Some r) vs = Some r1"
    "text_state r1 = VALUE" "holds (headers r1) (s @ concat vs)" "body r1 = body r" by blast
  then show ?case using holds_append [of "headers r1" "s @ concat vs" v]
    by (auto simp: header_value_def)
qed simp

lemma header_pieces_held:
  assumes "in_field r (encoded hs) \<or> in_value r hs" "fst h \<noteq> []" "snd h \<noteq> []"
  shows "\<exists>r'. header_pieces h r = Some r' \<and> in_value r' (hs @ [joined h]) \<and> body r' = body r"
proof -
  obtain f fs v vs where h: "h = (f # fs, v # vs)" using assms(2,3) by (cases h, cases "fst h", auto, cases "snd h", auto)
  obtain r0 where r0: "(if text_state r = VALUE then end_text r FIELD else Some r) = Some r0"
    "in_field r0 (encoded hs)" "body r0 = body r"
  proof (cases "in_value r hs")
    case True
    then have "butlast (encoded hs) @ [NUL] = encoded hs"
      by (cases hs rule: rev_cases) (auto simp: in_value_def butlast_append)
    then obtain b where "put_nul (headers r) = Some b" "holds b (encoded hs)"
      using True holds_put_nul [of "headers r" "butlast (encoded hs)"] by (auto simp: in_value_def)
    then show ?thesis using True that by (simp add: in_value_def in_field_def end_text_def)
  next
    case False
    then show ?thesis using assms(1) that by (simp add: in_field_def)
  qed
  have step: "header_field r f = header_field r0 f"
    using r0 by (auto simp: header_field_def in_field_def)
  obtain r1 where r1: "foldl (\<lambda>r s. Option.bind r (\<lambda>r. header_field r s)) (Some r) (f # fs) = Some r1"
    "in_field r1 (encoded hs @ concat (f # fs))" "cursor (headers r1) < length (mem (headers r1))" "body r1 = body r"
    using fields_held [OF r0(2), of "f # fs"] r0(3) step by auto
  obtain b where b: "put_nul (headers r1) = Some b" "holds b (encoded hs @ concat (f # fs) @ [NUL])"
    using holds_put_nul [of "headers r1" "encoded hs @ concat (f # fs)"] r1 by (auto simp: in_field_def)
  let ?r2 = "r1\<lparr>headers := b, text_state := VALUE\<rparr>"
  have step2: "header_value r1 v = header_value ?r2 v"
    using r1(2) b(1) by (simp add: header_value_def in_field_def end_text_def)
  obtain r3 where "foldl (\<lambda>r s. Option.bind r (\<lambda>r. header_value r s)) (Some ?r2) (v # vs) = Some r3"
    "text_state r3 = VALUE" "holds (headers r3) ((encoded hs @ concat (f # fs) @ [NUL]) @ concat (v # vs))"
    "cursor (headers r3) < length (mem (headers r3))" "body r3 = body r"
    using values_held [of ?r2 "encoded hs @ concat (f # fs) @ [NUL]" "v # vs"] b(2) r1(4)
    by (auto simp: holds_def)
  then show ?thesis using r1(1) step2
    by (auto simp: header_pieces_def h in_value_def joined_def butlast_append simp del: concat.simps)
qed

lemma all_pieces_held:
  assumes "in_field r (encoded hs) \<or> in_value r hs" "\<forall>h \<in> set ps. fst h \<noteq> [] \<and> snd h \<noteq> []" "ps \<noteq> []"
  shows "\<exists>r'. all_pieces ps r = Some r' \<and> in_value r' (hs @ map joined ps) \<and> body r' = body r"
  using assms
proof (induction ps arbitrary: r hs)
  case (Cons h ps)
  obtain r1 where r1: "header_pieces h r = Some r1" "in_value r1 (hs @ [joined h])" "body r1 = body r"
    using header_pieces_held [of r hs h] Cons.prems by auto
  show ?case
  proof (cases "ps = []")
    case True
    then show ?thesis using r1 by simp
  next
    case False
    then show ?thesis using Cons.IH [of r1 "hs @ [joined h]"] Cons.prems(2) r1 by auto
  qed
qed simp

lemma body_held:
  "holds (body r) s \<Longrightarrow> holds (body (foldl response_body r ds)) (s @ concat ds) \<and>
     headers (foldl response_body r ds) = headers r \<and> text_state (foldl response_body r ds) = text_state r"
proof (induction ds arbitrary: r s)
  case (Cons d ds)
  then show ?case using Cons.IH [of "response_body r d" "s @ d"] holds_append(1) [of "body r" s d]
    by (simp add: response_body_def)
qed simp

lemma response_delivered:
  assumes "text_state r = FIELD" "holds (headers r) []" "holds (body r) []"
    and "ps \<noteq> []" "\<forall>h \<in> set ps. fst h \<noteq> [] \<and> snd h \<noteq> []"
    and "\<forall>h \<in> set ps. NUL \<notin> set (fst (joined h)) \<and> NUL \<notin> set (snd (joined h))"
  obtains r1 b b' where "all_pieces ps r = Some r1" "holds b (encoded (map joined ps))"
    "response_text_complete (foldl response_body r1 ds) =
      Some (Some (map joined ps, concat ds), \<lparr>text_state = FIELD, headers = buffer_reset b, body = buffer_reset b'\<rparr>)"
proof -
  obtain r1 where r1: "all_pieces ps r = Some r1" "in_value r1 (map joined ps)" "body r1 = body r"
    using all_pieces_held [of r "[]" ps] assms(1,2,4,5) by (auto simp: in_field_def)
  let ?r = "foldl response_body r1 ds" and ?hs = "map joined ps"
  have r: "holds (body ?r) (concat ds)" "headers ?r = headers r1"
    using body_held [of r1 "[]" ds] r1(3) assms(3) by simp_all
  have "butlast (encoded ?hs) @ [NUL] = encoded ?hs"
    using assms(4) by (cases ps rule: rev_cases) (auto simp: joined_def butlast_append)
  then obtain b where b: "put_nul (headers r1) = Some b" "holds b (encoded ?hs)"
    using holds_put_nul [of "headers r1" "butlast (encoded ?hs)"] r1(2) by (auto simp: in_value_def)
  have "mem b = map Some (encoded ?hs) @ drop (length (encoded ?hs)) (mem b)"
    using b(2) append_take_drop_id [of "length (encoded ?hs)" "mem b"] by (simp add: holds_def)
  then have "headers_from b 0 = Some ?hs"
    by (intro headers_from_encoded [of 0 b ?hs]) (use b(2) assms(6) in \<open>auto simp: holds_def joined_def\<close>)
  moreover have "mem (headers r1) \<noteq> []" using r1(2) by (auto simp: in_value_def)
  ultimately show thesis using that [OF r1(1) b(2)] r b(1) holds_text [OF r(1)]
    by (simp add: response_text_complete_def script_response_def)
qed

text \<open>C12: What the script is given of a response is what the parser delivered: whatever pieces the names, the values and the body
  came in, its \<open>response\<close> gets exactly the headers, in order, and the body; no byte is written outside
  the buffers or read before it was written; and the buffers are ready for the next response.\<close>

theorem response_roundtrip:
  assumes "text_state r = FIELD" "holds (headers r) []" "holds (body r) []"
    and "ps \<noteq> []" "\<forall>h \<in> set ps. fst h \<noteq> [] \<and> snd h \<noteq> []"
    and "\<forall>h \<in> set ps. NUL \<notin> set (fst (joined h)) \<and> NUL \<notin> set (snd (joined h))"
  shows "\<exists>r1 r2. all_pieces ps r = Some r1 \<and>
    response_text_complete (foldl response_body r1 ds) = Some (Some (map joined ps, concat ds), r2) \<and>
    text_state r2 = FIELD \<and> holds (headers r2) [] \<and> holds (body r2) []"
  by (rule response_delivered [OF assms, of ds]) auto

lemma response_roundtrip_witness:
  "\<exists>r1 r2. all_pieces [([''Ser'', ''ver''], [''nginx'']), ([''Age''], [''''])] no_text = Some r1 \<and>
    response_text_complete (foldl response_body r1 [''he'', ''llo'']) =
      Some (Some ([(''Server'', ''nginx''), (''Age'', '''')], ''hello''), r2)"
  using response_roundtrip [of no_text "[([''Ser'', ''ver''], [''nginx'']), ([''Age''], [''''])]" "[''he'', ''llo'']"]
  by (auto simp: no_text_def joined_def NUL_def simp del: all_pieces.simps)

text \<open>C38: A response without headers, after one that had some: the NUL that ends the last value is written although there is
  none, so the script gets an entry that no response had, the empty name with the rest of the first name of the
  response before, from bytes beyond the cursor. And the first responses, as long as none has had a
  header, are not handed to the script at all.\<close>

theorem response_without_headers:
  assumes "text_state r = FIELD" "holds (headers r) []" "holds (body r) []"
    and "ps \<noteq> []" "\<forall>h \<in> set ps. fst h \<noteq> [] \<and> snd h \<noteq> []"
    and "\<forall>h \<in> set ps. NUL \<notin> set (fst (joined h)) \<and> NUL \<notin> set (snd (joined h))"
    and "fst (joined (hd ps)) = c # name"
  shows "response_text_complete no_text = Some (None, no_text) \<and>
    (\<exists>r1 r2 r3. all_pieces ps r = Some r1 \<and>
      response_text_complete r1 = Some (Some (map joined ps, []), r2) \<and>
      response_text_complete r2 = Some (Some ([([], name)], []), r3))"
proof -
  obtain r1 b b' where r: "all_pieces ps r = Some r1" "holds b (encoded (map joined ps))"
    "response_text_complete r1 = Some (Some (map joined ps, []), \<lparr>text_state = FIELD, headers = buffer_reset b, body = buffer_reset b'\<rparr>)"
    using response_delivered [OF assms(1-6), of "[]"] by auto
  obtain h hs where ps: "ps = h # hs" using assms(4) by (cases ps) auto
  have e: "encoded (map joined ps) = c # name @ NUL # snd (joined h) @ NUL # encoded (map joined hs)"
    using assms(7) by (cases "joined h") (simp add: ps)
  have nul: "NUL \<notin> set name" using assms(6,7) by (simp add: ps)
  obtain m where m: "mem b = Some c # map Some name @ Some NUL # m"
    using r(2) append_take_drop_id [of "length (encoded (map joined ps))" "mem b"] unfolding holds_def e
    by (metis append.assoc append_Cons list.simps(9) map_append)
  let ?b = "\<lparr>mem = Some NUL # map Some name @ Some NUL # m, cursor = 1\<rparr>"
  have "put_nul (buffer_reset b) = Some ?b" by (simp add: put_nul_def buffer_reset_def m)
  moreover have "headers_from ?b 0 = Some [([], name)]"
    using c_string_upto_nul [OF nul, of m] by (simp add: headers_from.simps buffer_pushlstring_def)
  ultimately have "\<exists>r3. response_text_complete \<lparr>text_state = FIELD, headers = buffer_reset b, body = buffer_reset b'\<rparr> =
      Some (Some ([([], name)], []), r3)"
    by (simp add: response_text_complete_def script_response_def m) (simp add: buffer_reset_def m)
  then show ?thesis using r(1,3) by (auto simp: response_text_complete_def no_text_def no_buffer_def)
qed

lemma response_without_headers_witness:
  "\<exists>r1 r2 r3. all_pieces [([''Server''], [''nginx''])] no_text = Some r1 \<and>
    response_text_complete r1 = Some (Some ([(''Server'', ''nginx'')], []), r2) \<and>
    response_text_complete r2 = Some (Some ([([], ''erver'')], []), r3)"
  using response_without_headers [of no_text "[([''Server''], [''nginx''])]" "CHR ''S''" "''erver''"]
  by (auto simp: no_text_def joined_def NUL_def simp del: all_pieces.simps)

section \<open>The check of the script's request\<close>

text \<open>The user data of the parser is the counter.\<close>

definition verify_request :: "u64 http_cb" where
  "verify_request ps = (0, ps\<lparr>data := data ps + 1\<rparr>)"

definition verify_settings :: "u64 http_parser_settings" where
  "verify_settings = \<lparr>on_message_begin = None, on_url = None, on_status = None, on_header_field = None,
     on_header_value = None, on_headers_complete = None, on_body = None, on_message_complete = Some verify_request\<rparr>"

text \<open>The line and column after the consumed bytes, counted from 1.\<close>

fun line_column :: "int \<times> int \<Rightarrow> string \<Rightarrow> int \<times> int" where
  "line_column lc [] = lc"
| "line_column (line, column) (c # cs) =
     line_column (if c = LF then (line + 1, 1) else (line, column + 1)) cs"

text \<open>\<open>request\<close> is what the script's \<open>request\<close> function returned; the counter starts at 0 and the other fields of the
  parser are set by \<open>http_parser_init\<close>. The left result is the message with which the program exits.\<close>

definition script_verify_request :: "u64 http_parser \<Rightarrow> string \<Rightarrow> ((string \<times> int \<times> int) + u64) option" where
  "script_verify_request uninit request =
     (case http_parser_execute verify_settings ((http_parser_init uninit HTTP_REQUEST)\<lparr>data := 0\<rparr>) request of
        None \<Rightarrow> None
      | Some (parsed, ps) \<Rightarrow>
          if parsed \<noteq> int (length request) \<or> data ps = 0
          then (let msg = (if http_errno ps \<noteq> HPE_OK then http_errno_description (http_errno ps) else ''incomplete request'')
                in Some (Inl (msg, line_column (1, 1) (take (nat parsed) request))))
          else Some (Inr (data ps)))"

lemma verify_callbacks: "callbacks_ok verify_settings"
  by (auto simp: callbacks_ok_def verify_settings_def verify_request_def notify_ok_def data_ok_def
    complete_ok_def keeps_state_def parser_ok_def limits_ok_def state_ok_def flag_set_def cong: state.case_cong)

interpretation vr: http_client verify_settings
  by unfold_locales (rule verify_callbacks)

lemma line_column_spec:
  "line_column (line, column) s =
     (line + int (count_list s LF),
      if LF \<in> set s then 1 + int (length (takeWhile (\<lambda>c. c \<noteq> LF) (rev s))) else column + int (length s))"
proof (induction s arbitrary: line column)
  case (Cons c s)
  show ?case
  proof (cases "LF \<in> set s")
    case True
    then have "takeWhile (\<lambda>c. c \<noteq> LF) (rev s @ [c]) = takeWhile (\<lambda>c. c \<noteq> LF) (rev s)"
      by (intro takeWhile_append1 [of LF]) auto
    then show ?thesis using Cons True by simp
  next
    case False
    then have "takeWhile (\<lambda>c. c \<noteq> LF) (rev s @ [LF]) = rev s"
      by (subst takeWhile_append2) auto
    then show ?thesis using Cons False by auto
  qed
qed simp

text \<open>Checking the script's request always ends. Either every byte of it is consumed and it holds a number of complete requests,
  the depth of the pipeline; or the program exits with a message and the line and column of the first
  byte that was not consumed.\<close>

theorem verify_request_total:
  assumes "length request < 2 ^ 64"
  shows "(\<exists>n. script_verify_request uninit request = Some (Inr n) \<and> n \<noteq> 0) \<or>
    (\<exists>msg done. done \<le> length request \<and> script_verify_request uninit request =
       Some (Inl (msg, 1 + int (count_list (take done request) LF),
         1 + int (length (takeWhile (\<lambda>c. c \<noteq> LF) (rev (take done request)))))))"
proof -
  let ?ps = "(http_parser_init uninit HTTP_REQUEST)\<lparr>data := 0\<rparr>"
  have "parser_ok ?ps" using init_ok [of uninit HTTP_REQUEST]
    by (simp add: parser_ok_def limits_ok_def state_ok_def flag_set_def cong: state.case_cong)
  then obtain n ps where e: "http_parser_execute verify_settings ?ps request = Some (n, ps)" "0 \<le> n"
    "n \<le> max 1 (int (length request))"
    using vr.feed_ok [of ?ps "[request]"] assms by (auto split: option.splits)
  have start: "(if LF \<in> set s then 1 + int (length (takeWhile (\<lambda>c. c \<noteq> LF) (rev s))) else 1 + int (length s)) =
      1 + int (length (takeWhile (\<lambda>c. c \<noteq> LF) (rev s)))" for s
  proof (cases "LF \<in> set s")
    case False
    then have "takeWhile (\<lambda>c. c \<noteq> LF) (rev s) = rev s" by (subst takeWhile_eq_all_conv) auto
    then show ?thesis by (simp only: length_rev if_cancel)
  qed simp
  show ?thesis
  proof (cases "n \<noteq> int (length request) \<or> data ps = 0")
    case False
    then show ?thesis using e(1) by (simp add: script_verify_request_def)
  next
    case True
    let ?done = "min (nat n) (length request)"
    have "take ?done request = take (nat n) request" by (simp add: min_def)
    then show ?thesis using e(1) True
      by (intro disjI2 exI [of _ "if http_errno ps \<noteq> HPE_OK then http_errno_description (http_errno ps) else ''incomplete request''"]
          exI [of _ ?done])
        (simp add: script_verify_request_def line_column_spec start)
  qed
qed

definition unset_parser :: "u64 http_parser" where
  "unset_parser =
     \<lparr>parser_type = HTTP_BOTH, flags = 0, state = s_dead, header_state = h_general, index = 0, nread = 0,
      content_length = 0, http_major = 0, http_minor = 0, status_code = 0, method = HTTP_DELETE,
      http_errno = HPE_OK, upgrade = False, data = 0\<rparr>"

lemma verify_request_total_witness:
  "script_verify_request unset_parser ''GET / HTTP/1.1'' \<noteq> None"
  using verify_request_total [of "''GET / HTTP/1.1''" unset_parser] by auto

text \<open>Two requests in a pipeline, and one that breaks off.\<close>

lemma verify_request_pipeline:
  "script_verify_request unset_parser
     (''GET / HTTP/1.1'' @ [CR, LF, CR, LF] @ ''GET /a HTTP/1.1'' @ [CR, LF, CR, LF]) = Some (Inr 2)"
  "script_verify_request unset_parser (''GET / HTTP/1.1'' @ [CR, LF]) = Some (Inl (''incomplete request'', 2, 1))"
  by code_simp+

section \<open>The URL and the headers of the command line\<close>

definition script_parse_url :: "string \<Rightarrow> http_parser_url \<Rightarrow> (bool \<times> http_parser_url) option" where
  "script_parse_url url parts =
     map_option (\<lambda>(rc, u). (rc = 0 \<and> has_field u UF_SCHEMA \<and> has_field u UF_HOST, u))
       (http_parser_parse_url url False parts)"

definition no_parts :: http_parser_url where
  "no_parts = \<lparr>field_set = 0, port = 0, field_off = (\<lambda>_. 0), field_len = (\<lambda>_. 0)\<rparr>"

definition push_url_part :: "string \<Rightarrow> http_parser_url \<Rightarrow> http_parser_url_fields \<Rightarrow> string option" where
  "push_url_part url parts f =
     (if has_field parts f
      then Some (take (unat (field_len parts f)) (drop (unat (field_off parts f)) url)) else None)"

text \<open>A header argument is used when a space follows its first colon.\<close>

definition header_argument :: "string \<Rightarrow> (string \<times> string) option" where
  "header_argument h =
     (case dropWhile (\<lambda>c. c \<noteq> CHR '':'') h of
        colon # c # v \<Rightarrow> if c = SP then Some (takeWhile (\<lambda>c. c \<noteq> CHR '':'') h, v) else None
      | _ \<Rightarrow> None)"

text \<open>The fields of the table \<open>wrk\<close> that \<open>script_create\<close> sets before the script is run.\<close>

record wrk_table =
  wrk_scheme :: "string option"
  wrk_host :: "string option"
  wrk_port :: "string option"
  wrk_path :: string
  wrk_headers :: "string \<rightharpoonup> string"

definition script_create :: "string \<Rightarrow> string list \<Rightarrow> wrk_table option" where
  "script_create url hs =
     map_option (\<lambda>(ok, parts).
         \<lparr>wrk_scheme = push_url_part url parts UF_SCHEMA, wrk_host = push_url_part url parts UF_HOST,
          wrk_port = push_url_part url parts UF_PORT,
          wrk_path = (if has_field parts UF_PATH then drop (unat (field_off parts UF_PATH)) url else ''/''),
          wrk_headers = lua_table (List.map_filter header_argument hs)\<rparr>)
       (script_parse_url url no_parts)"

lemma script_create_example:
  "map_option (\<lambda>t. (wrk_scheme t, wrk_host t, wrk_port t, wrk_path t, wrk_headers t ''Accept''))
     (script_create ''http://user@ngx:8080/a/b?x=1'' [''Accept: text'', ''Bad:x''])
   = Some (Some ''http'', Some ''ngx'', Some ''8080'', ''/a/b?x=1'', Some ''text'')"
  by code_simp

section \<open>The statistics as the script reads them\<close>

text \<open>\<open>s[index]\<close>: a percentile of the histogram, or an element of the array, with no check of the index.\<close>

definition script_stats_index :: "stats \<Rightarrow> int \<Rightarrow> int option" where
  "script_stats_index s i =
     (case histogram s of
        Some h \<Rightarrow>
          (if total_count h = 0 then (if 0 \<le> i then hdr_value_at_percentile h 100 else None)
           else hdr_value_at_percentile h (100 * of_int i / of_int (total_count h)))
      | None \<Rightarrow> map_option uint (array_get (sdata s) (i - 1)))"

definition script_stats_len :: "stats \<Rightarrow> int" where
  "script_stats_len s = (case histogram s of Some h \<Rightarrow> total_count h | None \<Rightarrow> uint (limit s))"

section \<open>Values between two Lua states\<close>

text \<open>
  A stack, its top first; index -k is element k - 1. A table is the list of its entries in the order of \<open>lua_next\<close>. A
  Lua error leaves the function and has no result.
\<close>

datatype lua_value =
    LNil | LBool bool | LNumber rat | LString string | LTable "(lua_value \<times> lua_value) list" | LOther

fun next_entry :: "lua_value \<Rightarrow> (lua_value \<times> lua_value) list \<Rightarrow> (lua_value \<times> lua_value) option option" where
  "next_entry key [] = None"
| "next_entry key ((k, v) # es) =
     (if k = key then Some (case es of [] \<Rightarrow> None | e # _ \<Rightarrow> Some e) else next_entry key es)"

text \<open>\<open>lua_next\<close> pops a key and pushes the next entry of the table at the index, or nothing after the last one.\<close>

definition lua_next :: "lua_value list \<Rightarrow> nat \<Rightarrow> (bool \<times> lua_value list) option" where
  "lua_next stk k =
     (case stk of [] \<Rightarrow> None
      | key # below \<Rightarrow>
          if length stk < k then None
          else (case stk ! (k - 1) of
                  LTable es \<Rightarrow>
                    (case (if key = LNil then Some (case es of [] \<Rightarrow> None | e # _ \<Rightarrow> Some e) else next_entry key es) of
                       None \<Rightarrow> None
                     | Some None \<Rightarrow> Some (False, below)
                     | Some (Some (k', v')) \<Rightarrow> Some (True, v' # k' # below))
                | _ \<Rightarrow> None))"

fun set_entry :: "lua_value \<Rightarrow> lua_value \<Rightarrow> (lua_value \<times> lua_value) list \<Rightarrow> (lua_value \<times> lua_value) list" where
  "set_entry k v [] = [(k, v)]"
| "set_entry k v ((k', v') # es) = (if k' = k then (k, v) # es else (k', v') # set_entry k v es)"

text \<open>\<open>lua_settable\<close> with index -3: the value is on the top, the key below it, then the table.\<close>

fun lua_settable :: "lua_value list \<Rightarrow> lua_value list option" where
  "lua_settable (v # k # LTable es # below) = (if k = LNil then None else Some (LTable (set_entry k v es) # below))"
| "lua_settable _ = None"

datatype copy_task = Copy nat | Entries nat

partial_function (option) copy_lua ::
  "copy_task \<Rightarrow> lua_value list \<Rightarrow> lua_value list \<Rightarrow> (lua_value list \<times> lua_value list) option" where
  "copy_lua t src dst =
     (case t of
        Copy k \<Rightarrow>
          (if length src < k then None
           else (case src ! (k - 1) of
                   LBool b \<Rightarrow> Some (src, LBool b # dst)
                 | LNil \<Rightarrow> Some (src, LNil # dst)
                 | LNumber n \<Rightarrow> Some (src, LNumber n # dst)
                 | LString s \<Rightarrow> Some (src, LString (takeWhile (\<lambda>c. c \<noteq> NUL) s) # dst)
                 | LTable es \<Rightarrow> do {
                     (src1, dst1) \<leftarrow> copy_lua (Entries (Suc k)) (LNil # src) (LTable [] # dst);
                     if src1 = [] then None else Some (tl src1, dst1)
                   }
                 | LOther \<Rightarrow> None))
      | Entries k \<Rightarrow> do {
          (found, src1) \<leftarrow> lua_next src k;
          if \<not> found then Some (src1, dst)
          else do {
            (src2, dst2) \<leftarrow> copy_lua (Copy 1) src1 dst;
            (src3, dst3) \<leftarrow> copy_lua (Copy 2) src2 dst2;
            dst4 \<leftarrow> lua_settable dst3;
            if src3 = [] then None else copy_lua (Entries k) (tl src3) dst4
          }
        })"

declare copy_lua.simps [code]

definition script_copy_value :: "lua_value list \<Rightarrow> lua_value list \<Rightarrow> nat \<Rightarrow> (lua_value list \<times> lua_value list) option" where
  "script_copy_value src dst k = copy_lua (Copy k) src dst"

lemma copy_string:
  "NUL \<notin> set s \<Longrightarrow> k \<le> length src \<Longrightarrow> src ! (k - 1) = LString s \<Longrightarrow> copy_lua (Copy k) src dst = Some (src, LString s # dst)"
  by (subst copy_lua.simps) (use takeWhile_eq_all_conv [of "\<lambda>c. c \<noteq> NUL" s] in auto)

lemma set_entry_new: "k \<notin> fst ` set es \<Longrightarrow> set_entry k v es = es @ [(k, v)]"
  by (induction es) auto

lemma next_entry_at:
  "distinct (map fst (es @ e # es')) \<Longrightarrow>
    next_entry (fst e) (es @ e # es') = Some (case es' of [] \<Rightarrow> None | e' # _ \<Rightarrow> Some e')"
  by (induction es) (cases e, auto)

abbreviation string_entries :: "(string \<times> string) list \<Rightarrow> (lua_value \<times> lua_value) list" where
  "string_entries es \<equiv> map (\<lambda>(k, v). (LString k, LString v)) es"

lemma distinct_string_keys: "distinct (map fst (string_entries es)) \<longleftrightarrow> distinct (map fst es)"
proof -
  have keys: "map fst (string_entries es) = map LString (map fst es)" by (induction es) auto
  show ?thesis unfolding keys distinct_map [of LString "map fst es"] by (simp add: inj_on_def)
qed

lemma next_string_entry:
  assumes "distinct (map fst (xs @ x # ys))"
  shows "next_entry (LString (fst x)) (string_entries (xs @ x # ys)) =
    Some (case ys of [] \<Rightarrow> None | (k, v) # _ \<Rightarrow> Some (LString k, LString v))"
proof -
  obtain k v where x: "x = (k, v)" by (cases x)
  have "distinct (map fst (string_entries (xs @ x # ys)))" using assms by (simp only: distinct_string_keys)
  then show ?thesis
    using next_entry_at [of "string_entries xs" "(LString k, LString v)" "string_entries ys"]
    by (simp add: x split: list.splits prod.splits)
qed

lemma entries_swapped:
  assumes d: "distinct (map fst (done @ es))" "distinct (map snd (done @ es))"
    and nul: "\<forall>(k, v) \<in> set es. NUL \<notin> set k \<and> NUL \<notin> set v"
    and key: "key = (if done = [] then LNil else LString (fst (last done)))"
  shows "copy_lua (Entries 2) (key # LTable (string_entries (done @ es)) # rest)
      (LTable (map prod.swap (string_entries done)) # dst) =
    Some (LTable (string_entries (done @ es)) # rest, LTable (map prod.swap (string_entries (done @ es))) # dst)"
  using assms
proof (induction es arbitrary: "done" key)
  case Nil
  have "lua_next (key # LTable (string_entries done) # rest) 2 = Some (False, LTable (string_entries done) # rest)"
  proof (cases "done" rule: rev_cases)
    case (snoc xs x)
    then show ?thesis using Nil.prems(1,4) next_string_entry [of xs x "[]"] by (simp add: lua_next_def)
  qed (use Nil.prems in \<open>simp add: lua_next_def\<close>)
  then show ?case by (subst copy_lua.simps) simp
next
  case (Cons e es)
  obtain k v where e: "e = (k, v)" by (cases e)
  define t where "t = LTable (string_entries (done @ e # es))"
  have nul: "NUL \<notin> set k" "NUL \<notin> set v" using Cons.prems(3) e by auto
  have nx: "lua_next (key # t # rest) 2 = Some (True, LString v # LString k # t # rest)"
  proof (cases "done" rule: rev_cases)
    case (snoc xs x)
    then show ?thesis using Cons.prems(1,4) next_string_entry [of xs x "e # es"] by (simp add: lua_next_def e t_def)
  qed (use Cons.prems in \<open>simp add: lua_next_def e t_def\<close>)
  have c: "copy_lua (Copy 1) (LString v # LString k # t # rest) ds = Some (LString v # LString k # t # rest, LString v # ds)"
    "copy_lua (Copy 2) (LString v # LString k # t # rest) ds = Some (LString v # LString k # t # rest, LString k # ds)" for ds
    by (rule copy_string; use nul in simp)+
  define D where "D = map prod.swap (string_entries done)"
  have new: "LString v \<notin> fst ` set D" unfolding D_def using Cons.prems(2) e by force
  have D: "map prod.swap (string_entries (done @ [e])) = D @ [(LString v, LString k)]" by (simp add: D_def e)
  have "copy_lua (Entries 2) (key # t # rest) (LTable D # dst) =
    copy_lua (Entries 2) (LString k # t # rest) (LTable (map prod.swap (string_entries (done @ [e]))) # dst)"
    unfolding D by (subst copy_lua.simps) (simp add: nx c [unfolded One_nat_def] set_entry_new [OF new])
  also have "\<dots> = Some (t # rest, LTable (map prod.swap (string_entries (done @ e # es))) # dst)"
    using Cons.IH [of "done @ [e]" "LString k"] Cons.prems(1-3) e by (simp add: t_def)
  finally show ?case unfolding t_def D_def .
qed

text \<open>Copying a table between the Lua states of two threads (\<open>thread:set\<close>, \<open>thread:get\<close>) does not copy it: the copy of the value is pushed before that of the
  key, so each entry \<open>k = v\<close> of a table of strings arrives as \<open>v = k\<close>; and one value too many is popped, so that the table itself
  is gone from the stack it was read from.\<close>

theorem table_copied_swapped:
  assumes "distinct (map fst es)" "distinct (map snd es)" "\<forall>(k, v) \<in> set es. NUL \<notin> set k \<and> NUL \<notin> set v"
  shows "script_copy_value (LTable (string_entries es) # rest) dst 1 =
    Some (rest, LTable (map (\<lambda>(k, v). (LString v, LString k)) es) # dst)"
proof -
  have "map prod.swap (string_entries es) = map (\<lambda>(k, v). (LString v, LString k)) es"
    by (induction es) auto
  then show ?thesis using entries_swapped [of "[]" es LNil rest dst] assms
    by (simp add: script_copy_value_def) (subst copy_lua.simps, simp add: numeral_2_eq_2)
qed

lemma table_copied_swapped_witness:
  "script_copy_value [LTable [(LString ''user'', LString ''ann''), (LString ''zone'', LString ''eu'')], LNil] [] 1 =
     Some ([LNil], [LTable [(LString ''ann'', LString ''user''), (LString ''eu'', LString ''zone'')]])"
  using table_copied_swapped [of "[(''user'', ''ann''), (''zone'', ''eu'')]" "[LNil]" "[]"]
  by (auto simp: NUL_def)


end
