(* ===== verification/Ae.thy ===== *)
theory Ae
  imports Prelude "HOL-Library.Signed_Division"
begin

text \<open>
  The event loop of \<open>wrk2/src/ae.c\<close>: its state and its file events, over one of the polling
  modules. A polling module is what \<open>ae_epoll.c\<close> or \<open>ae_select.c\<close> defines: how a file event
  is added to and removed from what the kernel watches. Procedures are names of a type \<open>'p\<close>,
  client data is a value of \<open>'d\<close>, and \<open>'a\<close> is the state of the polling module. An access outside the
  \<open>events\<close> array has no result.
\<close>

section \<open>The state\<close>

definition AE_OK :: int where "AE_OK = 0"
definition AE_ERR :: int where "AE_ERR = -1"
definition AE_NONE :: int where "AE_NONE = 0"
definition AE_READABLE :: int where "AE_READABLE = 1"
definition AE_WRITABLE :: int where "AE_WRITABLE = 2"
definition AE_FILE_EVENTS :: int where "AE_FILE_EVENTS = 1"
definition AE_TIME_EVENTS :: int where "AE_TIME_EVENTS = 2"
definition AE_ALL_EVENTS :: int where "AE_ALL_EVENTS = AE_FILE_EVENTS OR AE_TIME_EVENTS"
definition AE_DONT_WAIT :: int where "AE_DONT_WAIT = 4"
definition AE_NOMORE :: int where "AE_NOMORE = -1"

lemmas ae_defs = AE_OK_def AE_ERR_def AE_NONE_def AE_READABLE_def AE_WRITABLE_def
  AE_FILE_EVENTS_def AE_TIME_EVENTS_def AE_ALL_EVENTS_def AE_DONT_WAIT_def AE_NOMORE_def

record ('p, 'd) aeFileEvent =
  fe_mask :: int
  rfileProc :: "'p option"
  wfileProc :: "'p option"
  fe_clientData :: "'d option"

record ('p, 'd) aeTimeEvent =
  te_id :: int
  when_sec :: int
  when_ms :: int
  timeProc :: 'p
  finalizerProc :: "'p option"
  te_clientData :: 'd

record aeFiredEvent =
  fired_fd :: int
  fired_mask :: int

record ('p, 'd, 'a) aeEventLoop =
  maxfd :: int
  setsize :: int
  timeEventNextId :: int
  lastTime :: int
  events :: "('p, 'd) aeFileEvent list"
  fired :: "aeFiredEvent list"
  timeEventHead :: "('p, 'd) aeTimeEvent list"
  stop :: bool
  apidata :: 'a
  beforesleep :: "'p option"

definition has_event :: "int \<Rightarrow> int \<Rightarrow> bool" where
  "has_event m e \<longleftrightarrow> m AND e \<noteq> 0"

definition event_mask :: "('p, 'd, 'a) aeEventLoop \<Rightarrow> int \<Rightarrow> int" where
  "event_mask l fd = fe_mask (events l ! nat fd)"

definition no_file_event :: "('p, 'd) aeFileEvent" where
  "no_file_event = \<lparr>fe_mask = AE_NONE, rfileProc = None, wfileProc = None, fe_clientData = None\<rparr>"

text \<open>\<open>create\<close> is \<open>aeApiCreate\<close>; it and the allocations fail together with the whole call.\<close>

definition aeCreateEventLoop :: "'a option \<Rightarrow> int \<Rightarrow> int \<Rightarrow> ('p, 'd, 'a) aeEventLoop option" where
  "aeCreateEventLoop create now size_of_set =
     (case create of
        None \<Rightarrow> None
      | Some api \<Rightarrow>
          Some \<lparr>maxfd = -1, setsize = size_of_set, timeEventNextId = 0, lastTime = now,
                events = replicate (nat size_of_set) no_file_event,
                fired = replicate (nat size_of_set) \<lparr>fired_fd = 0, fired_mask = 0\<rparr>,
                timeEventHead = [], stop = False, apidata = api, beforesleep = None\<rparr>)"

definition aeStop :: "('p, 'd, 'a) aeEventLoop \<Rightarrow> ('p, 'd, 'a) aeEventLoop" where
  "aeStop l = l\<lparr>stop := True\<rparr>"

definition aeSetBeforeSleepProc :: "('p, 'd, 'a) aeEventLoop \<Rightarrow> 'p option \<Rightarrow> ('p, 'd, 'a) aeEventLoop" where
  "aeSetBeforeSleepProc l p = l\<lparr>beforesleep := p\<rparr>"

section \<open>File events\<close>

text \<open>
  A polling module's \<open>aeApiAddEvent\<close> and \<open>aeApiDelEvent\<close>: the result code and the new state of
  the module, or no result when the call is undefined.
\<close>

type_synonym ('p, 'd, 'a) api_add = "('p, 'd, 'a) aeEventLoop \<Rightarrow> int \<Rightarrow> int \<Rightarrow> (int \<times> 'a) option"
type_synonym ('p, 'd, 'a) api_del = "('p, 'd, 'a) aeEventLoop \<Rightarrow> int \<Rightarrow> int \<Rightarrow> 'a option"

definition set_event :: "int \<Rightarrow> ('p, 'd) aeFileEvent \<Rightarrow> ('p, 'd, 'a) aeEventLoop \<Rightarrow> ('p, 'd, 'a) aeEventLoop" where
  "set_event fd fe l = l\<lparr>events := (events l)[nat fd := fe]\<rparr>"

definition aeCreateFileEvent ::
  "('p, 'd, 'a) api_add \<Rightarrow> ('p, 'd, 'a) aeEventLoop \<Rightarrow> int \<Rightarrow> int \<Rightarrow> 'p \<Rightarrow> 'd
    \<Rightarrow> (int \<times> ('p, 'd, 'a) aeEventLoop) option" where
  "aeCreateFileEvent add l fd m proc d =
     (if setsize l \<le> fd then Some (AE_ERR, l)
      else do {
        fe \<leftarrow> array_get (events l) fd;
        (rc, api) \<leftarrow> add l fd m;
        let l1 = l\<lparr>apidata := api\<rparr>;
        if rc = -1 then Some (AE_ERR, l1)
        else (let fe1 = fe\<lparr>fe_mask := fe_mask fe OR m\<rparr>;
                  fe2 = (if has_event m AE_READABLE then fe1\<lparr>rfileProc := Some proc\<rparr> else fe1);
                  fe3 = (if has_event m AE_WRITABLE then fe2\<lparr>wfileProc := Some proc\<rparr> else fe2);
                  l2 = set_event fd (fe3\<lparr>fe_clientData := Some d\<rparr>) l1
              in Some (AE_OK, if maxfd l2 < fd then l2\<lparr>maxfd := fd\<rparr> else l2))
      })"

text \<open>The highest descriptor below \<open>n\<close> with an event, or -1.\<close>

fun highest_fd :: "('p, 'd) aeFileEvent list \<Rightarrow> nat \<Rightarrow> int" where
  "highest_fd es 0 = -1"
| "highest_fd es (Suc n) = (if fe_mask (es ! n) \<noteq> AE_NONE then int n else highest_fd es n)"

definition aeDeleteFileEvent ::
  "('p, 'd, 'a) api_del \<Rightarrow> ('p, 'd, 'a) aeEventLoop \<Rightarrow> int \<Rightarrow> int \<Rightarrow> ('p, 'd, 'a) aeEventLoop option" where
  "aeDeleteFileEvent del l fd m =
     (if setsize l \<le> fd then Some l
      else do {
        fe \<leftarrow> array_get (events l) fd;
        if fe_mask fe = AE_NONE then Some l
        else (let m' = fe_mask fe AND NOT m;
                  l1 = set_event fd (fe\<lparr>fe_mask := m'\<rparr>) l;
                  l2 = (if fd = maxfd l1 \<and> m' = AE_NONE
                        then l1\<lparr>maxfd := highest_fd (events l1) (nat fd)\<rparr> else l1)
              in map_option (\<lambda>api. l2\<lparr>apidata := api\<rparr>) (del l2 fd m))
      })"

definition aeGetFileEvents :: "('p, 'd, 'a) aeEventLoop \<Rightarrow> int \<Rightarrow> int option" where
  "aeGetFileEvents l fd =
     (if setsize l \<le> fd then Some 0 else map_option fe_mask (array_get (events l) fd))"

section \<open>The polling modules\<close>

text \<open>
  \<open>ae_epoll.c\<close>. The kernel keeps the set of watched descriptors with their events; \<open>epoll_ctl\<close> fails
  with \<open>EEXIST\<close> for one that is watched when adding, with \<open>ENOENT\<close> for one that is not when changing or removing, and for
  the descriptors that cannot be watched (\<open>refused\<close>).
\<close>

record epoll_state =
  watched :: "(int \<times> int) list"
  refused :: "int \<Rightarrow> bool"

datatype epoll_op = EPOLL_CTL_ADD | EPOLL_CTL_MOD | EPOLL_CTL_DEL

definition EPOLLIN :: int where "EPOLLIN = 1"
definition EPOLLOUT :: int where "EPOLLOUT = 4"
definition EPOLLERR :: int where "EPOLLERR = 8"
definition EPOLLHUP :: int where "EPOLLHUP = 16"

lemmas epoll_defs = EPOLLIN_def EPOLLOUT_def EPOLLERR_def EPOLLHUP_def

fun epoll_ctl :: "epoll_state \<Rightarrow> epoll_op \<Rightarrow> int \<Rightarrow> int \<Rightarrow> int \<times> epoll_state" where
  "epoll_ctl s EPOLL_CTL_ADD fd ev =
     (if refused s fd \<or> map_of (watched s) fd \<noteq> None then (-1, s)
      else (0, s\<lparr>watched := (fd, ev) # watched s\<rparr>))"
| "epoll_ctl s EPOLL_CTL_MOD fd ev =
     (if map_of (watched s) fd = None then (-1, s)
      else (0, s\<lparr>watched := (fd, ev) # filter (\<lambda>p. fst p \<noteq> fd) (watched s)\<rparr>))"
| "epoll_ctl s EPOLL_CTL_DEL fd ev =
     (if map_of (watched s) fd = None then (-1, s)
      else (0, s\<lparr>watched := filter (\<lambda>p. fst p \<noteq> fd) (watched s)\<rparr>))"

definition epoll_events :: "int \<Rightarrow> int" where
  "epoll_events m =
     (if has_event m AE_READABLE then EPOLLIN else 0) OR (if has_event m AE_WRITABLE then EPOLLOUT else 0)"

definition epoll_ApiAddEvent :: "('p, 'd, epoll_state) api_add" where
  "epoll_ApiAddEvent l fd m =
     (let old = event_mask l fd;
          op = (if old = AE_NONE then EPOLL_CTL_ADD else EPOLL_CTL_MOD);
          (rc, s) = epoll_ctl (apidata l) op fd (epoll_events (m OR old))
      in Some (if rc = -1 then (-1, s) else (0, s)))"

definition epoll_ApiDelEvent :: "('p, 'd, epoll_state) api_del" where
  "epoll_ApiDelEvent l fd delmask =
     (let m = event_mask l fd AND NOT delmask
      in Some (snd (epoll_ctl (apidata l) (if m \<noteq> AE_NONE then EPOLL_CTL_MOD else EPOLL_CTL_DEL)
                     fd (epoll_events m))))"

text \<open>\<open>ready\<close> is what \<open>epoll_wait\<close> reports: descriptors and their events.\<close>

definition epoll_mask :: "int \<Rightarrow> int" where
  "epoll_mask ev =
     (if has_event ev EPOLLIN then AE_READABLE else 0) OR
     (if has_event ev EPOLLOUT then AE_WRITABLE else 0) OR
     (if has_event ev EPOLLERR then AE_WRITABLE else 0) OR
     (if has_event ev EPOLLHUP then AE_WRITABLE else 0)"

definition epoll_ApiPoll ::
  "(int \<times> int) list \<Rightarrow> ('p, 'd, 'a) aeEventLoop \<Rightarrow> (nat \<times> ('p, 'd, 'a) aeEventLoop) option" where
  "epoll_ApiPoll ready l =
     (let fs = map (\<lambda>(fd, ev). \<lparr>fired_fd = fd, fired_mask = epoll_mask ev\<rparr>) ready
      in if length (fired l) < length fs then None
         else Some (length fs, l\<lparr>fired := fs @ drop (length fs) (fired l)\<rparr>))"

text \<open>
  \<open>ae_select.c\<close>: two sets of descriptors. \<open>FD_SET\<close> and \<open>FD_CLR\<close> are undefined from \<open>FD_SETSIZE\<close> on.
\<close>

record select_state =
  rfds :: "int list"
  wfds :: "int list"

definition FD_SETSIZE :: int where "FD_SETSIZE = 1024"

definition FD_SET :: "int \<Rightarrow> int list \<Rightarrow> int list option" where
  "FD_SET fd s = (if 0 \<le> fd \<and> fd < FD_SETSIZE then Some (List.insert fd s) else None)"

definition FD_CLR :: "int \<Rightarrow> int list \<Rightarrow> int list option" where
  "FD_CLR fd s = (if 0 \<le> fd \<and> fd < FD_SETSIZE then Some (removeAll fd s) else None)"

definition select_ApiAddEvent :: "('p, 'd, select_state) api_add" where
  "select_ApiAddEvent l fd m = do {
     r \<leftarrow> (if has_event m AE_READABLE then FD_SET fd (rfds (apidata l)) else Some (rfds (apidata l)));
     w \<leftarrow> (if has_event m AE_WRITABLE then FD_SET fd (wfds (apidata l)) else Some (wfds (apidata l)));
     Some (0, \<lparr>rfds = r, wfds = w\<rparr>)
   }"

definition select_ApiDelEvent :: "('p, 'd, select_state) api_del" where
  "select_ApiDelEvent l fd m = do {
     r \<leftarrow> (if has_event m AE_READABLE then FD_CLR fd (rfds (apidata l)) else Some (rfds (apidata l)));
     w \<leftarrow> (if has_event m AE_WRITABLE then FD_CLR fd (wfds (apidata l)) else Some (wfds (apidata l)));
     Some \<lparr>rfds = r, wfds = w\<rparr>
   }"

text \<open>\<open>ready\<close> is what \<open>select\<close> leaves in the copies of the sets; an error leaves nothing to do.\<close>

definition select_fired :: "int list \<Rightarrow> int list \<Rightarrow> ('p, 'd, 'a) aeEventLoop \<Rightarrow> int \<Rightarrow> aeFiredEvent list" where
  "select_fired r w l fd =
     (let m = event_mask l fd
      in if m = AE_NONE then []
         else [\<lparr>fired_fd = fd, fired_mask =
           (if has_event m AE_READABLE \<and> fd \<in> set r then AE_READABLE else 0) OR
           (if has_event m AE_WRITABLE \<and> fd \<in> set w then AE_WRITABLE else 0)\<rparr>])"

definition select_ApiPoll ::
  "int \<Rightarrow> int list \<Rightarrow> int list \<Rightarrow> ('p, 'd, 'a) aeEventLoop \<Rightarrow> (nat \<times> ('p, 'd, 'a) aeEventLoop) option" where
  "select_ApiPoll retval r w l =
     (if retval \<le> 0 then Some (0, l)
      else let fs = concat (map (select_fired r w l) [0..maxfd l])
        in if length (fired l) < length fs then None
           else Some (length fs, l\<lparr>fired := fs @ drop (length fs) (fired l)\<rparr>))"

section \<open>The contract of a polling module\<close>

text \<open>The masks of the source are 1, 2 and 3.\<close>

definition masks :: "int set" where
  "masks = {AE_READABLE, AE_WRITABLE, AE_READABLE OR AE_WRITABLE}"

lemma masks_eq: "masks = {1, 2, 3}"
  by (simp add: masks_def ae_defs)

lemma mask_cases:
  assumes "m \<in> masks" "old \<in> insert 0 masks"
  shows "old OR m \<in> masks" "old AND NOT m \<in> insert 0 masks"
    "has_event (old OR m) 1 \<longleftrightarrow> has_event old 1 \<or> has_event m 1"
    "has_event (old OR m) 2 \<longleftrightarrow> has_event old 2 \<or> has_event m 2"
    "has_event (old AND NOT m) 1 \<longleftrightarrow> has_event old 1 \<and> \<not> has_event m 1"
    "has_event (old AND NOT m) 2 \<longleftrightarrow> has_event old 2 \<and> \<not> has_event m 2"
  using assms by (auto simp: masks_eq has_event_def)

lemma mask_by_events:
  "m \<in> insert 0 masks \<Longrightarrow>
    (if has_event m 1 then 1 else 0) OR (if has_event m 2 then 2 else 0) = m"
  by (auto simp: masks_eq has_event_def)

text \<open>
  \<open>registered a fd\<close> is the mask with which the module has the kernel watch \<open>fd\<close>. Adding merges the
  new mask with the old one or fails; removing leaves what the loop has left.
\<close>

locale poll_api =
  fixes add :: "('p, 'd, 'a) api_add"
    and del :: "('p, 'd, 'a) api_del"
    and registered :: "'a \<Rightarrow> int \<Rightarrow> int"
    and api_ok :: "'a \<Rightarrow> bool"
  assumes add_registers: "api_ok (apidata l) \<Longrightarrow> 0 \<le> fd \<Longrightarrow> m \<in> masks \<Longrightarrow> registered (apidata l) fd = event_mask l fd \<Longrightarrow>
      event_mask l fd \<in> insert 0 masks \<Longrightarrow> add l fd m = Some (rc, a) \<Longrightarrow>
      api_ok a \<and> (rc = -1 \<and> registered a = registered (apidata l) \<or>
        rc = 0 \<and> registered a = (registered (apidata l))(fd := event_mask l fd OR m))"
    and del_unregisters: "api_ok (apidata l) \<Longrightarrow> 0 \<le> fd \<Longrightarrow> m \<in> masks \<Longrightarrow> registered (apidata l) fd \<in> masks \<Longrightarrow>
      event_mask l fd = registered (apidata l) fd AND NOT m \<Longrightarrow> del l fd m = Some a \<Longrightarrow>
      api_ok a \<and> registered a = (registered (apidata l))(fd := event_mask l fd)"

text \<open>
  What holds of a loop between calls: the kernel watches exactly the masks of the \<open>events\<close> array, and
  \<open>maxfd\<close> is the highest descriptor with an event.
\<close>

definition in_set :: "('p, 'd, 'a) aeEventLoop \<Rightarrow> int \<Rightarrow> bool" where
  "in_set l fd \<longleftrightarrow> 0 \<le> fd \<and> fd < setsize l"

definition file_ok :: "('a \<Rightarrow> int \<Rightarrow> int) \<Rightarrow> ('a \<Rightarrow> bool) \<Rightarrow> ('p, 'd, 'a) aeEventLoop \<Rightarrow> bool" where
  "file_ok reg ok l \<longleftrightarrow>
     ok (apidata l) \<and> length (events l) = nat (setsize l) \<and>
     (\<forall>fd. reg (apidata l) fd = (if in_set l fd then event_mask l fd else 0)) \<and>
     (\<forall>fd. in_set l fd \<longrightarrow> event_mask l fd \<in> insert 0 masks) \<and>
     (maxfd l = -1 \<or> in_set l (maxfd l) \<and> event_mask l (maxfd l) \<noteq> 0) \<and>
     (\<forall>fd. in_set l fd \<longrightarrow> maxfd l < fd \<longrightarrow> event_mask l fd = 0)"

lemma event_mask_set:
  assumes "in_set l g" "in_set l fd" "length (events l) = nat (setsize l)"
  shows "event_mask (set_event fd fe l) g = (if g = fd then fe_mask fe else event_mask l g)"
  using assms by (auto simp: event_mask_def set_event_def in_set_def nth_list_update)

lemma event_mask_frame [simp]:
  "event_mask (l\<lparr>apidata := a\<rparr>) = event_mask l" "event_mask (l\<lparr>maxfd := n\<rparr>) = event_mask l"
  "in_set (l\<lparr>apidata := a\<rparr>) = in_set l" "in_set (l\<lparr>maxfd := n\<rparr>) = in_set l"
  "in_set (set_event fd fe l) = in_set l"
  by (simp_all add: fun_eq_iff event_mask_def in_set_def set_event_def)

lemma set_event_frame [simp]:
  "apidata (set_event fd fe l) = apidata l" "maxfd (set_event fd fe l) = maxfd l"
  "setsize (set_event fd fe l) = setsize l" "length (events (set_event fd fe l)) = length (events l)"
  "set_event fd fe (l\<lparr>apidata := a\<rparr>) = (set_event fd fe l)\<lparr>apidata := a\<rparr>"
  by (simp_all add: set_event_def)

lemma highest_fd_spec:
  "highest_fd es n = -1 \<and> (\<forall>i < n. fe_mask (es ! i) = 0) \<or>
   0 \<le> highest_fd es n \<and> highest_fd es n < int n \<and> fe_mask (es ! nat (highest_fd es n)) \<noteq> 0 \<and>
     (\<forall>i < n. highest_fd es n < int i \<longrightarrow> fe_mask (es ! i) = 0)"
  by (induction n) (auto simp: ae_defs less_Suc_eq)

text \<open>The loop between the removal of events from the array and the call of the polling module.\<close>

definition events_without :: "('p, 'd, 'a) aeEventLoop \<Rightarrow> int \<Rightarrow> int \<Rightarrow> ('p, 'd, 'a) aeEventLoop" where
  "events_without l fd m =
     (let m' = event_mask l fd AND NOT m; l1 = set_event fd ((events l ! nat fd)\<lparr>fe_mask := m'\<rparr>) l
      in if fd = maxfd l1 \<and> m' = AE_NONE then l1\<lparr>maxfd := highest_fd (events l1) (nat fd)\<rparr> else l1)"

lemma events_without_frame [simp]:
  "apidata (events_without l fd m) = apidata l" "setsize (events_without l fd m) = setsize l"
  "length (events (events_without l fd m)) = length (events l)" "in_set (events_without l fd m) = in_set l"
  by (simp_all add: events_without_def Let_def)

lemma events_without_mask:
  assumes "in_set l g" "in_set l fd" "length (events l) = nat (setsize l)"
  shows "event_mask (events_without l fd m) g = (if g = fd then event_mask l fd AND NOT m else event_mask l g)"
proof -
  let ?fe = "(events l ! nat fd)\<lparr>fe_mask := event_mask l fd AND NOT m\<rparr>"
  have "event_mask (events_without l fd m) g = event_mask (set_event fd ?fe l) g" by (simp add: events_without_def Let_def)
  then show ?thesis by (simp add: event_mask_set [OF assms])
qed

lemma highest_below:
  assumes h: "maxfd l = highest_fd (events l) (nat fd)" and fd: "in_set l fd"
    and above: "\<And>g. in_set l g \<Longrightarrow> fd \<le> g \<Longrightarrow> event_mask l g = 0"
  shows "(maxfd l = -1 \<or> in_set l (maxfd l) \<and> event_mask l (maxfd l) \<noteq> 0) \<and>
    (\<forall>g. in_set l g \<longrightarrow> maxfd l < g \<longrightarrow> event_mask l g = 0)"
proof -
  have none: "event_mask l g = 0" if "in_set l g" "nat g < nat fd \<Longrightarrow> event_mask l g = 0" for g
    using that above [OF that(1)] by (cases "fd \<le> g") (auto simp: in_set_def)
  from highest_fd_spec [of "events l" "nat fd"] show ?thesis
  proof
    assume z: "highest_fd (events l) (nat fd) = - 1 \<and> (\<forall>i<nat fd. fe_mask (events l ! i) = 0)"
    have "event_mask l g = 0" if "in_set l g" for g by (rule none [OF that]) (use z in \<open>simp add: event_mask_def\<close>)
    then show ?thesis using h z by simp
  next
    assume z: "0 \<le> highest_fd (events l) (nat fd) \<and> highest_fd (events l) (nat fd) < int (nat fd) \<and>
      fe_mask (events l ! nat (highest_fd (events l) (nat fd))) \<noteq> 0 \<and>
      (\<forall>i<nat fd. highest_fd (events l) (nat fd) < int i \<longrightarrow> fe_mask (events l ! i) = 0)"
    have "event_mask l g = 0" if "in_set l g" "maxfd l < g" for g
      by (rule none [OF that(1)]) (use z that h in \<open>auto simp: event_mask_def in_set_def\<close>)
    then show ?thesis using z h fd by (auto simp: event_mask_def in_set_def)
  qed
qed

lemma events_without_maxfd:
  fixes m :: int
  assumes ok: "file_ok reg okp l" and fd: "in_set l fd"
  defines "l2 \<equiv> events_without l fd m"
  shows "(maxfd l2 = -1 \<or> in_set l (maxfd l2) \<and> event_mask l2 (maxfd l2) \<noteq> 0) \<and>
    (\<forall>g. in_set l g \<longrightarrow> maxfd l2 < g \<longrightarrow> event_mask l2 g = 0)"
proof -
  have len: "length (events l) = nat (setsize l)" using ok by (simp add: file_ok_def)
  note em = events_without_mask [OF _ fd len, of _ m, folded l2_def]
  show ?thesis
  proof (cases "fd = maxfd l \<and> event_mask l fd AND NOT m = 0")
    case False
    then have "maxfd l2 = maxfd l" by (auto simp: l2_def events_without_def Let_def ae_defs)
    then show ?thesis using ok em False by (cases "maxfd l = fd") (auto simp: file_ok_def)
  next
    case True
    have "maxfd l2 = highest_fd (events l2) (nat fd)"
      using conjunct1 [OF True, symmetric] conjunct2 [OF True] by (simp add: l2_def events_without_def Let_def ae_defs)
    moreover have "event_mask l2 g = 0" if "in_set l2 g" "fd \<le> g" for g
      using ok em [of g] that True by (auto simp: file_ok_def l2_def)
    ultimately show ?thesis using highest_below [of l2 fd] fd by (simp add: l2_def)
  qed
qed

lemma delete_outside:
  assumes "length (events l) = nat (setsize l)" "0 \<le> fd" "\<not> (in_set l fd \<and> event_mask l fd \<noteq> 0)"
    and "aeDeleteFileEvent del l fd m = Some l'"
  shows "l' = l"
proof (cases "setsize l \<le> fd")
  case False
  then have "array_get (events l) fd = Some (events l ! nat fd)" using assms(1,2) by simp
  then show ?thesis using assms(2-) False by (simp add: aeDeleteFileEvent_def in_set_def event_mask_def ae_defs)
qed (use assms(4) in \<open>simp add: aeDeleteFileEvent_def\<close>)

lemma delete_calls:
  assumes "in_set l fd" "event_mask l fd \<noteq> 0" "length (events l) = nat (setsize l)"
    and "aeDeleteFileEvent del l fd m = Some l'"
  obtains a where "del (events_without l fd m) fd m = Some a" "l' = (events_without l fd m)\<lparr>apidata := a\<rparr>"
proof -
  have "array_get (events l) fd = Some (events l ! nat fd)" using assms(1,3) by (simp add: in_set_def)
  then show ?thesis using that assms by (auto simp: aeDeleteFileEvent_def in_set_def event_mask_def ae_defs Let_def events_without_def)
qed

context poll_api
begin

lemma create_ok:
  assumes ok: "file_ok registered api_ok l" and m: "m \<in> masks" and fd: "0 \<le> fd"
    and c: "aeCreateFileEvent add l fd m proc d = Some (rc, l')"
  shows "file_ok registered api_ok l' \<and> setsize l' = setsize l \<and> (rc = AE_OK \<or> rc = AE_ERR) \<and>
    (rc = AE_OK \<longrightarrow> event_mask l' fd = event_mask l fd OR m)"
proof (cases "setsize l \<le> fd")
  case True
  then show ?thesis using ok c by (simp add: aeCreateFileEvent_def ae_defs)
next
  case False
  have i: "in_set l fd" using False fd by (simp add: in_set_def)
  have len: "length (events l) = nat (setsize l)" using ok by (simp add: file_ok_def)
  have old: "event_mask l fd \<in> insert 0 masks" "registered (apidata l) fd = event_mask l fd"
    using ok i by (simp_all add: file_ok_def)
  have ar: "array_get (events l) fd = Some (events l ! nat fd)"
    using i len by (simp add: in_set_def)
  obtain r a where a: "add l fd m = Some (r, a)"
    using c False ar by (auto simp: aeCreateFileEvent_def split: option.splits prod.splits bind_splits)
  have "api_ok (apidata l)" using ok by (simp add: file_ok_def)
  note reg = add_registers [OF this fd m old(2,1) a]
  show ?thesis
  proof (cases "r = -1")
    case True
    then show ?thesis using reg c False ar a ok i by (auto simp: aeCreateFileEvent_def file_ok_def ae_defs)
  next
    case False
    define fe where "fe =
      (let fe1 = (events l ! nat fd)\<lparr>fe_mask := fe_mask (events l ! nat fd) OR m\<rparr>;
           fe2 = (if has_event m AE_READABLE then fe1\<lparr>rfileProc := Some proc\<rparr> else fe1);
           fe3 = (if has_event m AE_WRITABLE then fe2\<lparr>wfileProc := Some proc\<rparr> else fe2)
       in fe3\<lparr>fe_clientData := Some d\<rparr>)"
    have fem: "fe_mask fe = event_mask l fd OR m" by (simp add: fe_def Let_def event_mask_def)
    have l': "rc = AE_OK"
      "l' = (let l2 = set_event fd fe (l\<lparr>apidata := a\<rparr>) in if maxfd l2 < fd then l2\<lparr>maxfd := fd\<rparr> else l2)"
      using c \<open>\<not> setsize l \<le> fd\<close> ar a False
      by (simp_all add: aeCreateFileEvent_def Let_def fe_def split del: if_split)
    have em: "event_mask l' g = (if g = fd then event_mask l fd OR m else event_mask l g)" if "in_set l g" for g
      using event_mask_set [OF that i len, of fe] l' fem by (cases "g = fd") (simp_all add: Let_def)
    have nz: "event_mask l fd OR m \<in> masks" by (rule mask_cases(1) [OF m old(1)])
    have new: "api_ok a" "registered a = (registered (apidata l))(fd := event_mask l fd OR m)"
      using reg False by auto
    have fr: "apidata l' = a" "length (events l') = length (events l)" "setsize l' = setsize l" "in_set l' = in_set l"
      "maxfd l' = max (maxfd l) fd"
      using l' by (simp_all add: Let_def max_def)
    have "file_ok registered api_ok l'"
      unfolding file_ok_def fr using ok i em nz new len
      by (auto simp: file_ok_def max_def masks_eq in_set_def)
    then show ?thesis using em [OF i] fr l'(1) by simp
  qed
qed

lemma delete_ok:
  assumes ok: "file_ok registered api_ok l" and m: "m \<in> masks" and fd: "0 \<le> fd"
    and c: "aeDeleteFileEvent del l fd m = Some l'"
  shows "file_ok registered api_ok l' \<and> setsize l' = setsize l \<and>
    (in_set l fd \<longrightarrow> event_mask l' fd = event_mask l fd AND NOT m)"
proof (cases "in_set l fd \<and> event_mask l fd \<noteq> 0")
  case False
  have "length (events l) = nat (setsize l)" using ok by (simp add: file_ok_def)
  from delete_outside [OF this fd False c] show ?thesis using ok False by auto
next
  case True
  then have i: "in_set l fd" and nz: "event_mask l fd \<noteq> 0" by simp_all
  have len: "length (events l) = nat (setsize l)" using ok by (simp add: file_ok_def)
  have old: "event_mask l fd \<in> masks" "registered (apidata l) fd = event_mask l fd"
    using ok i nz by (auto simp: file_ok_def)
  let ?l2 = "events_without l fd m" and ?m' = "event_mask l fd AND NOT m"
  obtain a where a: "del ?l2 fd m = Some a" "l' = ?l2\<lparr>apidata := a\<rparr>" by (rule delete_calls [OF i nz len c])
  note em = events_without_mask [OF _ i len, of _ m]
  have "api_ok (apidata ?l2)" "registered (apidata ?l2) fd \<in> masks" using ok old by (simp_all add: file_ok_def)
  moreover have "event_mask ?l2 fd = registered (apidata ?l2) fd AND NOT m" using em [OF i] old by simp
  ultimately have new: "api_ok a" "registered a = (registered (apidata l))(fd := ?m')"
    using del_unregisters [OF _ fd m _ _ a(1)] em [OF i] by simp_all
  have m0: "?m' \<in> insert 0 masks" using mask_cases(2) [OF m] old(1) by simp
  have "file_ok registered api_ok l'"
    unfolding file_ok_def a(2) using ok new em m0 events_without_maxfd [OF ok i, of m] i by (auto simp: file_ok_def)
  then show ?thesis using em [OF i] a(2) by simp
qed

end

section \<open>The polling modules keep the contract\<close>

lemma map_of_filter_key:
  "map_of (filter (\<lambda>p. fst p \<noteq> k) xs) g = (if g = k then None else map_of xs g)"
  by (induction xs) auto

definition epoll_registered :: "epoll_state \<Rightarrow> int \<Rightarrow> int" where
  "epoll_registered s fd = (case map_of (watched s) fd of None \<Rightarrow> 0 | Some ev \<Rightarrow> epoll_mask ev)"

definition epoll_ok :: "epoll_state \<Rightarrow> bool" where
  "epoll_ok s \<longleftrightarrow> (\<forall>fd ev. (fd, ev) \<in> set (watched s) \<longrightarrow> ev \<in> epoll_events ` masks)"

lemma epoll_mask_events: "m \<in> insert 0 masks \<Longrightarrow> epoll_mask (epoll_events m) = m"
  by (auto simp: masks_eq epoll_mask_def epoll_events_def has_event_def epoll_defs ae_defs)

lemma epoll_watched_iff:
  assumes "epoll_ok s"
  shows "map_of (watched s) fd = None \<longleftrightarrow> epoll_registered s fd = 0"
proof (cases "map_of (watched s) fd")
  case (Some ev)
  then obtain m where "m \<in> masks" "ev = epoll_events m"
    using assms map_of_SomeD by (fastforce simp: epoll_ok_def)
  then show ?thesis using Some epoll_mask_events [of m] by (auto simp: epoll_registered_def masks_eq)
qed (simp add: epoll_registered_def)

interpretation ep: poll_api epoll_ApiAddEvent epoll_ApiDelEvent epoll_registered epoll_ok
proof unfold_locales
  fix l :: "('p, 'd, epoll_state) aeEventLoop" and m fd rc a
  assume ok: "epoll_ok (apidata l)" and m: "m \<in> masks"
    and reg: "epoll_registered (apidata l) fd = event_mask l fd" and old: "event_mask l fd \<in> insert 0 masks"
    and c: "epoll_ApiAddEvent l fd m = Some (rc, a)"
  have new: "event_mask l fd OR m \<in> masks" by (rule mask_cases(1) [OF m old])
  have com: "m OR event_mask l fd = event_mask l fd OR m" by (simp add: or.commute)
  have set': "epoll_mask (epoll_events (event_mask l fd OR m)) = event_mask l fd OR m"
    using epoll_mask_events [of "event_mask l fd OR m"] new by blast
  show "epoll_ok a \<and> (rc = -1 \<and> epoll_registered a = epoll_registered (apidata l) \<or>
      rc = 0 \<and> epoll_registered a = (epoll_registered (apidata l))(fd := event_mask l fd OR m))"
    using c ok new set' epoll_watched_iff [OF ok, of fd] reg
    by (auto simp: epoll_ApiAddEvent_def Let_def com epoll_ok_def epoll_registered_def fun_eq_iff
      map_of_filter_key ae_defs split: if_splits)
next
  fix l :: "('p, 'd, epoll_state) aeEventLoop" and m fd a
  assume ok: "epoll_ok (apidata l)" and m: "m \<in> masks"
    and reg: "epoll_registered (apidata l) fd \<in> masks"
    and em: "event_mask l fd = epoll_registered (apidata l) fd AND NOT m"
    and c: "epoll_ApiDelEvent l fd m = Some a"
  have idem: "event_mask l fd AND NOT m = event_mask l fd" by (simp add: em and.assoc)
  have new: "event_mask l fd \<in> insert 0 masks" using mask_cases(2) [OF m] reg em by simp
  have set': "epoll_mask (epoll_events (event_mask l fd)) = event_mask l fd"
    by (rule epoll_mask_events [OF new])
  have w: "map_of (watched (apidata l)) fd \<noteq> None"
    using epoll_watched_iff [OF ok, of fd] reg by (auto simp: masks_eq)
  show "epoll_ok a \<and> epoll_registered a = (epoll_registered (apidata l))(fd := event_mask l fd)"
    using c ok new set' w
    by (auto simp: epoll_ApiDelEvent_def Let_def idem epoll_ok_def epoll_registered_def fun_eq_iff
      map_of_filter_key ae_defs split: if_splits)
qed

definition select_registered :: "select_state \<Rightarrow> int \<Rightarrow> int" where
  "select_registered s fd =
     (if fd \<in> set (rfds s) then AE_READABLE else 0) OR (if fd \<in> set (wfds s) then AE_WRITABLE else 0)"

lemma has_event_select:
  "has_event (select_registered s fd) 1 \<longleftrightarrow> fd \<in> set (rfds s)"
  "has_event (select_registered s fd) 2 \<longleftrightarrow> fd \<in> set (wfds s)"
  by (simp_all add: select_registered_def has_event_def ae_defs)

interpretation sel: poll_api select_ApiAddEvent select_ApiDelEvent select_registered "\<lambda>_. True"
proof unfold_locales
  fix l :: "('p, 'd, select_state) aeEventLoop" and m fd rc a
  assume m: "m \<in> masks" and reg: "select_registered (apidata l) fd = event_mask l fd"
    and old: "event_mask l fd \<in> insert 0 masks" and c: "select_ApiAddEvent l fd m = Some (rc, a)"
  have rc: "rc = 0" "set (rfds a) = (if has_event m 1 then insert fd (set (rfds (apidata l))) else set (rfds (apidata l)))"
    "set (wfds a) = (if has_event m 2 then insert fd (set (wfds (apidata l))) else set (wfds (apidata l)))"
    using c by (auto simp: select_ApiAddEvent_def FD_SET_def ae_defs split: bind_splits if_splits)
  have "select_registered a fd = event_mask l fd OR m"
    using mask_by_events [of "event_mask l fd OR m"] mask_cases [OF m old] rc has_event_select [of "apidata l" fd] reg
    by (auto simp: select_registered_def ae_defs split: if_splits)
  moreover have "select_registered a g = select_registered (apidata l) g" if "g \<noteq> fd" for g
    using rc that by (auto simp: select_registered_def)
  ultimately show "True \<and> (rc = -1 \<and> select_registered a = select_registered (apidata l) \<or>
      rc = 0 \<and> select_registered a = (select_registered (apidata l))(fd := event_mask l fd OR m))"
    using rc(1) by (auto simp: fun_eq_iff)
next
  fix l :: "('p, 'd, select_state) aeEventLoop" and m fd a
  assume m: "m \<in> masks" and reg: "select_registered (apidata l) fd \<in> masks"
    and em: "event_mask l fd = select_registered (apidata l) fd AND NOT m"
    and c: "select_ApiDelEvent l fd m = Some a"
  have st: "set (rfds a) = (if has_event m 1 then set (rfds (apidata l)) - {fd} else set (rfds (apidata l)))"
    "set (wfds a) = (if has_event m 2 then set (wfds (apidata l)) - {fd} else set (wfds (apidata l)))"
    using c by (auto simp: select_ApiDelEvent_def FD_CLR_def ae_defs split: bind_splits if_splits)
  have old: "select_registered (apidata l) fd \<in> insert 0 masks" using reg by simp
  have "select_registered a fd = event_mask l fd"
    using mask_by_events [of "event_mask l fd"] mask_cases [OF m old] st has_event_select [of "apidata l" fd] em
    by (auto simp: select_registered_def ae_defs split: if_splits)
  moreover have "select_registered a g = select_registered (apidata l) g" if "g \<noteq> fd" for g
    using st that by (auto simp: select_registered_def)
  ultimately show "True \<and> select_registered a = (select_registered (apidata l))(fd := event_mask l fd)"
    by (auto simp: fun_eq_iff)
qed

section \<open>Sequences of file event calls\<close>

datatype ('p, 'd) file_call = CreateFile int int 'p 'd | DeleteFile int int

fun file_call_ok :: "('p, 'd) file_call \<Rightarrow> bool" where
  "file_call_ok (CreateFile fd m proc d) \<longleftrightarrow> 0 \<le> fd \<and> m \<in> masks"
| "file_call_ok (DeleteFile fd m) \<longleftrightarrow> 0 \<le> fd \<and> m \<in> masks"

fun file_run ::
  "('p, 'd, 'a) api_add \<Rightarrow> ('p, 'd, 'a) api_del \<Rightarrow> ('p, 'd) file_call list
    \<Rightarrow> ('p, 'd, 'a) aeEventLoop \<Rightarrow> ('p, 'd, 'a) aeEventLoop option" where
  "file_run add del [] l = Some l"
| "file_run add del (CreateFile fd m proc d # cs) l =
     (case aeCreateFileEvent add l fd m proc d of None \<Rightarrow> None | Some (rc, l') \<Rightarrow> file_run add del cs l')"
| "file_run add del (DeleteFile fd m # cs) l =
     (case aeDeleteFileEvent del l fd m of None \<Rightarrow> None | Some l' \<Rightarrow> file_run add del cs l')"

context poll_api
begin

lemma file_run_ok:
  assumes "file_ok registered api_ok l" "\<forall>c \<in> set cs. file_call_ok c" "file_run add del cs l = Some l'"
  shows "file_ok registered api_ok l' \<and> setsize l' = setsize l"
  using assms
proof (induction cs arbitrary: l)
  case (Cons c cs)
  show ?case
  proof (cases c)
    case (CreateFile fd m proc d)
    then obtain rc l1 where "aeCreateFileEvent add l fd m proc d = Some (rc, l1)" "file_run add del cs l1 = Some l'"
      using Cons.prems(3) by (auto split: option.splits)
    then show ?thesis using create_ok [of l m fd proc d rc l1] Cons.IH [of l1] Cons.prems CreateFile by simp
  next
    case (DeleteFile fd m)
    then obtain l1 where "aeDeleteFileEvent del l fd m = Some l1" "file_run add del cs l1 = Some l'"
      using Cons.prems(3) by (auto split: option.splits)
    then show ?thesis using delete_ok [of l m fd l1] Cons.IH [of l1] Cons.prems DeleteFile by simp
  qed
qed simp

lemma create_loop_ok:
  assumes "aeCreateEventLoop (Some a) now n = Some l" "api_ok a" "registered a = (\<lambda>_. 0)"
  shows "file_ok registered api_ok l"
proof -
  have l: "event_mask l fd = 0" if "in_set l fd" for fd
    using assms(1) that by (auto simp: aeCreateEventLoop_def event_mask_def in_set_def no_file_event_def ae_defs)
  show ?thesis using assms l by (auto simp: file_ok_def aeCreateEventLoop_def)
qed

end

definition no_epoll :: epoll_state where
  "no_epoll = \<lparr>watched = [], refused = (\<lambda>_. False)\<rparr>"

lemma epoll_create_returns:
  assumes "length (events l) = nat (setsize l)" "0 \<le> fd"
  obtains rc l' where "aeCreateFileEvent epoll_ApiAddEvent l fd m proc d = Some (rc, l')"
    "length (events l') = nat (setsize l')"
proof (cases "setsize l \<le> fd")
  case True
  then show thesis using that assms by (simp add: aeCreateFileEvent_def)
next
  case False
  then have fe: "array_get (events l) fd = Some (events l ! nat fd)" using assms by simp
  have "epoll_ApiAddEvent l fd m \<noteq> None" by (simp add: epoll_ApiAddEvent_def Let_def case_prod_beta)
  then obtain r s where s: "epoll_ApiAddEvent l fd m = Some (r, s)" by auto
  show thesis
    by (rule that [of "fst (the (aeCreateFileEvent epoll_ApiAddEvent l fd m proc d))"
        "snd (the (aeCreateFileEvent epoll_ApiAddEvent l fd m proc d))"])
      (simp_all add: aeCreateFileEvent_def False fe s Let_def assms(1))
qed

lemma epoll_delete_returns:
  assumes "length (events l) = nat (setsize l)" "0 \<le> fd"
  obtains l' where "aeDeleteFileEvent epoll_ApiDelEvent l fd m = Some l'"
    "length (events l') = nat (setsize l')"
proof (cases "setsize l \<le> fd")
  case True
  then show thesis using that assms by (simp add: aeDeleteFileEvent_def)
next
  case False
  then have fe: "array_get (events l) fd = Some (events l ! nat fd)" using assms by simp
  show thesis
    by (rule that [of "the (aeDeleteFileEvent epoll_ApiDelEvent l fd m)"])
      (simp_all add: aeDeleteFileEvent_def False fe epoll_ApiDelEvent_def Let_def assms(1))
qed

lemma file_run_epoll_returns:
  assumes "\<forall>c \<in> set cs. file_call_ok c" "length (events l) = nat (setsize l)"
  shows "\<exists>l'. file_run epoll_ApiAddEvent epoll_ApiDelEvent cs l = Some l'"
  using assms
proof (induction cs arbitrary: l)
  case (Cons c cs)
  show ?case
  proof (cases c)
    case (CreateFile fd m proc d)
    with Cons.prems epoll_create_returns [of l fd m proc d] obtain rc l1 where
      "aeCreateFileEvent epoll_ApiAddEvent l fd m proc d = Some (rc, l1)" "length (events l1) = nat (setsize l1)"
      by auto
    then show ?thesis using Cons.IH [of l1] Cons.prems(1) CreateFile by simp
  next
    case (DeleteFile fd m)
    with Cons.prems epoll_delete_returns [of l fd m] obtain l1 where
      "aeDeleteFileEvent epoll_ApiDelEvent l fd m = Some l1" "length (events l1) = nat (setsize l1)"
      by auto
    then show ?thesis using Cons.IH [of l1] Cons.prems(1) DeleteFile by simp
  qed
qed simp

text \<open>C16: With epoll, any sequence of file event calls on a new loop returns, and afterwards the kernel
  watches every descriptor with exactly the events of the \<open>events\<close> array (none outside it), and \<open>maxfd\<close> is
  the highest descriptor that has an event, or -1.\<close>

theorem epoll_watches_events:
  assumes "\<forall>c \<in> set cs. file_call_ok c" "aeCreateEventLoop (Some (no_epoll\<lparr>refused := r\<rparr>)) now n = Some l"
  shows "\<exists>l'. file_run epoll_ApiAddEvent epoll_ApiDelEvent cs l = Some l' \<and>
    (\<forall>fd. epoll_registered (apidata l') fd = (if 0 \<le> fd \<and> fd < n then event_mask l' fd else 0)) \<and>
    (maxfd l' = -1 \<or> 0 \<le> maxfd l' \<and> maxfd l' < n \<and> event_mask l' (maxfd l') \<noteq> AE_NONE) \<and>
    (\<forall>fd. maxfd l' < fd \<longrightarrow> fd < n \<longrightarrow> 0 \<le> fd \<longrightarrow> event_mask l' fd = AE_NONE)"
proof -
  have l: "length (events l) = nat (setsize l)" "setsize l = n"
    using assms(2) by (auto simp: aeCreateEventLoop_def)
  have "file_ok epoll_registered epoll_ok l"
    by (rule ep.create_loop_ok [OF assms(2)]) (simp_all add: no_epoll_def epoll_ok_def epoll_registered_def fun_eq_iff)
  moreover obtain l' where "file_run epoll_ApiAddEvent epoll_ApiDelEvent cs l = Some l'"
    using file_run_epoll_returns [OF assms(1) l(1)] by blast
  ultimately show ?thesis using ep.file_run_ok [of l cs l'] assms(1) l(2)
    by (auto simp: file_ok_def in_set_def ae_defs)
qed

lemma epoll_watches_events_witness:
  "\<exists>l'. file_run epoll_ApiAddEvent epoll_ApiDelEvent
     [CreateFile 5 3 ''connected'' (), CreateFile 3 1 ''readable'' (), DeleteFile 5 2] (the (aeCreateEventLoop (Some no_epoll) 0 10))
     = Some l' \<and> epoll_registered (apidata l') 5 = event_mask l' 5"
  using epoll_watches_events [of "[CreateFile 5 3 ''connected'' (), CreateFile 3 1 ''readable'' (), DeleteFile 5 2]"
    "\<lambda>_. False" 0 10 "the (aeCreateEventLoop (Some no_epoll) 0 10)"]
  by (auto simp: masks_eq aeCreateEventLoop_def no_epoll_def simp del: file_run.simps)

text \<open>With select, when a sequence of file event calls on a new loop returns (it is undefined only for a
  descriptor from \<open>FD_SETSIZE\<close> on), the two descriptor sets hold exactly the events of the array.\<close>

theorem select_watches_events:
  assumes "\<forall>c \<in> set cs. file_call_ok c" "aeCreateEventLoop (Some \<lparr>rfds = [], wfds = []\<rparr>) now n = Some l"
    and "file_run select_ApiAddEvent select_ApiDelEvent cs l = Some l'" "0 \<le> fd" "fd < n"
  shows "(fd \<in> set (rfds (apidata l')) \<longleftrightarrow> has_event (event_mask l' fd) AE_READABLE) \<and>
    (fd \<in> set (wfds (apidata l')) \<longleftrightarrow> has_event (event_mask l' fd) AE_WRITABLE)"
proof -
  have "file_ok select_registered (\<lambda>_. True) l"
    by (rule sel.create_loop_ok [OF assms(2)]) (simp_all add: select_registered_def fun_eq_iff)
  then have "file_ok select_registered (\<lambda>_. True) l'" "setsize l' = setsize l"
    using sel.file_run_ok [of l cs l'] assms(1,3) by simp_all
  moreover have "setsize l = n" using assms(2) by (auto simp: aeCreateEventLoop_def)
  ultimately have "select_registered (apidata l') fd = event_mask l' fd"
    using assms(4,5) by (auto simp: file_ok_def in_set_def)
  then show ?thesis using has_event_select [of "apidata l'" fd] by (simp add: ae_defs)
qed

lemma select_watches_events_witness:
  "\<exists>l'. file_run select_ApiAddEvent select_ApiDelEvent [CreateFile 5 3 ''connected'' (), DeleteFile 5 2]
       (the (aeCreateEventLoop (Some \<lparr>rfds = [], wfds = []\<rparr>) 0 10)) = Some l' \<and>
     (5 \<in> set (rfds (apidata l')) \<longleftrightarrow> has_event (event_mask l' 5) AE_READABLE)"
proof -
  let ?cs = "[CreateFile 5 3 ''connected'' (), DeleteFile 5 2]"
  let ?l = "the (aeCreateEventLoop (Some \<lparr>rfds = [], wfds = []\<rparr>) 0 10)"
  have l: "aeCreateEventLoop (Some \<lparr>rfds = [], wfds = []\<rparr>) 0 10 = Some ?l" by (simp add: aeCreateEventLoop_def)
  have "(file_run select_ApiAddEvent select_ApiDelEvent ?cs ?l \<noteq> None)" by code_simp
  then obtain l' where r: "file_run select_ApiAddEvent select_ApiDelEvent ?cs ?l = Some l'" by blast
  have "\<forall>c \<in> set ?cs. file_call_ok c" by (simp add: masks_eq)
  from select_watches_events [OF this l r, of 5] r show ?thesis by simp
qed

end
