(* ===== verification/Ae_Loop.thy ===== *)
theory Ae_Loop
  imports Ae
begin

text \<open>
  Time events and the loop itself, \<open>wrk2/src/ae.c\<close>. What is outside the file is the record
  \<open>ae_env\<close>: the procedures, the clock, and the poll. All of them act on the state \<open>'w\<close> of the world and
  on the loop, which a procedure may change like any other code; a procedure that does not return has no result.
  The timers are the list from \<open>timeEventHead\<close> on; a pointer into it is the rest of the list.
\<close>

section \<open>The environment\<close>

text \<open>The poll is given the timeout in seconds and microseconds, or nothing to wait forever; it
  returns the number of fired events, with the events in \<open>fired\<close>.\<close>

type_synonym 'w ae_clock = "'w \<Rightarrow> (int \<times> int) \<times> 'w"

record ('w, 'p, 'd, 'a) ae_env =
  clock :: "'w ae_clock"
  unix_time :: "'w \<Rightarrow> int \<times> 'w"
  run_file :: "'p \<Rightarrow> int \<Rightarrow> 'd option \<Rightarrow> int \<Rightarrow> 'w \<times> ('p, 'd, 'a) aeEventLoop
    \<Rightarrow> ('w \<times> ('p, 'd, 'a) aeEventLoop) option"
  run_time :: "'p \<Rightarrow> int \<Rightarrow> 'd \<Rightarrow> 'w \<times> ('p, 'd, 'a) aeEventLoop
    \<Rightarrow> (int \<times> 'w \<times> ('p, 'd, 'a) aeEventLoop) option"
  run_other :: "'p \<Rightarrow> 'w \<times> ('p, 'd, 'a) aeEventLoop \<Rightarrow> ('w \<times> ('p, 'd, 'a) aeEventLoop) option"
  poll :: "(int \<times> int) option \<Rightarrow> 'w \<times> ('p, 'd, 'a) aeEventLoop
    \<Rightarrow> (nat \<times> 'w \<times> ('p, 'd, 'a) aeEventLoop) option"

definition aeGetTime :: "'w ae_clock \<Rightarrow> 'w \<Rightarrow> (int \<times> int) \<times> 'w" where
  "aeGetTime clk w = clk w"

definition aeAddMillisecondsToNow :: "'w ae_clock \<Rightarrow> int \<Rightarrow> 'w \<Rightarrow> (int \<times> int) \<times> 'w" where
  "aeAddMillisecondsToNow clk milliseconds w =
     (let ((cur_sec, cur_ms), w') = aeGetTime clk w;
          when_s = cur_sec + milliseconds sdiv 1000;
          when_m = cur_ms + milliseconds smod 1000
      in (if 1000 \<le> when_m then (when_s + 1, when_m - 1000) else (when_s, when_m), w'))"

section \<open>Time events\<close>

definition aeCreateTimeEvent ::
  "'w ae_clock \<Rightarrow> int \<Rightarrow> 'p \<Rightarrow> 'd \<Rightarrow> 'p option \<Rightarrow> 'w \<times> ('p, 'd, 'a) aeEventLoop
    \<Rightarrow> int \<times> 'w \<times> ('p, 'd, 'a) aeEventLoop" where
  "aeCreateTimeEvent clk milliseconds proc d fin s =
     (let (w, l) = s; i = timeEventNextId l;
          ((sec, ms), w') = aeAddMillisecondsToNow clk milliseconds w;
          te = \<lparr>te_id = i, when_sec = sec, when_ms = ms, timeProc = proc, finalizerProc = fin, te_clientData = d\<rparr>
      in (i, w', l\<lparr>timeEventNextId := i + 1, timeEventHead := te # timeEventHead l\<rparr>))"

text \<open>The first event with the identifier is unlinked.\<close>

fun unlink_timer ::
  "int \<Rightarrow> ('p, 'd) aeTimeEvent list \<Rightarrow> (('p, 'd) aeTimeEvent \<times> ('p, 'd) aeTimeEvent list) option" where
  "unlink_timer i [] = None"
| "unlink_timer i (te # ts) =
     (if te_id te = i then Some (te, ts)
      else map_option (\<lambda>(t, ts'). (t, te # ts')) (unlink_timer i ts))"

definition aeDeleteTimeEvent ::
  "('w, 'p, 'd, 'a) ae_env \<Rightarrow> int \<Rightarrow> 'w \<times> ('p, 'd, 'a) aeEventLoop
    \<Rightarrow> (int \<times> 'w \<times> ('p, 'd, 'a) aeEventLoop) option" where
  "aeDeleteTimeEvent env i s =
     (let (w, l) = s
      in case unlink_timer i (timeEventHead l) of
           None \<Rightarrow> Some (AE_ERR, w, l)
         | Some (te, ts) \<Rightarrow>
             (let s1 = (w, l\<lparr>timeEventHead := ts\<rparr>)
              in case finalizerProc te of
                   None \<Rightarrow> Some (AE_OK, s1)
                 | Some f \<Rightarrow> map_option (\<lambda>s2. (AE_OK, s2)) (run_other env f s1)))"

definition earlier :: "('p, 'd) aeTimeEvent \<Rightarrow> ('p, 'd) aeTimeEvent \<Rightarrow> bool" where
  "earlier a b \<longleftrightarrow> when_sec a < when_sec b \<or> when_sec a = when_sec b \<and> when_ms a < when_ms b"

fun nearest_loop ::
  "('p, 'd) aeTimeEvent option \<Rightarrow> ('p, 'd) aeTimeEvent list \<Rightarrow> ('p, 'd) aeTimeEvent option" where
  "nearest_loop nearest [] = nearest"
| "nearest_loop nearest (te # ts) =
     nearest_loop (case nearest of None \<Rightarrow> Some te | Some n \<Rightarrow> if earlier te n then Some te else Some n) ts"

definition aeSearchNearestTimer :: "('p, 'd, 'a) aeEventLoop \<Rightarrow> ('p, 'd) aeTimeEvent option" where
  "aeSearchNearestTimer l = nearest_loop None (timeEventHead l)"

section \<open>Processing time events\<close>

definition due :: "int \<times> int \<Rightarrow> ('p, 'd) aeTimeEvent \<Rightarrow> bool" where
  "due now te \<longleftrightarrow> when_sec te < fst now \<or> fst now = when_sec te \<and> when_ms te \<le> snd now"

text \<open>The event that has run gets its next time; when its procedure has deleted it, the write goes
  to freed memory and has no result.\<close>

fun set_when ::
  "int \<Rightarrow> int \<times> int \<Rightarrow> ('p, 'd) aeTimeEvent list \<Rightarrow> ('p, 'd) aeTimeEvent list option" where
  "set_when i t [] = None"
| "set_when i t (te # ts) =
     (if te_id te = i then Some (te\<lparr>when_sec := fst t, when_ms := snd t\<rparr> # ts)
      else map_option (\<lambda>ts'. te # ts') (set_when i t ts))"

definition after_time_proc ::
  "('w, 'p, 'd, 'a) ae_env \<Rightarrow> int \<Rightarrow> int \<Rightarrow> 'w \<times> ('p, 'd, 'a) aeEventLoop
    \<Rightarrow> ('w \<times> ('p, 'd, 'a) aeEventLoop) option" where
  "after_time_proc env i retval s =
     (let (w, l) = s
      in if retval \<noteq> AE_NOMORE
         then (let (t, w') = aeAddMillisecondsToNow (clock env) retval w
               in map_option (\<lambda>ts. (w', l\<lparr>timeEventHead := ts\<rparr>)) (set_when i t (timeEventHead l)))
         else map_option snd (aeDeleteTimeEvent env i s))"

text \<open>The walk over the list; after a procedure has run it starts from the head again.\<close>

partial_function (option) time_walk ::
  "('w, 'p, 'd, 'a) ae_env \<Rightarrow> int \<Rightarrow> ('p, 'd) aeTimeEvent list \<Rightarrow> nat \<Rightarrow> 'w \<times> ('p, 'd, 'a) aeEventLoop
    \<Rightarrow> (nat \<times> 'w \<times> ('p, 'd, 'a) aeEventLoop) option" where
  "time_walk env max_id rest processed s =
     (case rest of
        [] \<Rightarrow> Some (processed, s)
      | te # ts \<Rightarrow>
          if max_id < te_id te then time_walk env max_id ts processed s
          else (let (now, w') = aeGetTime (clock env) (fst s); s1 = (w', snd s)
                in if due now te
                   then (case run_time env (timeProc te) (te_id te) (te_clientData te) s1 of
                           None \<Rightarrow> None
                         | Some (retval, s2) \<Rightarrow>
                             (case after_time_proc env (te_id te) retval s2 of
                                None \<Rightarrow> None
                              | Some s3 \<Rightarrow>
                                  time_walk env max_id (timeEventHead (snd s3)) (Suc processed) s3))
                   else time_walk env max_id ts processed s1))"

declare time_walk.simps [code]

text \<open>When the clock has been set back, every event is made due.\<close>

definition clock_skew :: "int \<Rightarrow> ('p, 'd, 'a) aeEventLoop \<Rightarrow> ('p, 'd, 'a) aeEventLoop" where
  "clock_skew now l =
     (if now < lastTime l
      then l\<lparr>timeEventHead := map (\<lambda>te. te\<lparr>when_sec := 0\<rparr>) (timeEventHead l)\<rparr> else l)\<lparr>lastTime := now\<rparr>"

definition processTimeEvents ::
  "('w, 'p, 'd, 'a) ae_env \<Rightarrow> 'w \<times> ('p, 'd, 'a) aeEventLoop
    \<Rightarrow> (nat \<times> 'w \<times> ('p, 'd, 'a) aeEventLoop) option" where
  "processTimeEvents env s =
     (let (now, w') = unix_time env (fst s); l = clock_skew now (snd s)
      in time_walk env (timeEventNextId l - 1) (timeEventHead l) 0 (w', l))"

section \<open>Processing events\<close>

text \<open>How long to wait for the nearest timer.\<close>

definition poll_timeout :: "int \<times> int \<Rightarrow> ('p, 'd) aeTimeEvent \<Rightarrow> int \<times> int" where
  "poll_timeout now te =
     (let (now_sec, now_ms) = now; tv_sec = when_sec te - now_sec;
          (tv_sec', tv_usec) =
            (if when_ms te < now_ms then (tv_sec - 1, (when_ms te + 1000 - now_ms) * 1000)
             else (tv_sec, (when_ms te - now_ms) * 1000))
      in (if tv_sec' < 0 then 0 else tv_sec', if tv_usec < 0 then 0 else tv_usec))"

text \<open>One fired event. The mask is read again before each procedure: an earlier one may have removed the event.\<close>

definition fire_event ::
  "('w, 'p, 'd, 'a) ae_env \<Rightarrow> int \<Rightarrow> int \<Rightarrow> 'w \<times> ('p, 'd, 'a) aeEventLoop
    \<Rightarrow> ('w \<times> ('p, 'd, 'a) aeEventLoop) option" where
  "fire_event env fd m s = do {
     fe \<leftarrow> array_get (events (snd s)) fd;
     let rfired = has_event (fe_mask fe AND m) AE_READABLE;
     s1 \<leftarrow> (if rfired
            then do { r \<leftarrow> rfileProc fe; run_file env r fd (fe_clientData fe) m s }
            else Some s);
     fe1 \<leftarrow> array_get (events (snd s1)) fd;
     if has_event (fe_mask fe1 AND m) AE_WRITABLE \<and> (\<not> rfired \<or> wfileProc fe1 \<noteq> rfileProc fe1)
     then do { p \<leftarrow> wfileProc fe1; run_file env p fd (fe_clientData fe1) m s1 }
     else Some s1
   }"

fun fire_events ::
  "('w, 'p, 'd, 'a) ae_env \<Rightarrow> nat \<Rightarrow> nat \<Rightarrow> 'w \<times> ('p, 'd, 'a) aeEventLoop
    \<Rightarrow> ('w \<times> ('p, 'd, 'a) aeEventLoop) option" where
  "fire_events env j 0 s = Some s"
| "fire_events env j (Suc n) s =
     (if length (fired (snd s)) \<le> j then None
      else let e = fired (snd s) ! j
        in case fire_event env (fired_fd e) (fired_mask e) s of
             None \<Rightarrow> None
           | Some s' \<Rightarrow> fire_events env (Suc j) n s')"

definition poll_wait ::
  "('w, 'p, 'd, 'a) ae_env \<Rightarrow> int \<Rightarrow> 'w \<times> ('p, 'd, 'a) aeEventLoop
    \<Rightarrow> (int \<times> int) option \<times> 'w \<times> ('p, 'd, 'a) aeEventLoop" where
  "poll_wait env flags s =
     (let shortest = (if has_event flags AE_TIME_EVENTS \<and> \<not> has_event flags AE_DONT_WAIT
                      then aeSearchNearestTimer (snd s) else None)
      in case shortest of
           Some te \<Rightarrow> (let (now, w') = aeGetTime (clock env) (fst s) in (Some (poll_timeout now te), w', snd s))
         | None \<Rightarrow> (if has_event flags AE_DONT_WAIT then Some (0, 0) else None, s))"

definition aeProcessEvents ::
  "('w, 'p, 'd, 'a) ae_env \<Rightarrow> int \<Rightarrow> 'w \<times> ('p, 'd, 'a) aeEventLoop
    \<Rightarrow> (nat \<times> 'w \<times> ('p, 'd, 'a) aeEventLoop) option" where
  "aeProcessEvents env flags s =
     (if \<not> has_event flags AE_TIME_EVENTS \<and> \<not> has_event flags AE_FILE_EVENTS then Some (0, s)
      else do {
        (numevents, s1) \<leftarrow>
          (if maxfd (snd s) \<noteq> -1 \<or> has_event flags AE_TIME_EVENTS \<and> \<not> has_event flags AE_DONT_WAIT
           then do {
             let (tvp, s') = poll_wait env flags s;
             (n, s'') \<leftarrow> poll env tvp s';
             t \<leftarrow> fire_events env 0 n s'';
             Some (n, t)
           }
           else Some (0, s));
        if has_event flags AE_TIME_EVENTS
        then do { (n, s2) \<leftarrow> processTimeEvents env s1; Some (numevents + n, s2) }
        else Some (numevents, s1)
      })"

partial_function (option) main_loop ::
  "('w, 'p, 'd, 'a) ae_env \<Rightarrow> 'w \<times> ('p, 'd, 'a) aeEventLoop \<Rightarrow> ('w \<times> ('p, 'd, 'a) aeEventLoop) option" where
  "main_loop env s =
     (if stop (snd s) then Some s
      else (case (case beforesleep (snd s) of None \<Rightarrow> Some s | Some f \<Rightarrow> run_other env f s) of
              None \<Rightarrow> None
            | Some s1 \<Rightarrow>
                (case aeProcessEvents env AE_ALL_EVENTS s1 of
                   None \<Rightarrow> None
                 | Some (n, s2) \<Rightarrow> main_loop env s2)))"

declare main_loop.simps [code]

definition aeMain ::
  "('w, 'p, 'd, 'a) ae_env \<Rightarrow> 'w \<times> ('p, 'd, 'a) aeEventLoop \<Rightarrow> ('w \<times> ('p, 'd, 'a) aeEventLoop) option" where
  "aeMain env s = main_loop env (fst s, (snd s)\<lparr>stop := False\<rparr>)"

text \<open>\<open>retval\<close> and \<open>revents\<close> are what \<open>poll\<close> returns for the one descriptor.\<close>

definition POLLIN :: int where "POLLIN = 1"
definition POLLOUT :: int where "POLLOUT = 4"
definition POLLERR :: int where "POLLERR = 8"
definition POLLHUP :: int where "POLLHUP = 16"

definition wait_events :: "int \<Rightarrow> int" where
  "wait_events m =
     (if has_event m AE_READABLE then POLLIN else 0) OR (if has_event m AE_WRITABLE then POLLOUT else 0)"

definition aeWait :: "(int \<Rightarrow> int \<Rightarrow> int \<Rightarrow> int \<times> int) \<Rightarrow> int \<Rightarrow> int \<Rightarrow> int \<Rightarrow> int" where
  "aeWait c_poll fd m milliseconds =
     (let (retval, revents) = c_poll fd (wait_events m) milliseconds
      in if retval = 1
         then (if has_event revents POLLIN then AE_READABLE else 0) OR
              (if has_event revents POLLOUT then AE_WRITABLE else 0) OR
              (if has_event revents POLLERR then AE_WRITABLE else 0) OR
              (if has_event revents POLLHUP then AE_WRITABLE else 0)
         else retval)"

section \<open>The nearest timer\<close>

text \<open>A time in milliseconds, and the well-formed ones, whose milliseconds are below a second.\<close>

definition in_ms :: "int \<times> int \<Rightarrow> int" where
  "in_ms t = 1000 * fst t + snd t"

definition te_when :: "('p, 'd) aeTimeEvent \<Rightarrow> int \<times> int" where
  "te_when te = (when_sec te, when_ms te)"

definition time_ok :: "int \<times> int \<Rightarrow> bool" where
  "time_ok t \<longleftrightarrow> 0 \<le> snd t \<and> snd t < 1000"

lemma earlier_in_ms:
  "time_ok (te_when a) \<Longrightarrow> time_ok (te_when b) \<Longrightarrow> earlier a b \<longleftrightarrow> in_ms (te_when a) < in_ms (te_when b)"
  by (auto simp: earlier_def in_ms_def te_when_def time_ok_def)

lemma due_in_ms:
  "time_ok (te_when te) \<Longrightarrow> time_ok now \<Longrightarrow> due now te \<longleftrightarrow> in_ms (te_when te) \<le> in_ms now"
  by (auto simp: due_def in_ms_def te_when_def time_ok_def)

lemma nearest_loop_minimum:
  assumes "\<forall>t \<in> set ts \<union> set_option n. time_ok (te_when t)" "ts \<noteq> [] \<or> n \<noteq> None"
  obtains te where "nearest_loop n ts = Some te" "te \<in> set ts \<union> set_option n"
    "\<forall>t \<in> set ts \<union> set_option n. in_ms (te_when te) \<le> in_ms (te_when t)"
  using assms
proof (induction ts arbitrary: n thesis)
  case Nil
  then show thesis by (cases n) auto
next
  case (Cons t ts)
  let ?n = "case n of None \<Rightarrow> Some t | Some m \<Rightarrow> if earlier t m then Some t else Some m"
  have sub: "set_option ?n \<subseteq> set (t # ts) \<union> set_option n" by (auto split: option.splits)
  then have "\<forall>x \<in> set ts \<union> set_option ?n. time_ok (te_when x)" "?n \<noteq> None"
    using Cons.prems(2) by (auto split: option.splits)
  then obtain te where te: "nearest_loop ?n ts = Some te" "te \<in> set ts \<union> set_option ?n"
    "\<forall>x \<in> set ts \<union> set_option ?n. in_ms (te_when te) \<le> in_ms (te_when x)"
    using Cons.IH [of ?n] by blast
  have "\<forall>x \<in> insert t (set_option n). in_ms (te_when te) \<le> in_ms (te_when x)"
    using te(3) Cons.prems(2) earlier_in_ms [of t] by (auto split: option.splits if_splits)
  then show thesis using Cons.prems(1) [of te] te sub by auto
qed

lemma poll_timeout_span:
  assumes "time_ok (te_when te)" "time_ok now"
  defines "gap \<equiv> in_ms (te_when te) - in_ms now"
  shows "1000000 * fst (poll_timeout now te) + snd (poll_timeout now te) =
    1000 * (if 0 \<le> gap then gap else gap mod 1000)"
proof -
  obtain ns nm where now: "now = (ns, nm)" by (cases now)
  have b: "0 \<le> when_ms te" "when_ms te < 1000" "0 \<le> nm" "nm < 1000"
    using assms by (simp_all add: time_ok_def te_when_def now)
  have g: "gap = 1000 * (when_sec te - ns) + (when_ms te - nm)"
    by (simp add: gap_def in_ms_def te_when_def now)
  show ?thesis
  proof (cases "when_ms te < nm")
    case True
    then have "gap mod 1000 = when_ms te + 1000 - nm"
      using mod_pos_pos_trivial [of "when_ms te + 1000 - nm" 1000] b
        mod_mult_self3 [of "when_sec te - ns - 1" 1000 "when_ms te + 1000 - nm"]
      by (simp add: g algebra_simps)
    then show ?thesis using True b g by (simp add: poll_timeout_def Let_def now)
  next
    case False
    then have "gap mod 1000 = when_ms te - nm"
      using mod_pos_pos_trivial [of "when_ms te - nm" 1000] b
        mod_mult_self3 [of "when_sec te - ns" 1000 "when_ms te - nm"] by (simp add: g algebra_simps)
    then show ?thesis using False b g by (simp add: poll_timeout_def Let_def now)
  qed
qed

text \<open>C30: The loop sleeps until its nearest timer: with a timer set, a call that may wait polls for exactly the
  time from now to the earliest of all timers when none of them is overdue. When one is overdue the call
  should not wait at all; but only the seconds are set to zero, and it waits for the
  difference modulo one second.\<close>

theorem sleeps_until_nearest:
  assumes "timeEventHead l \<noteq> []" "\<forall>te \<in> set (timeEventHead l). time_ok (te_when te)"
    and "clock env w = (now, w')" "time_ok now"
  shows "\<exists>s us. poll_wait env AE_ALL_EVENTS (w, l) = (Some (s, us), w', l) \<and> 0 \<le> s \<and> 0 \<le> us \<and> us < 1000000 \<and>
    1000000 * s + us =
      1000 * (let gap = Min (in_ms ` te_when ` set (timeEventHead l)) - in_ms now
              in if 0 \<le> gap then gap else gap mod 1000)"
proof -
  obtain te where te: "aeSearchNearestTimer l = Some te" "te \<in> set (timeEventHead l)"
    "\<forall>t \<in> set (timeEventHead l). in_ms (te_when te) \<le> in_ms (te_when t)"
    using nearest_loop_minimum [of "timeEventHead l" None] assms(1,2) by (auto simp: aeSearchNearestTimer_def)
  have "Min (in_ms ` te_when ` set (timeEventHead l)) = in_ms (te_when te)"
    using te by (intro Min_eqI) auto
  moreover have "0 \<le> fst (poll_timeout now te)" "0 \<le> snd (poll_timeout now te)" "snd (poll_timeout now te) < 1000000"
    using assms(2,4) te(2) by (auto simp: poll_timeout_def Let_def time_ok_def te_when_def split: prod.split)
  moreover have "poll_wait env AE_ALL_EVENTS (w, l) = (Some (poll_timeout now te), w', l)"
    using te(1) assms(3) by (simp add: poll_wait_def aeGetTime_def has_event_def ae_defs)
  ultimately show ?thesis using poll_timeout_span [of te now] te(2) assms(2,4)
    by (intro exI [of _ "fst (poll_timeout now te)"] exI [of _ "snd (poll_timeout now te)"]) (simp add: Let_def)
qed

section \<open>Time events are found by their identifiers\<close>

definition timers_ok :: "('p, 'd, 'a) aeEventLoop \<Rightarrow> bool" where
  "timers_ok l \<longleftrightarrow> distinct (map te_id (timeEventHead l)) \<and>
     (\<forall>te \<in> set (timeEventHead l). 0 \<le> te_id te \<and> te_id te < timeEventNextId l) \<and> 0 \<le> timeEventNextId l"

lemma unlink_timer_spec:
  assumes "distinct (map te_id ts)" "te \<in> set ts"
  shows "\<exists>ts'. unlink_timer (te_id te) ts = Some (te, ts') \<and> set ts' = set ts - {te} \<and>
    distinct (map te_id ts') \<and> length ts = Suc (length ts')"
  using assms
proof (induction ts)
  case (Cons t ts)
  show ?case
  proof (cases "te_id t = te_id te")
    case True
    then have "te = t" using Cons.prems by auto
    then show ?thesis using Cons.prems by auto
  next
    case False
    then have "te \<in> set ts" using Cons.prems by auto
    with Cons obtain ts' where "unlink_timer (te_id te) ts = Some (te, ts')" "set ts' = set ts - {te}"
      "distinct (map te_id ts')" "length ts = Suc (length ts')" by auto
    then show ?thesis using False Cons.prems by auto
  qed
qed simp

lemma unlink_timer_None: "unlink_timer i ts = None \<longleftrightarrow> i \<notin> te_id ` set ts"
  by (induction ts) auto

lemma set_when_spec:
  assumes "distinct (map te_id ts)" "te \<in> set ts"
  shows "\<exists>ts'. set_when (te_id te) t ts = Some ts' \<and> map te_id ts' = map te_id ts \<and>
    set ts' = insert (te\<lparr>when_sec := fst t, when_ms := snd t\<rparr>) (set ts - {te})"
  using assms
proof (induction ts)
  case (Cons u ts)
  show ?case
  proof (cases "te_id u = te_id te")
    case True
    then have "te = u" using Cons.prems by auto
    then show ?thesis using Cons.prems by auto
  next
    case False
    then have "te \<in> set ts" using Cons.prems by auto
    with Cons obtain ts' where "set_when (te_id te) t ts = Some ts'" "map te_id ts' = map te_id ts"
      "set ts' = insert (te\<lparr>when_sec := fst t, when_ms := snd t\<rparr>) (set ts - {te})" by auto
    then show ?thesis using False Cons.prems by auto
  qed
qed simp

lemma add_ms_later:
  assumes "fst (clk w) = now" "time_ok now" "0 \<le> ms"
  shows "in_ms (fst (aeAddMillisecondsToNow clk ms w)) = in_ms now + ms"
    "time_ok (fst (aeAddMillisecondsToNow clk ms w))"
proof -
  obtain ns nm w' where c: "clk w = ((ns, nm), w')" and now: "now = (ns, nm)"
    using assms(1) by (cases "clk w"; cases now) auto
  have "ms sdiv 1000 = ms div 1000" "ms smod 1000 = ms mod 1000"
    using assms(3) by (cases "ms = 0"; simp add: signed_divide_int_def signed_modulo_int_def)+
  moreover have "ms = 1000 * (ms div 1000) + ms mod 1000" "0 \<le> ms mod 1000" "ms mod 1000 < 1000" by simp_all
  ultimately show "in_ms (fst (aeAddMillisecondsToNow clk ms w)) = in_ms now + ms"
    "time_ok (fst (aeAddMillisecondsToNow clk ms w))"
    using assms(2) by (auto simp: aeAddMillisecondsToNow_def aeGetTime_def c now Let_def in_ms_def time_ok_def)
qed

text \<open>A new timer is due exactly the asked milliseconds from now, has an identifier no other timer has, and
  deleting it by that identifier gives back the timers there were; deleting it again reports that there is none.\<close>

theorem timer_roundtrip:
  assumes "timers_ok l" "clk w = (now, w1)" "time_ok now" "0 \<le> ms"
    and "aeCreateTimeEvent clk ms proc d None (w, l) = (i, w', l')"
  shows "timers_ok l' \<and> i \<notin> te_id ` set (timeEventHead l) \<and>
    in_ms (te_when (hd (timeEventHead l'))) = in_ms now + ms \<and>
    aeDeleteTimeEvent env i (w', l') = Some (AE_OK, w', l'\<lparr>timeEventHead := timeEventHead l\<rparr>) \<and>
    aeDeleteTimeEvent env i (w', l'\<lparr>timeEventHead := timeEventHead l\<rparr>) =
      Some (AE_ERR, w', l'\<lparr>timeEventHead := timeEventHead l\<rparr>)"
proof -
  obtain t w2 where t: "aeAddMillisecondsToNow clk ms w = (t, w2)" by (cases "aeAddMillisecondsToNow clk ms w")
  have i: "i = timeEventNextId l" "w' = w2" and l': "l' = l\<lparr>timeEventNextId := timeEventNextId l + 1, timeEventHead :=
      \<lparr>te_id = i, when_sec = fst t, when_ms = snd t, timeProc = proc, finalizerProc = None, te_clientData = d\<rparr>
        # timeEventHead l\<rparr>"
    using assms(5) t by (auto simp: aeCreateTimeEvent_def Let_def split: prod.splits)
  have new: "i \<notin> te_id ` set (timeEventHead l)" using assms(1) i by (fastforce simp: timers_ok_def)
  have "in_ms t = in_ms now + ms" using add_ms_later(1) [of clk w now ms] assms(2-4) t by simp
  then show ?thesis using new assms(1) i unlink_timer_None [of i "timeEventHead l"]
    by (auto simp: l' timers_ok_def te_when_def aeDeleteTimeEvent_def)
qed

section \<open>Processing of time events ends\<close>

text \<open>What the program's own procedures do to the timers: they set new ones and delete none.\<close>

definition only_adds :: "('p, 'd, 'a) aeEventLoop \<Rightarrow> ('p, 'd, 'a) aeEventLoop \<Rightarrow> bool" where
  "only_adds l l' \<longleftrightarrow> (\<exists>new. timeEventHead l' = new @ timeEventHead l \<and> distinct (map te_id new) \<and>
     (\<forall>te \<in> set new. timeEventNextId l \<le> te_id te \<and> te_id te < timeEventNextId l')) \<and>
     timeEventNextId l \<le> timeEventNextId l'"

lemma only_adds_refl [simp]: "only_adds l l"
  by (simp add: only_adds_def)

lemma only_adds_ok: "only_adds l l' \<Longrightarrow> timers_ok l \<Longrightarrow> timers_ok l'"
  by (fastforce simp: only_adds_def timers_ok_def)

text \<open>The timers older than \<open>N\<close> that are due.\<close>

definition due_timers :: "int \<Rightarrow> int \<times> int \<Rightarrow> ('p, 'd, 'a) aeEventLoop \<Rightarrow> ('p, 'd) aeTimeEvent set" where
  "due_timers N now l = {te \<in> set (timeEventHead l). te_id te < N \<and> due now te}"

lemma finite_due_timers [simp]: "finite (due_timers N now l)"
  by (simp add: due_timers_def)

lemma due_timers_only_adds: "only_adds l l' \<Longrightarrow> N \<le> timeEventNextId l \<Longrightarrow> due_timers N now l' = due_timers N now l"
  by (fastforce simp: due_timers_def only_adds_def)

text \<open>Procedures that return, set their next time later or ask to be deleted, and only add timers; during them the
  clock shows \<open>now\<close>.\<close>

definition steady :: "('w, 'p, 'd, 'a) ae_env \<Rightarrow> int \<times> int \<Rightarrow> bool" where
  "steady env now \<longleftrightarrow> time_ok now \<and> (\<forall>w. fst (clock env w) = now) \<and>
     (\<forall>p i d w l. \<exists>r w' l'. run_time env p i d (w, l) = Some (r, w', l') \<and> (r = AE_NOMORE \<or> 0 < r) \<and> only_adds l l') \<and>
     (\<forall>f w l. \<exists>w' l'. run_other env f (w, l) = Some (w', l') \<and> only_adds l l')"

lemma after_time_proc_removes:
  assumes st: "steady env now" and ok: "timers_ok l" and te: "te \<in> due_timers N now l"
    and N: "N \<le> timeEventNextId l" and r: "r = AE_NOMORE \<or> 0 < r"
  shows "\<exists>w' l'. after_time_proc env (te_id te) r (w, l) = Some (w', l') \<and> timers_ok l' \<and>
    N \<le> timeEventNextId l' \<and> due_timers N now l' = due_timers N now l - {te}"
proof -
  have ts: "distinct (map te_id (timeEventHead l))" "te \<in> set (timeEventHead l)"
    using ok te by (auto simp: timers_ok_def due_timers_def)
  show ?thesis
  proof (cases "r = AE_NOMORE")
    case True
    obtain ts' where u: "unlink_timer (te_id te) (timeEventHead l) = Some (te, ts')" "set ts' = set (timeEventHead l) - {te}"
      "distinct (map te_id ts')" using unlink_timer_spec [OF ts] by auto
    let ?l = "l\<lparr>timeEventHead := ts'\<rparr>"
    have l: "timers_ok ?l" "due_timers N now ?l = due_timers N now l - {te}" "N \<le> timeEventNextId ?l"
      using ok u N by (auto simp: timers_ok_def due_timers_def)
    obtain w' l' where f: "only_adds ?l l'" "aeDeleteTimeEvent env (te_id te) (w, l) = Some (AE_OK, w', l')"
    proof (cases "finalizerProc te")
      case None
      then show ?thesis using that [of ?l w] u by (simp add: aeDeleteTimeEvent_def)
    next
      case (Some f)
      obtain w1 l1 where "run_other env f (w, ?l) = Some (w1, l1)" "only_adds ?l l1"
        using st unfolding steady_def by blast
      then show ?thesis using that [of l1 w1] u Some by (simp add: aeDeleteTimeEvent_def)
    qed
    then show ?thesis using True l only_adds_ok [OF f(1)] due_timers_only_adds [OF f(1) l(3)]
      by (auto simp: after_time_proc_def only_adds_def)
  next
    case False
    obtain t w' where t: "aeAddMillisecondsToNow (clock env) r w = (t, w')" by (cases "aeAddMillisecondsToNow (clock env) r w")
    obtain ts' where s: "set_when (te_id te) t (timeEventHead l) = Some ts'" "map te_id ts' = map te_id (timeEventHead l)"
      "set ts' = insert (te\<lparr>when_sec := fst t, when_ms := snd t\<rparr>) (set (timeEventHead l) - {te})"
      using set_when_spec [OF ts] by blast
    have now: "time_ok now" "fst (clock env w) = now" using st by (auto simp: steady_def)
    have later: "\<not> due now (te\<lparr>when_sec := fst t, when_ms := snd t\<rparr>)"
      using add_ms_later [of "clock env" w now r, OF now(2,1)] t False r now by (subst due_in_ms) (auto simp: te_when_def)
    have "te_id ` set ts' = te_id ` set (timeEventHead l)" using s(2) by (metis set_map)
    then have "(\<forall>i \<in> te_id ` set ts'. 0 \<le> i \<and> i < timeEventNextId l)" using ok by (auto simp: timers_ok_def)
    then have "timers_ok (l\<lparr>timeEventHead := ts'\<rparr>)" using ok s(2) by (simp add: timers_ok_def)
    moreover have "due_timers N now (l\<lparr>timeEventHead := ts'\<rparr>) = due_timers N now l - {te}"
      using later by (auto simp: due_timers_def s(3))
    ultimately show ?thesis using False s(1) t N by (simp add: after_time_proc_def)
  qed
qed

lemma time_walk_returns:
  assumes st: "steady env now"
  shows "timers_ok l \<Longrightarrow> N \<le> timeEventNextId l \<Longrightarrow> timeEventHead l = pre @ rest \<Longrightarrow> set pre \<inter> due_timers N now l = {} \<Longrightarrow>
    \<exists>w' l'. time_walk env (N - 1) rest k (w, l) = Some (k + card (due_timers N now l), w', l') \<and>
      timers_ok l' \<and> due_timers N now l' = {}"
proof (induction "card (due_timers N now l)" arbitrary: l w pre rest k rule: less_induct)
  case less
  note IH = less.hyps
  show ?case using less.prems
  proof (induction rest arbitrary: w pre)
    case Nil
    then have "due_timers N now l = {}" by (auto simp: due_timers_def)
    then show ?case using Nil by (simp add: time_walk.simps)
  next
    case (Cons te ts)
    obtain w1 where c: "clock env w = (now, w1)" using st unfolding steady_def by (metis prod.collapse)
    show ?case
    proof (cases "te \<in> due_timers N now l")
      case False
      then have p: "set (pre @ [te]) \<inter> due_timers N now l = {}" using Cons.prems(4) by auto
      have skip: "N - 1 < te_id te \<or> \<not> due now te" using False Cons.prems(3) by (auto simp: due_timers_def)
      obtain v where v: "time_walk env (N - 1) (te # ts) k (w, l) = time_walk env (N - 1) ts k (v, l)"
        using skip c that [of w] that [of w1] time_walk.simps [of env "N - 1" "te # ts" k "(w, l)"]
        by (cases "N - 1 < te_id te") (simp_all add: aeGetTime_def)
      show ?thesis unfolding v by (rule Cons.IH [OF Cons.prems(1,2) _ p]) (simp add: Cons.prems(3))
    next
      case True
      then have d: "te_id te \<le> N - 1" "due now te" by (auto simp: due_timers_def)
      obtain r w2 l2 where r: "run_time env (timeProc te) (te_id te) (te_clientData te) (w1, l) = Some (r, w2, l2)"
        "r = AE_NOMORE \<or> 0 < r" "only_adds l l2" using st unfolding steady_def by metis
      have same: "due_timers N now l2 = due_timers N now l" by (rule due_timers_only_adds [OF r(3) Cons.prems(2)])
      have N2: "N \<le> timeEventNextId l2" using r(3) Cons.prems(2) by (simp add: only_adds_def)
      obtain w3 l3 where l3: "after_time_proc env (te_id te) r (w2, l2) = Some (w3, l3)" "timers_ok l3"
        "N \<le> timeEventNextId l3" "due_timers N now l3 = due_timers N now l - {te}"
        using after_time_proc_removes [OF st only_adds_ok [OF r(3) Cons.prems(1)] _ N2 r(2), of te w2] True same by auto
      have card: "card (due_timers N now l) = Suc (card (due_timers N now l3))"
        using card.remove [OF finite_due_timers True] by (simp add: l3(4))
      have smaller: "card (due_timers N now l3) < card (due_timers N now l)" using card by simp
      have "\<exists>w' l'. time_walk env (N - 1) (timeEventHead l3) (Suc k) (w3, l3) =
          Some (Suc k + card (due_timers N now l3), w', l') \<and> timers_ok l' \<and> due_timers N now l' = {}"
        by (rule IH [OF smaller l3(2,3), of "[]"]) simp_all
      moreover have "time_walk env (N - 1) (te # ts) k (w, l) = time_walk env (N - 1) (timeEventHead l3) (Suc k) (w3, l3)"
        by (subst time_walk.simps) (use c d r(1) l3(1) in \<open>simp add: aeGetTime_def\<close>)
      ultimately show ?thesis by (simp add: card)
    qed
  qed
qed


section \<open>An environment with a clock that stands still\<close>

text \<open>The world is the time; procedures give the milliseconds until they run again, and nothing is ready.\<close>

definition still_env :: "(int \<times> int, int, unit, 'a) ae_env" where
  "still_env = \<lparr>clock = (\<lambda>w. ((12, 100), w)), unix_time = (\<lambda>w. (12, w)), run_file = (\<lambda>p fd d m s. Some s),
     run_time = (\<lambda>p i d s. Some (if 0 < p then p else AE_NOMORE, s)), run_other = (\<lambda>p s. Some s), poll = (\<lambda>t s. Some (0, s))\<rparr>"

definition timer_loop :: "(int, unit, unit) aeEventLoop" where
  "timer_loop =
     (let timer = (\<lambda>i s m p. \<lparr>te_id = i, when_sec = s, when_ms = m, timeProc = p, finalizerProc = None, te_clientData = ()\<rparr>)
      in (the (aeCreateEventLoop (Some ()) 11 4))\<lparr>timeEventNextId := 3,
           timeEventHead := [timer 2 12 100 250, timer 1 20 0 500, timer 0 10 500 0]\<rparr>)"

lemma sleeps_until_nearest_witness:
  "\<exists>s us. poll_wait still_env AE_ALL_EVENTS ((0, 0), timer_loop) = (Some (s, us), (0, 0), timer_loop) \<and>
     1000000 * s + us = 400000"
  using sleeps_until_nearest [of timer_loop still_env "(0, 0)" "(12, 100)" "(0, 0)"]
  by (auto simp: timer_loop_def still_env_def aeCreateEventLoop_def time_ok_def te_when_def in_ms_def Let_def)

lemma timer_roundtrip_witness:
  "aeDeleteTimeEvent still_env 3 (snd (aeCreateTimeEvent (clock still_env) 50 7 () None ((0, 0), timer_loop))) =
     Some (AE_OK, (0, 0), timer_loop\<lparr>timeEventNextId := 4\<rparr>)"
  using timer_roundtrip [of timer_loop "clock still_env" "(0, 0)" "(12, 100)" "(0, 0)" 50 7 "()" 3 _ _ still_env]
  by (simp add: timer_loop_def still_env_def aeCreateEventLoop_def timers_ok_def time_ok_def aeCreateTimeEvent_def
    aeAddMillisecondsToNow_def aeGetTime_def Let_def)

lemma still_env_steady: "steady still_env (12, 100)"
  by (auto simp: steady_def still_env_def time_ok_def)



end
