(* ===== verification/Units.thy ===== *)
theory Units
  imports Http_Numbers
begin

text \<open>
  Numbers with units, \<open>wrk2/src/units.c\<close>: \<open>scan_units\<close> reads what the user types for a count or
  a time, \<open>format_units\<close> chooses the unit in which a number is shown. The \<open>long double\<close> amounts are
  exact rationals; the text that \<open>aprintf\<close> makes of amount, precision and unit is left to the C library.
\<close>

section \<open>The tables\<close>

record units =
  scale :: int
  base :: string
  unit_names :: "string list"

definition time_units_us :: units where
  "time_units_us = \<lparr>scale = 1000, base = ''us'', unit_names = [''ms'', ''s'']\<rparr>"

definition time_units_s :: units where
  "time_units_s = \<lparr>scale = 60, base = ''s'', unit_names = [''m'', ''h'']\<rparr>"

definition binary_units :: units where
  "binary_units = \<lparr>scale = 1024, base = '''', unit_names = [''K'', ''M'', ''G'', ''T'', ''P'']\<rparr>"

definition metric_units :: units where
  "metric_units = \<lparr>scale = 1000, base = '''', unit_names = [''k'', ''M'', ''G'', ''T'', ''P'']\<rparr>"

section \<open>Formatting\<close>

text \<open>\<open>m->units[i + 1] && amt >= scale\<close>: the loop stops one short of the last unit.\<close>

fun format_loop :: "rat \<Rightarrow> string list \<Rightarrow> rat \<Rightarrow> string \<Rightarrow> rat \<times> string" where
  "format_loop sc (u # v # us) amt un =
     (if sc * (85 / 100) \<le> amt then format_loop sc (v # us) (amt / sc) u else (amt, un))"
| "format_loop sc us amt un = (amt, un)"

definition format_units :: "rat \<Rightarrow> units \<Rightarrow> rat \<times> string" where
  "format_units n m = format_loop (of_int (scale m)) (unit_names m) n (base m)"

definition format_binary :: "rat \<Rightarrow> rat \<times> string" where
  "format_binary n = format_units n binary_units"

definition format_metric :: "rat \<Rightarrow> rat \<times> string" where
  "format_metric n = format_units n metric_units"

definition format_time_us :: "rat \<Rightarrow> rat \<times> string" where
  "format_time_us n =
     (if 1000000 \<le> n then format_units (n / 1000000) time_units_s else format_units n time_units_us)"

definition format_time_s :: "rat \<Rightarrow> rat \<times> string" where
  "format_time_s n = format_units n time_units_s"

section \<open>Scanning\<close>

text \<open>White space of the C locale: space, and tab to carriage return.\<close>

definition is_space :: "char \<Rightarrow> bool" where
  "is_space c \<longleftrightarrow> c = SP \<or> 9 \<le> (of_char c :: nat) \<and> of_char c \<le> (13 :: nat)"

definition c_lower :: "char \<Rightarrow> char" where
  "c_lower c = (let n = of_char c :: nat in if 65 \<le> n \<and> n \<le> 90 then char_of (n + 32) else c)"

text \<open>Whether two strings agree in their first \<open>n\<close> characters, but for the case of letters.\<close>

definition same_strncase :: "nat \<Rightarrow> string \<Rightarrow> string \<Rightarrow> bool" where
  "same_strncase n s t \<longleftrightarrow> map c_lower (take n s) = map c_lower (take n t)"

text \<open>
  \<open>sscanf\<close> with \<open>%lu%2s\<close>: white space, an optional sign and digits (a number that does not fit is
  the largest, and a minus sign negates the result), then white space and at most two
  other characters. The result is the number, and the unit if there was one.
\<close>

definition scan_u64 :: "string \<Rightarrow> (u64 \<times> string) option" where
  "scan_u64 s =
     (let t = dropWhile is_space s;
          neg = (case t of [] \<Rightarrow> False | c # _ \<Rightarrow> c = CHR ''-'');
          u = (case t of [] \<Rightarrow> [] | c # cs \<Rightarrow> if c = CHR ''-'' \<or> c = CHR ''+'' then cs else t);
          ds = takeWhile IS_NUM u;
          v = number_from 10 digit_value 0 ds;
          w = (if v < 2 ^ 64 then (if neg then - word_of_int v else word_of_int v) else - 1)
      in if ds = [] then None else Some (w, dropWhile IS_NUM u))"

definition scan_unit :: "string \<Rightarrow> string option" where
  "scan_unit s =
     (let t = takeWhile (\<lambda>c. \<not> is_space c) (dropWhile is_space s)
      in if t = [] then None else Some (take 2 t))"

text \<open>The factor of the first unit that the given one names.\<close>

fun unit_scale :: "int \<Rightarrow> string \<Rightarrow> string list \<Rightarrow> u64 \<Rightarrow> u64 option" where
  "unit_scale sc un [] acc = None"
| "unit_scale sc un (u # us) acc =
     (let acc' = acc * word_of_int sc
      in if same_strncase 3 un u then Some acc' else unit_scale sc un us acc')"

definition scan_units :: "string \<Rightarrow> units \<Rightarrow> u64 option" where
  "scan_units s m =
     (case scan_u64 s of
        None \<Rightarrow> None
      | Some (b, rest) \<Rightarrow>
          (case scan_unit rest of
             None \<Rightarrow> Some b
           | Some un \<Rightarrow>
               if same_strncase 3 un (base m) then Some b
               else map_option (\<lambda>f. b * f) (unit_scale (scale m) un (unit_names m) 1)))"

definition scan_metric :: "string \<Rightarrow> u64 option" where
  "scan_metric s = scan_units s metric_units"

definition scan_time :: "string \<Rightarrow> u64 option" where
  "scan_time s = scan_units s time_units_s"

section \<open>What scanning reads\<close>

lemma num_code: "IS_NUM c \<longleftrightarrow> 48 \<le> (of_char c :: nat) \<and> of_char c \<le> (57 :: nat)"
  by (simp add: IS_NUM_def char_le_def)

lemma num_not_space: "IS_NUM c \<Longrightarrow> \<not> is_space c \<and> c \<noteq> CHR ''-'' \<and> c \<noteq> CHR ''+''"
  by (auto simp: num_code is_space_def SP_def)

lemma scan_u64_digits:
  assumes "ds \<noteq> []" "\<forall>c \<in> set ds. IS_NUM c" "rest = [] \<or> \<not> IS_NUM (hd rest)"
  shows "scan_u64 (ds @ rest) =
    Some (let v = number_from 10 digit_value 0 ds in if v < 2 ^ 64 then word_of_int v else - 1, rest)"
proof -
  obtain c cs where d: "ds = c # cs" using assms(1) by (cases ds) auto
  have c: "\<not> is_space c" "c \<noteq> CHR ''-''" "c \<noteq> CHR ''+''" using assms(2) d num_not_space by auto
  have t: "takeWhile IS_NUM (ds @ rest) = ds" "dropWhile IS_NUM (ds @ rest) = rest"
    using assms(2,3) by (simp_all add: takeWhile_append dropWhile_append) (cases rest; simp)+
  have w: "dropWhile is_space (ds @ rest) = ds @ rest" using c d by simp
  show ?thesis
    using c assms(1) t unfolding scan_u64_def w Let_def by (simp add: d)
qed

lemma scan_units_digits:
  assumes "ds \<noteq> []" "\<forall>c \<in> set ds. IS_NUM c" "rest = [] \<or> \<not> IS_NUM (hd rest)"
    and "v = number_from 10 digit_value 0 ds" "v < 2 ^ 64"
  shows "scan_units (ds @ rest) m =
    (case scan_unit rest of
       None \<Rightarrow> Some (word_of_int v)
     | Some un \<Rightarrow>
         if same_strncase 3 un (base m) then Some (word_of_int v)
         else map_option (\<lambda>f. word_of_int v * f) (unit_scale (scale m) un (unit_names m) 1))"
  using scan_u64_digits [OF assms(1-3)] assms(5) unfolding assms(4) by (simp add: scan_units_def)

definition metric_suffixes :: "(string \<times> nat) list" where
  "metric_suffixes = [('''', 0), (''k'', 1), (''K'', 1), (''M'', 2), (''m'', 2), (''G'', 3), (''T'', 4), (''P'', 5)]"

definition time_suffixes :: "(string \<times> nat) list" where
  "time_suffixes = [('''', 0), (''s'', 0), (''m'', 1), (''h'', 2), ('' h'', 2)]"

text \<open>That the scanned unit \<open>un\<close> stands for the factor \<open>sc ^ k\<close> in the table \<open>m\<close>.\<close>

definition stands_for :: "units \<Rightarrow> string \<times> nat \<Rightarrow> bool" where
  "stands_for m entry =
     (case entry of (un, k) \<Rightarrow>
       (un = [] \<or> \<not> IS_NUM (hd un)) \<and>
       (case scan_unit un of
          None \<Rightarrow> k = 0
        | Some u \<Rightarrow> (if same_strncase 3 u (base m) then k = 0
                    else unit_scale (scale m) u (unit_names m) 1 = Some (word_of_int (scale m) ^ k))))"

lemma suffix_tables:
  "list_all (stands_for metric_units) metric_suffixes"
  "list_all (stands_for time_units_s) time_suffixes"
  by code_simp+

lemma scan_units_value:
  assumes "ds \<noteq> []" "\<forall>c \<in> set ds. IS_NUM c" "v = number_from 10 digit_value 0 ds" "v < 2 ^ 64"
    and "stands_for m (un, k)"
  shows "scan_units (ds @ un) m = Some (word_of_int (v * scale m ^ k))"
  using scan_units_digits [OF assms(1,2) _ assms(3,4), of un m] assms(5)
  by (auto simp: stands_for_def split: option.splits if_splits)

text \<open>C32: A decimal number below \<open>2 ^ 64\<close> is read with its unit: a count with the powers of 1000, a
  time with the powers of 60. The product is computed modulo \<open>2 ^ 64\<close>, so it is exact when it fits.\<close>

theorem scan_reads_units:
  assumes "ds \<noteq> []" "\<forall>c \<in> set ds. IS_NUM c" "v = number_from 10 digit_value 0 ds" "v < 2 ^ 64"
    and "(un, k) \<in> set metric_suffixes" "(un', k') \<in> set time_suffixes"
  shows "scan_metric (ds @ un) = Some (word_of_int (v * 1000 ^ k)) \<and>
    scan_time (ds @ un') = Some (word_of_int (v * 60 ^ k'))"
proof -
  have "stands_for metric_units (un, k)" "stands_for time_units_s (un', k')"
    using suffix_tables assms(5,6) by (auto simp: list_all_iff)
  note this [THEN scan_units_value [OF assms(1-4)]]
  moreover have "scale metric_units = 1000" "scale time_units_s = 60"
    by (simp_all add: metric_units_def time_units_s_def)
  ultimately show ?thesis by (simp add: scan_metric_def scan_time_def)
qed

lemma scan_reads_units_witness:
  "scan_metric ''12k'' = Some 12000 \<and> scan_time ''12m'' = Some 720"
  using scan_reads_units [of "''12''" 12 "''k''" 1 "''m''" 1]
  by (simp add: IS_NUM_def char_le_def digit_value_def metric_suffixes_def time_suffixes_def)

lemma scan_wraps: "scan_metric ''20000P'' = Some 1553255926290448384"
  by code_simp

section \<open>The unit that is shown\<close>

lemma format_loop_value:
  assumes "0 < sc"
  shows "\<exists>k. format_loop sc us amt un = (amt / sc ^ k, (un # us) ! k) \<and> (us \<noteq> [] \<longrightarrow> k < length us) \<and>
    (us = [] \<longrightarrow> k = 0) \<and> (Suc k < length us \<longrightarrow> amt / sc ^ k < sc * (85 / 100)) \<and>
    (0 < k \<longrightarrow> 85 / 100 \<le> amt / sc ^ k)"
  using assms
proof (induction sc us amt un rule: format_loop.induct)
  case (1 sc u v us amt un)
  show ?case
  proof (cases "sc * (85 / 100) \<le> amt")
    case True
    then obtain k where k: "format_loop sc (v # us) (amt / sc) u = (amt / sc / sc ^ k, (u # v # us) ! k)"
      "k < length (v # us)" "Suc k < length (v # us) \<longrightarrow> amt / sc / sc ^ k < sc * (85 / 100)"
      "0 < k \<longrightarrow> 85 / 100 \<le> amt / sc / sc ^ k"
      using 1 by auto
    have "85 / 100 \<le> amt / sc / sc ^ k"
      using k(4) True 1(2) by (cases "k = 0") (simp_all add: field_simps)
    then show ?thesis using True k by (intro exI [of _ "Suc k"]) simp
  next
    case False
    then show ?thesis by (intro exI [of _ 0]) simp
  qed
qed simp_all

text \<open>C39: The amount shown is the number divided by the power of its unit; the loop takes a larger
  unit only when that leaves at least 0.85, and stops below 0.85 of the scale unless it has reached
  the unit before the last: the last unit of a table (hours, seconds after milliseconds, P) is never shown.\<close>

theorem format_shows_value:
  assumes "m \<in> {time_units_us, time_units_s, binary_units, metric_units}"
  shows "\<exists>k. format_units n m = (n / of_int (scale m) ^ k, (base m # unit_names m) ! k) \<and>
    k < length (unit_names m) \<and>
    (Suc k < length (unit_names m) \<longrightarrow> n / of_int (scale m) ^ k < of_int (scale m) * (85 / 100)) \<and>
    (0 < k \<longrightarrow> 85 / 100 \<le> n / of_int (scale m) ^ k)"
proof -
  have "0 < scale m" "unit_names m \<noteq> []"
    using assms by (auto simp: time_units_us_def time_units_s_def binary_units_def metric_units_def)
  then show ?thesis
    using format_loop_value [of "of_int (scale m)" "unit_names m" n "base m"]
    by (auto simp: format_units_def)
qed

lemma format_shows_value_witness:
  "\<exists>k. format_time_s 7200 = (7200 / 60 ^ k, (''s'' # [''m'', ''h'']) ! k) \<and> k < 2 \<and>
     format_time_s 7200 = (120, ''m'')"
proof -
  have "format_time_s 7200 = (120, ''m'')" by code_simp
  then show ?thesis using format_shows_value [of time_units_s 7200]
    by (auto simp: format_time_s_def time_units_s_def)
qed

end
