(* ===== verification/Http_Data.thy ===== *)
theory Http_Data
  imports Http_Safety
begin

text \<open>
  The user data of a parser is changed by the callbacks only: a property of the data that every
  callback keeps is kept by \<open>http_parser_execute\<close>, whatever the input.
\<close>

definition callbacks_keep :: "('u \<Rightarrow> bool) \<Rightarrow> 'u http_parser_settings \<Rightarrow> bool" where
  "callbacks_keep R st \<longleftrightarrow>
     (\<forall>f \<in> {on_message_begin st, on_headers_complete st, on_message_complete st}.
        \<forall>g ps. f = Some g \<longrightarrow> R (data ps) \<longrightarrow> R (data (snd (g ps)))) \<and>
     (\<forall>f \<in> {on_url st, on_status st, on_header_field st, on_header_value st, on_body st}.
        \<forall>g ps s. f = Some g \<longrightarrow> R (data ps) \<longrightarrow> R (data (snd (g ps s))))"

definition keeps :: "('u \<Rightarrow> bool) \<Rightarrow> 'u step option \<Rightarrow> bool" where
  "keeps R r \<longleftrightarrow>
     (case r of None \<Rightarrow> True | Some (Continue x) \<Rightarrow> R (data (parser x)) | Some (Return n ps) \<Rightarrow> R (data ps))"

lemma keeps_simps [simp]:
  "keeps R None" "keeps R (Some (Continue x)) = R (data (parser x))" "keeps R (Some (Return n ps)) = R (data ps)"
  "keeps R (advance x) = R (data (parser x))" "keeps R (reexecute x) = R (data (parser x))"
  "keeps R (RETURN n x) = R (data (parser x))" "keeps R (fail_at e q x) = R (data (parser x))"
  "keeps R (fail e x) = R (data (parser x))" "keeps R (COUNT_HEADER_SIZE v q x) = R (data (parser x))"
  "keeps R (STRICT_CHECK c x k) = (if c then R (data (parser x)) else keeps R k)"
  by (simp_all add: keeps_def advance_def reexecute_def RETURN_def fail_def fail_at_def COUNT_HEADER_SIZE_def
    STRICT_CHECK_def SET_ERRNO_def Let_def upd_def)

lemma data_simps [simp]:
  "data (parser (upd f x)) = data (f (parser x))" "data (parser (UPDATE_STATE s x)) = data (parser x)"
  "data (set_flag fl ps) = data ps" "data (reset_message ps) = data ps" "data (SET_ERRNO e ps) = data ps"
  by (simp_all add: upd_def UPDATE_STATE_def set_flag_def reset_message_def SET_ERRNO_def)

lemma keeps_and_then:
  "keeps R r \<Longrightarrow> (\<And>x. R (data (parser x)) \<Longrightarrow> keeps R (k x)) \<Longrightarrow> keeps R (and_then r k)"
  by (cases r) (auto simp: and_then_def split: step.split)

lemma keeps_notify:
  assumes "\<And>g ps. cb = Some g \<Longrightarrow> R (data ps) \<Longrightarrow> R (data (snd (g ps)))" "R (data (parser x))"
  shows "keeps R (CALLBACK_NOTIFY hpe cb er x)"
proof (cases cb)
  case (Some g)
  have "R (data (snd (g ((parser x)\<lparr>state := p_state x\<rparr>))))" using assms Some by simp
  then show ?thesis using Some by (simp add: CALLBACK_NOTIFY_def case_prod_beta Let_def)
qed (use assms in \<open>simp add: CALLBACK_NOTIFY_def\<close>)

lemma keeps_data:
  assumes "\<And>g ps s. cb = Some g \<Longrightarrow> R (data ps) \<Longrightarrow> R (data (snd (g ps s)))" "R (data (parser x))"
    and "\<And>y. data (parser (clear y)) = data (parser y)"
  shows "keeps R (CALLBACK_DATA hpe cb m clear d stop er x)"
proof (cases "m = None \<or> cb = None")
  case False
  then obtain g n where g: "cb = Some g" "m = Some n" by auto
  have "R (data (snd (g ((parser x)\<lparr>state := p_state x\<rparr>) (slice d n stop))))" using assms(1,2) g by simp
  then show ?thesis using g assms(3) by (simp add: CALLBACK_DATA_def case_prod_beta Let_def)
qed (use assms(2,3) in \<open>auto simp: CALLBACK_DATA_def split: option.split\<close>)

lemma keeps_cb [intro]:
  assumes "callbacks_keep R st" "R (data (parser x))"
  shows "keeps R (cb_message_begin st er x)" "keeps R (cb_message_complete st er x)"
    "keeps R (cb_header_field st d stop er x)" "keeps R (cb_header_value st d stop er x)"
    "keeps R (cb_url st d stop er x)" "keeps R (cb_body st d stop er x)" "keeps R (cb_status st d stop er x)"
  using assms unfolding callbacks_keep_def cb_message_begin_def cb_message_complete_def cb_header_field_def
    cb_header_value_def cb_url_def cb_body_def cb_status_def
  by (auto intro!: keeps_notify keeps_data)

named_theorems step_keeps \<open>the steps keep what the callbacks keep\<close>

lemma step_start_keeps [step_keeps]:
  assumes "callbacks_keep R st" "R (data (parser x))"
  shows "keeps R (step_start st ch x)"
  using assms by (cases "p_state x") (auto simp: step_start_def Let_def intro!: keeps_and_then keeps_cb)

lemma step_res_version_keeps [step_keeps]:
  assumes "R (data (parser x))"
  shows "keeps R (step_res_version ch x)"
  using assms by (cases "p_state x")
    (auto simp: step_res_version_def major_digit_def minor_digit_def first_minor_digit_def Let_def)

lemma step_res_status_keeps [step_keeps]:
  assumes "callbacks_keep R st" "R (data (parser x))"
  shows "keeps R (step_res_status st d ch x)"
  using assms by (cases "p_state x") (auto simp: step_res_status_def Let_def intro!: keeps_and_then keeps_cb)

lemma step_start_req_keeps [step_keeps]:
  assumes "callbacks_keep R st" "R (data (parser x))"
  shows "keeps R (step_start_req st ch x)"
  using assms by (auto simp: step_start_req_def Let_def split: option.split intro!: keeps_and_then keeps_cb)

lemma step_req_method_keeps [step_keeps]:
  assumes "R (data (parser x))"
  shows "keeps R (step_req_method ch x)"
  using assms by (auto simp: step_req_method_def Let_def split: option.split)

lemma step_req_url_keeps [step_keeps]:
  assumes "callbacks_keep R st" "R (data (parser x))"
  shows "keeps R (step_req_url st d ch x)"
  using assms by (cases "p_state x") (auto simp: step_req_url_def url_byte_def Let_def intro!: keeps_and_then keeps_cb)

lemma step_req_version_keeps [step_keeps]:
  assumes "R (data (parser x))"
  shows "keeps R (step_req_version ch x)"
  using assms by (cases "p_state x")
    (auto simp: step_req_version_def major_digit_def minor_digit_def first_minor_digit_def Let_def)

lemma match_next_data: "data (snd (match_next s c a b f ps)) = data ps"
  by (simp add: match_next_def Let_def)

lemma match_field_data: "data (match_field s c f ps) = data ps"
  using match_next_data [of s c "header_state ps" h_general f ps] by (auto simp: match_field_def split: prod.split)

lemma header_field_char_data: "header_field_char ps c ch = Some ps' \<Longrightarrow> data ps' = data ps"
  by (cases "header_state ps") (auto simp: header_field_char_def Let_def match_field_data split: if_splits)

lemma header_field_loop_data: "header_field_loop s ps = Some (rest, ps') \<Longrightarrow> data ps' = data ps"
proof (induction s ps rule: header_field_loop.induct)
  case (2 ch cs ps)
  then show ?case using header_field_char_data by (fastforce simp: Let_def split: if_splits option.splits)
qed simp

lemma step_header_field_keeps [step_keeps]:
  assumes "callbacks_keep R st" "R (data (parser x))"
  shows "keeps R (step_header_field st d ch x)"
proof (cases "p_state x = s_header_field")
  case True
  show ?thesis
  proof (cases "header_field_loop (drop (p x) d) (parser x)")
    case (Some r)
    obtain rest ps where r: "r = (rest, ps)" by (cases r)
    then have "data ps = data (parser x)" using Some header_field_loop_data by blast
    then show ?thesis using assms True Some r
      by (auto simp: step_header_field_def Let_def split: list.split intro!: keeps_and_then keeps_cb)
  qed (simp add: step_header_field_def True)
next
  case False
  then show ?thesis using assms by (cases "p_state x") (auto simp: step_header_field_def Let_def)
qed

lemma header_value_start_keeps [step_keeps]:
  assumes "R (data (parser x))"
  shows "keeps R (header_value_start ch x)"
  using assms by (auto simp: header_value_start_def Let_def split: header_states.split)

lemma header_value_char_data: "header_value_char hs ch ps = Some (Inr (hs', ps')) \<Longrightarrow> data ps' = data ps"
  by (cases hs) (auto simp: header_value_char_def Let_def match_next_data split: if_splits
    dest: arg_cong [where f = "\<lambda>r. data (snd r)"])

lemma header_value_end_keeps:
  "R (data (parser x)) \<Longrightarrow> keeps R (header_value_end hs start q n x)"
  by (simp add: header_value_end_def)

lemma header_value_byte_keeps:
  assumes "callbacks_keep R st" "R (data (parser x))"
  shows "(\<forall>r. header_value_byte st d start hs x = Leave r \<longrightarrow> keeps R r) \<and>
    (\<forall>hs' y. header_value_byte st d start hs x = Stay hs' y \<longrightarrow> R (data (parser y)))"
proof -
  have "R (data ps)" if "header_value_char hs ch (parser x) = Some (Inr (hs', ps))" for ch hs' ps
    using header_value_char_data [OF that] assms(2) by simp
  then show ?thesis using assms
    by (auto simp: header_value_byte_def Let_def split: if_splits option.splits sum.splits
      intro!: keeps_and_then keeps_cb header_value_end_keeps)
qed

lemma header_value_loop_keeps:
  assumes "callbacks_keep R st"
  shows "R (data (parser x)) \<Longrightarrow> keeps R (header_value_loop st d start hs x)"
proof (induction "length d - p x" arbitrary: x hs rule: less_induct)
  case less
  note b = header_value_byte_keeps [OF assms less.prems, of d start hs]
  show ?case
  proof (cases "p x < length d")
    case True
    show ?thesis
    proof (cases "header_value_byte st d start hs x")
      case (Leave r)
      then show ?thesis using True b by (simp add: header_value_loop.simps [of st d start hs x])
    next
      case (Stay hs' y)
      have "length d - p y < length d - p x"
        using header_value_byte_progress [OF Stay True] True by simp
      then have "keeps R (header_value_loop st d start hs' y)" using less.hyps b Stay by blast
      then show ?thesis using Stay True by (simp add: header_value_loop.simps [of st d start hs x])
    qed
  next
    case False
    then show ?thesis using less.prems by (simp add: header_value_loop.simps [of st d start hs x] header_value_end_keeps)
  qed
qed

lemma finish_header_data [simp]: "data (finish_header ps) = data ps"
  by (simp add: finish_header_def split: header_states.split)

lemma step_header_value_keeps [step_keeps]:
  assumes "callbacks_keep R st" "R (data (parser x))"
  shows "keeps R (step_header_value st d ch x)"
  using assms by (cases "p_state x")
    (auto simp: step_header_value_def Let_def intro!: keeps_and_then keeps_cb header_value_start_keeps header_value_loop_keeps)

lemma headers_complete_keeps:
  assumes "callbacks_keep R st" "R (data (parser x))"
  shows "keeps R (headers_complete st x)"
proof (cases "on_headers_complete st")
  case (Some f)
  then have "R (data (snd (f (parser x))))" using assms by (simp add: callbacks_keep_def)
  then show ?thesis using Some by (simp add: headers_complete_def case_prod_beta Let_def)
qed (use assms in \<open>simp add: headers_complete_def\<close>)

lemma step_headers_almost_done_keeps [step_keeps]:
  assumes "callbacks_keep R st" "R (data (parser x))"
  shows "keeps R (step_headers_almost_done st ch x)"
  using assms
  by (auto simp: step_headers_almost_done_def Let_def intro!: keeps_and_then keeps_cb headers_complete_keeps)

lemma step_headers_done_keeps [step_keeps]:
  assumes "callbacks_keep R st" "R (data (parser x))"
  shows "keeps R (step_headers_done st ch x)"
  using assms by (auto simp: step_headers_done_def Let_def intro!: keeps_and_then keeps_cb)

lemma step_body_keeps [step_keeps]:
  assumes "callbacks_keep R st" "R (data (parser x))"
  shows "keeps R (step_body st d ch x)"
  using assms by (cases "p_state x") (auto simp: step_body_def Let_def intro!: keeps_and_then keeps_cb)

lemma step_chunk_size_keeps [step_keeps]:
  assumes "R (data (parser x))"
  shows "keeps R (step_chunk_size ch x)"
  using assms by (cases "p_state x") (auto simp: step_chunk_size_def Let_def)

lemma step_chunk_data_keeps [step_keeps]:
  assumes "callbacks_keep R st" "R (data (parser x))"
  shows "keeps R (step_chunk_data st d ch x)"
  using assms by (cases "p_state x") (auto simp: step_chunk_data_def Let_def intro!: keeps_and_then keeps_cb)

lemma exec_byte_keeps:
  assumes "callbacks_keep R st" "R (data (parser x))"
  shows "keeps R (exec_byte st d x)"
proof -
  have s: "keeps R (exec_state st d ch y)" if "R (data (parser y))" for ch y
    using assms(1) that by (cases "p_state y") (simp_all add: exec_state_def step_keeps)
  then show ?thesis using assms(2) by (auto simp: exec_byte_def intro!: keeps_and_then)
qed

lemma exec_loop_result_keeps:
  "exec_loop st d x = Some r \<Longrightarrow> callbacks_keep R st \<longrightarrow> R (data (parser x)) \<longrightarrow> keeps R (Some r)"
proof (rule exec_loop.raw_induct [where P = "\<lambda>st d x r. callbacks_keep R st \<longrightarrow> R (data (parser x)) \<longrightarrow> keeps R (Some r)"
      and xa = "((st, d), x)" and y = r, simplified])
  fix loop st d and x :: "'a exec" and r
  assume IH: "\<And>st d x r. loop st d x = Some r \<Longrightarrow> callbacks_keep R st \<longrightarrow> R (data (parser x)) \<longrightarrow> keeps R (Some r)"
    and b: "(if p x = length d then Some (Continue x)
      else case exec_byte st d x of None \<Rightarrow> None | Some (Continue x') \<Rightarrow> loop st d x'
        | Some (Return n ps) \<Rightarrow> Some (Return n ps)) = Some r"
  show "callbacks_keep R st \<longrightarrow> R (data (parser x)) \<longrightarrow> keeps R (Some r)"
  proof (intro impI)
    assume a: "callbacks_keep R st" "R (data (parser x))"
    have k: "keeps R (exec_byte st d x)" by (rule exec_byte_keeps [OF a])
    show "keeps R (Some r)"
      using IH b a k by (cases "exec_byte st d x") (auto split: if_splits step.splits)
  qed
qed

lemma exec_loop_keeps:
  assumes "callbacks_keep R st" "R (data (parser x))"
  shows "keeps R (exec_loop st d x)"
  using assms exec_loop_result_keeps [of st d x] by (cases "exec_loop st d x") auto

lemma exec_end_keeps:
  assumes "callbacks_keep R st" "R (data (parser x))"
  shows "keeps R (exec_end st d x)"
  using assms by (auto simp: exec_end_def Let_def intro!: keeps_and_then keeps_cb)

lemma exec_eof_keeps:
  assumes "callbacks_keep R st" "R (data ps)" "exec_eof st ps = Some (n, ps')"
  shows "R (data ps')"
proof -
  have "keeps R (cb_message_complete st 0 (exec_start ps))"
    using assms(1,2) by (intro keeps_cb) (simp_all add: exec_start_def)
  then show ?thesis using assms(2,3)
    by (cases "state ps") (auto simp: exec_eof_def step_result_def split: option.splits step.splits)
qed

lemma execute_keeps:
  assumes "callbacks_keep R st" "R (data ps)" "http_parser_execute st ps d = Some (n, ps')"
  shows "R (data ps')"
proof (cases "http_errno ps = HPE_OK \<and> d \<noteq> []")
  case True
  have "keeps R (and_then (exec_loop st d (exec_start ps)) (exec_end st d))"
    using assms(1,2) by (intro keeps_and_then exec_end_keeps exec_loop_keeps) (auto simp: exec_start_def)
  then show ?thesis using assms(3) True
    by (auto simp: http_parser_execute_def step_result_def split: option.splits step.splits)
next
  case False
  then show ?thesis using assms exec_eof_keeps [OF assms(1,2)]
    by (auto simp: http_parser_execute_def split: if_splits)
qed


end
