(* ===== verification/Wrk.thy ===== *)
theory Wrk
  imports Script Ae_Loop Units Http_Data
begin

text \<open>
  \<open>wrk2/src/wrk.c\<close>: one thread of the load generator, with its connections and its event loop. The
  handlers act on the world (what they share with the operating system and the script, and the thread) and on the
  event loop; they are the procedures that the loop calls. Threads share only \<open>statistics.requests\<close>, under
  a mutex, so each runs as if alone. The socket operations are those of \<open>net.c\<close> or \<open>ssl.c\<close>.
\<close>

section \<open>Configuration and state\<close>

definition RECVBUF :: nat where "RECVBUF = 8192"
definition SOCKET_TIMEOUT_MS :: u64 where "SOCKET_TIMEOUT_MS = 2000"
definition CALIBRATE_DELAY_MS :: int where "CALIBRATE_DELAY_MS = 10000"
definition TIMEOUT_INTERVAL_MS :: int where "TIMEOUT_INTERVAL_MS = 2000"
definition MAXL :: u64 where "MAXL = 1000000"
definition MAXO :: u64 where "MAXO = 16383"
definition MAXTHREADS :: u64 where "MAXTHREADS = 40"
definition MAX_LATENCY :: int where "MAX_LATENCY = 24 * 60 * 60 * 1000000"

record config =
  cfg_threads :: u64
  cfg_connections :: u64
  cfg_dist :: int
  cfg_duration :: u64
  cfg_timeout :: u64
  cfg_pipeline :: u64
  cfg_rate :: u64
  cfg_delay_ms :: u64
  cfg_latency :: bool
  cfg_dynamic :: bool
  record_all_responses :: bool
  print_all_responses :: bool
  print_realtime_latency :: bool
  cfg_script :: "string option"

record errors =
  err_connect :: u32
  err_read :: u32
  err_write :: u32
  err_status :: u32
  err_timeout :: u32

text \<open>The field \<open>throughput\<close> of a connection is set and never read, \<open>pending\<close> is not used; \<open>buf\<close> is the data of a call.\<close>

record connection =
  c_parser :: "unit http_parser"
  c_text :: response_text
  c_fd :: int
  c_interval :: u64
  c_sent :: u64
  c_estimate :: u64
  c_complete :: u64
  c_thread_start :: u64
  c_thread_next :: u64
  c_start :: u64
  c_request :: string
  c_written :: nat
  actual_latency_start :: "u64 list"

text \<open>The microseconds between two requests of a connection, for the connections and the rate of a thread.\<close>

definition planned_interval :: "u64 \<Rightarrow> u64 \<Rightarrow> u64" where
  "planned_interval connections rate = 1000000 * connections div rate"

text \<open>A connection as \<open>zcalloc\<close> leaves it. No parser state is 0; its parser is not used before it is initialised.\<close>

definition zero_connection :: connection where
  "zero_connection =
     \<lparr>c_parser = \<lparr>parser_type = HTTP_REQUEST, flags = 0, state = s_dead, header_state = h_general, index = 0,
        nread = 0, content_length = 0, http_major = 0, http_minor = 0, status_code = 0, method = HTTP_DELETE,
        http_errno = HPE_OK, upgrade = False, data = ()\<rparr>,
      c_text = no_text, c_fd = 0, c_interval = 0, c_sent = 0, c_estimate = 0, c_complete = 0, c_thread_start = 0,
      c_thread_next = 0, c_start = 0, c_request = [], c_written = 0,
      actual_latency_start = replicate (unat (MAXO + 1)) 0\<rparr>"

record thread =
  t_tid :: u64
  t_connections :: u64
  t_interval :: int
  t_stop_at :: u64
  t_complete :: u64
  t_requests :: u64
  t_monitored :: u64
  t_target :: u64
  t_accum_latency :: u64
  t_bytes :: u64
  t_start :: u64
  t_mean :: u64
  t_throughput :: u64
  latency_histogram :: hdr_histogram
  real_latency_histogram :: hdr_histogram
  t_errors :: errors
  t_cs :: "connection list"

text \<open>\<open>raw_latency\<close> is the row of this thread; \<open>stop_signal\<close> is set by the handler of SIGINT; \<open>printed\<close> are
  the lines written to the file of the first thread.\<close>

record 'o world =
  w_thread :: thread
  w_os :: 'o
  statistics_requests :: stats
  raw_latency :: "nat \<rightharpoonup> u64"
  stop_signal :: bool
  printed :: "int list"

datatype client = Conn nat | Thread

datatype wrk_proc =
    P_socket_connected | P_socket_writeable | P_socket_readable
  | P_delayed_initial_connect | P_calibrate | P_sample_rate | P_check_timeouts | P_delay_request

type_synonym 'a wrk_loop = "(wrk_proc, client, 'a) aeEventLoop"
type_synonym ('o, 'a) wrk_state = "'o world \<times> 'a wrk_loop"

section \<open>Outside the program\<close>

datatype net_status = NET_OK | NET_ERROR | NET_RETRY

text \<open>\<open>struct sock\<close>: the operations on a connection, given by its number and descriptor.\<close>

record 'o sock =
  sk_connect :: "nat \<Rightarrow> int \<Rightarrow> 'o \<Rightarrow> net_status \<times> 'o"
  sk_close :: "nat \<Rightarrow> int \<Rightarrow> 'o \<Rightarrow> 'o"
  sk_read :: "nat \<Rightarrow> int \<Rightarrow> 'o \<Rightarrow> (net_status \<times> string) \<times> 'o"
  sk_write :: "nat \<Rightarrow> int \<Rightarrow> string \<Rightarrow> 'o \<Rightarrow> (net_status \<times> nat) \<times> 'o"
  sk_readable :: "nat \<Rightarrow> int \<Rightarrow> 'o \<Rightarrow> nat \<times> 'o"

text \<open>
  The rest of the system, the script and the random numbers: \<open>gettimeofday\<close> in microseconds, \<open>socket\<close>, \<open>connect\<close>
  (whether it succeeded or is in progress), \<open>close\<close>, the script's \<open>request\<close> and \<open>response\<close>, and \<open>gen_exp\<close>
  and \<open>gen_zipf\<close>, which draw from the C library's \<open>rand\<close>.
\<close>

record ('o, 'a) wrk_setup =
  cfg :: config
  sock :: "'o sock"
  time_us :: "'o \<Rightarrow> u64 \<times> 'o"
  new_socket :: "'o \<Rightarrow> int \<times> 'o"
  start_connect :: "int \<Rightarrow> 'o \<Rightarrow> bool \<times> 'o"
  close_fd :: "int \<Rightarrow> 'o \<Rightarrow> 'o"
  script_request :: "'o \<Rightarrow> string \<times> 'o"
  call_response :: "int \<Rightarrow> (string \<times> string) list \<Rightarrow> string \<Rightarrow> 'o \<Rightarrow> 'o"
  want_response :: bool
  gen_exp :: "u64 \<Rightarrow> 'o \<Rightarrow> u64 \<times> 'o"
  gen_zipf :: "u64 \<Rightarrow> 'o \<Rightarrow> u64 \<times> 'o"
  api_add_event :: "(wrk_proc, client, 'a) api_add"
  api_del_event :: "(wrk_proc, client, 'a) api_del"

section \<open>Access to the state\<close>

definition conn :: "nat \<Rightarrow> ('o, 'a) wrk_state \<Rightarrow> connection" where
  "conn i s = t_cs (w_thread (fst s)) ! i"

definition on_thread :: "(thread \<Rightarrow> thread) \<Rightarrow> ('o, 'a) wrk_state \<Rightarrow> ('o, 'a) wrk_state" where
  "on_thread f s = ((fst s)\<lparr>w_thread := f (w_thread (fst s))\<rparr>, snd s)"

definition on_conn :: "nat \<Rightarrow> (connection \<Rightarrow> connection) \<Rightarrow> ('o, 'a) wrk_state \<Rightarrow> ('o, 'a) wrk_state" where
  "on_conn i f s = on_thread (\<lambda>t. t\<lparr>t_cs := (t_cs t)[i := f (t_cs t ! i)]\<rparr>) s"

definition on_errors :: "(errors \<Rightarrow> errors) \<Rightarrow> ('o, 'a) wrk_state \<Rightarrow> ('o, 'a) wrk_state" where
  "on_errors f s = on_thread (\<lambda>t. t\<lparr>t_errors := f (t_errors t)\<rparr>) s"

definition on_os :: "('o \<Rightarrow> 'r \<times> 'o) \<Rightarrow> ('o, 'a) wrk_state \<Rightarrow> 'r \<times> ('o, 'a) wrk_state" where
  "on_os f s = (let (r, o') = f (w_os (fst s)) in (r, ((fst s)\<lparr>w_os := o'\<rparr>, snd s)))"

definition put_os :: "('o \<Rightarrow> 'o) \<Rightarrow> ('o, 'a) wrk_state \<Rightarrow> ('o, 'a) wrk_state" where
  "put_os f s = ((fst s)\<lparr>w_os := f (w_os (fst s))\<rparr>, snd s)"

definition create_file_event ::
  "('o, 'a) wrk_setup \<Rightarrow> int \<Rightarrow> int \<Rightarrow> wrk_proc \<Rightarrow> nat \<Rightarrow> ('o, 'a) wrk_state \<Rightarrow> (int \<times> ('o, 'a) wrk_state) option" where
  "create_file_event e fd m proc i s =
     map_option (\<lambda>(rc, l). (rc, (fst s, l))) (aeCreateFileEvent (api_add_event e) (snd s) fd m proc (Conn i))"

definition delete_file_event ::
  "('o, 'a) wrk_setup \<Rightarrow> int \<Rightarrow> int \<Rightarrow> ('o, 'a) wrk_state \<Rightarrow> ('o, 'a) wrk_state option" where
  "delete_file_event e fd m s =
     map_option (\<lambda>l. (fst s, l)) (aeDeleteFileEvent (api_del_event e) (snd s) fd m)"

text \<open>The clock of the event loop, by the same \<open>gettimeofday\<close>.\<close>

definition loop_clock :: "('o, 'a) wrk_setup \<Rightarrow> 'o world ae_clock" where
  "loop_clock e w =
     (let (t, o') = time_us e (w_os w)
      in ((uint t div 1000000, uint t mod 1000000 div 1000), w\<lparr>w_os := o'\<rparr>))"

definition create_time_event ::
  "('o, 'a) wrk_setup \<Rightarrow> int \<Rightarrow> wrk_proc \<Rightarrow> client \<Rightarrow> ('o, 'a) wrk_state \<Rightarrow> ('o, 'a) wrk_state" where
  "create_time_event e ms proc d s = snd (aeCreateTimeEvent (loop_clock e) ms proc d None s)"

definition stop_loop :: "('o, 'a) wrk_state \<Rightarrow> ('o, 'a) wrk_state" where
  "stop_loop s = (fst s, aeStop (snd s))"

section \<open>Connecting\<close>

definition connect_socket :: "('o, 'a) wrk_setup \<Rightarrow> nat \<Rightarrow> ('o, 'a) wrk_state \<Rightarrow> (int \<times> ('o, 'a) wrk_state) option" where
  "connect_socket e i s =
     (let (fd, s1) = on_os (new_socket e) s;
          (ok, s2) = on_os (start_connect e fd) s1;
          error = (\<lambda>s. (-1, put_os (close_fd e fd)
             (on_errors (\<lambda>er. er\<lparr>err_connect := err_connect er + 1\<rparr>) s)))
      in if \<not> ok then Some (error s2)
         else (case create_file_event e fd (AE_READABLE OR AE_WRITABLE) P_socket_connected i s2 of
                 None \<Rightarrow> None
               | Some (rc, s3) \<Rightarrow>
                   Some (if rc = AE_OK then (fd, on_conn i (\<lambda>c. c\<lparr>c_fd := fd\<rparr>) s3) else error s3)))"

definition reconnect_socket :: "('o, 'a) wrk_setup \<Rightarrow> nat \<Rightarrow> ('o, 'a) wrk_state \<Rightarrow> (int \<times> ('o, 'a) wrk_state) option" where
  "reconnect_socket e i s =
     (let fd = c_fd (conn i s)
      in case delete_file_event e fd (AE_WRITABLE OR AE_READABLE) s of
           None \<Rightarrow> None
         | Some s1 \<Rightarrow> connect_socket e i (put_os (close_fd e fd) (put_os (sk_close (sock e) i fd) s1)))"

definition delayed_initial_connect :: "('o, 'a) wrk_setup \<Rightarrow> nat \<Rightarrow> ('o, 'a) wrk_state \<Rightarrow> (int \<times> ('o, 'a) wrk_state) option" where
  "delayed_initial_connect e i s =
     (let (now, s1) = on_os (time_us e) s;
          s2 = on_conn i (\<lambda>c. c\<lparr>c_thread_start := now, c_thread_next := now\<rparr>) s1
      in map_option (\<lambda>(_, s3). (AE_NOMORE, s3)) (connect_socket e i s2))"

end
