(* ===== verification/Wrk_Handlers.thy ===== *)
theory Wrk_Handlers
  imports Wrk
begin

text \<open>
  The handlers of \<open>wrk.c\<close>: the pacing of requests, sending, the callbacks of the parser, receiving, and the
  timers. \<open>None\<close> is a failed assertion, an access outside an array or a division by zero.
\<close>

section \<open>Pacing\<close>

text \<open>The distribution \<open>norm\<close> has an empty branch.\<close>

definition gen_next :: "('o, 'a) wrk_setup \<Rightarrow> connection \<Rightarrow> 'o \<Rightarrow> u64 \<times> 'o" where
  "gen_next e c ow =
     (if cfg_dist (cfg e) = 0 then (c_interval c, ow)
      else if cfg_dist (cfg e) = 1 then gen_exp e (c_interval c) ow
      else if cfg_dist (cfg e) = 2 then (0, ow)
      else if cfg_dist (cfg e) = 3 then gen_zipf e (c_interval c) ow
      else (0, ow))"

definition usec_to_next_send :: "('o, 'a) wrk_setup \<Rightarrow> nat \<Rightarrow> ('o, 'a) wrk_state \<Rightarrow> u64 \<times> ('o, 'a) wrk_state" where
  "usec_to_next_send e i s =
     (let (now, s1) = on_os (time_us e) s; c = conn i s1;
          s2 = (if c_estimate c \<le> c_sent c
                then (let (gap, s') = on_os (gen_next e c) s1
                      in on_conn i (\<lambda>c. c\<lparr>c_estimate := c_estimate c + 1, c_thread_next := c_thread_next c + gap\<rparr>) s')
                else s1);
          next = c_thread_next (conn i s2)
      in (if now < next then next - now else 0, s2))"

text \<open>The milliseconds to wait, rounded up; a number that is no \<open>int\<close> is undefined.\<close>

definition msec_to_wait :: "u64 \<Rightarrow> int option" where
  "msec_to_wait usec =
     (let ms = c_round (of_int (uint usec) / 1000 + 1 / 2) in if ms < 2 ^ 31 then Some ms else None)"

definition delay_request :: "('o, 'a) wrk_setup \<Rightarrow> nat \<Rightarrow> ('o, 'a) wrk_state \<Rightarrow> (int \<times> ('o, 'a) wrk_state) option" where
  "delay_request e i s =
     (let (wait, s1) = usec_to_next_send e i s
      in if wait \<noteq> 0 then map_option (\<lambda>ms. (ms, s1)) (msec_to_wait wait)
         else map_option (\<lambda>(_, s2). (AE_NOMORE, s2))
                (create_file_event e (c_fd (conn i s1)) AE_WRITABLE P_socket_writeable i s1))"

section \<open>Sending\<close>

definition socket_connected ::
  "('o, 'a) wrk_setup \<Rightarrow> nat \<Rightarrow> int \<Rightarrow> ('o, 'a) wrk_state \<Rightarrow> ('o, 'a) wrk_state option" where
  "socket_connected e i fd s =
     (let (st, s1) = on_os (sk_connect (sock e) i (c_fd (conn i s))) s
      in case st of
           NET_RETRY \<Rightarrow> Some s1
         | NET_ERROR \<Rightarrow>
             map_option snd (reconnect_socket e i (on_errors (\<lambda>er. er\<lparr>err_connect := err_connect er + 1\<rparr>) s1))
         | NET_OK \<Rightarrow> do {
             let s2 = on_conn i (\<lambda>c. c\<lparr>c_parser := http_parser_init (c_parser c) HTTP_RESPONSE, c_written := 0\<rparr>) s1;
             (_, s3) \<leftarrow> create_file_event e fd AE_READABLE P_socket_readable i s2;
             (_, s4) \<leftarrow> create_file_event e fd AE_WRITABLE P_socket_writeable i s3;
             Some s4
           })"

text \<open>A request that has been started: its time is kept, by its number.\<close>

definition note_start :: "u64 \<Rightarrow> connection \<Rightarrow> connection" where
  "note_start now c = c\<lparr>c_start := now,
     actual_latency_start := (actual_latency_start c)[unat (c_sent c AND MAXO) := now], c_sent := c_sent c + 1\<rparr>"

definition request_started :: "('o, 'a) wrk_setup \<Rightarrow> nat \<Rightarrow> ('o, 'a) wrk_state \<Rightarrow> ('o, 'a) wrk_state" where
  "request_started e i s =
     (let (now, s1) = on_os (time_us e) s
      in on_conn i (note_start now) s1)"

definition request_written ::
  "('o, 'a) wrk_setup \<Rightarrow> nat \<Rightarrow> int \<Rightarrow> nat \<Rightarrow> ('o, 'a) wrk_state \<Rightarrow> ('o, 'a) wrk_state option" where
  "request_written e i fd n s =
     (let s1 = (if c_written (conn i s) = 0 then request_started e i s else s);
          s2 = on_conn i (\<lambda>c. c\<lparr>c_written := c_written c + n\<rparr>) s1; c = conn i s2
      in if c_written c = length (c_request c)
         then do {
           s3 \<leftarrow> delete_file_event e fd AE_WRITABLE (on_conn i (\<lambda>c. c\<lparr>c_written := 0\<rparr>) s2);
           (_, s4) \<leftarrow> create_file_event e (c_fd (conn i s3)) AE_WRITABLE P_socket_writeable i s3;
           Some s4
         }
         else Some s2)"

definition send_request ::
  "('o, 'a) wrk_setup \<Rightarrow> nat \<Rightarrow> int \<Rightarrow> ('o, 'a) wrk_state \<Rightarrow> ('o, 'a) wrk_state option" where
  "send_request e i fd s =
     (let s1 = (if c_written (conn i s) = 0 \<and> cfg_dynamic (cfg e)
                then (let (r, s') = on_os (script_request e) s in on_conn i (\<lambda>c. c\<lparr>c_request := r\<rparr>) s')
                else s);
          c = conn i s1;
          ((st, n), s2) = on_os (sk_write (sock e) i (c_fd c) (drop (c_written c) (c_request c))) s1
      in case st of
           NET_RETRY \<Rightarrow> Some s2
         | NET_ERROR \<Rightarrow>
             map_option snd (reconnect_socket e i (on_errors (\<lambda>er. er\<lparr>err_write := err_write er + 1\<rparr>) s2))
         | NET_OK \<Rightarrow> request_written e i fd n s2)"

definition socket_writeable ::
  "('o, 'a) wrk_setup \<Rightarrow> nat \<Rightarrow> int \<Rightarrow> ('o, 'a) wrk_state \<Rightarrow> ('o, 'a) wrk_state option" where
  "socket_writeable e i fd s =
     (if c_written (conn i s) = 0
      then (let (wait, s1) = usec_to_next_send e i s
            in if wait \<noteq> 0
               then do {
                 ms \<leftarrow> msec_to_wait wait;
                 s2 \<leftarrow> delete_file_event e fd AE_WRITABLE s1;
                 Some (create_time_event e ms P_delay_request (Conn i) s2)
               }
               else send_request e i fd s1)
      else send_request e i fd s)"

section \<open>The end of a response\<close>

text \<open>The response is handed to the script if it wants responses.\<close>

definition hand_over :: "('o, 'a) wrk_setup \<Rightarrow> nat \<Rightarrow> int \<Rightarrow> ('o, 'a) wrk_state \<Rightarrow> ('o, 'a) wrk_state option" where
  "hand_over e i code s = do {
     (given, text) \<leftarrow> response_text_complete (c_text (conn i s));
     let s1 = on_conn i (\<lambda>c. c\<lparr>c_text := text\<rparr>) s;
     Some (case given of None \<Rightarrow> s1 | Some (hs, b) \<Rightarrow> put_os (call_response e code hs b) s1)
   }"

text \<open>A latency goes to both histograms; after \<open>target\<close> of them the second one is printed and reset.\<close>

definition record_latency :: "('o, 'a) wrk_setup \<Rightarrow> u64 \<Rightarrow> ('o, 'a) wrk_state \<Rightarrow> ('o, 'a) wrk_state option" where
  "record_latency e timing s = do {
     let t = w_thread (fst s);
     (_, lh) \<leftarrow> hdr_record_value (latency_histogram t) (sint timing);
     (_, rh) \<leftarrow> hdr_record_value (real_latency_histogram t) (sint timing);
     let t1 = t\<lparr>latency_histogram := lh, real_latency_histogram := rh,
       t_monitored := t_monitored t + 1, t_accum_latency := t_accum_latency t + timing\<rparr>;
     let w = (fst s)\<lparr>w_thread := t1\<rparr>;
     w1 \<leftarrow> (if t_monitored t1 = t_target t1
       then do {
         lines \<leftarrow> (if print_realtime_latency (cfg e) \<and> t_tid t1 = 0
                   then map_option (\<lambda>v. printed w @ [v]) (hdr_value_at_percentile rh 99) else Some (printed w));
         Some (w\<lparr>printed := lines, w_thread := t1\<lparr>t_monitored := 0, t_accum_latency := 0,
                  real_latency_histogram := hdr_reset rh\<rparr>\<rparr>)
       }
       else Some w);
     if print_all_responses (cfg e) \<and> t_complete t1 < MAXL
     then (if MAXTHREADS \<le> t_tid t1 then None
           else Some (w1\<lparr>raw_latency := (raw_latency w1)(unat (t_complete t1) \<mapsto> timing)\<rparr>, snd s))
     else Some (w1, snd s)
   }"

text \<open>The time kept for the response that is complete, by its number.\<close>

definition response_start :: "connection \<Rightarrow> u64" where
  "response_start c = actual_latency_start c ! unat (c_complete c AND MAXO)"

definition completed :: "connection \<Rightarrow> connection" where
  "completed c = c\<lparr>c_complete := c_complete c + 1\<rparr>"

text \<open>The result also says whether the parser is initialised for the next response.\<close>

definition response_complete ::
  "('o, 'a) wrk_setup \<Rightarrow> nat \<Rightarrow> int \<Rightarrow> bool \<Rightarrow> ('o, 'a) wrk_state \<Rightarrow> (bool \<times> ('o, 'a) wrk_state) option" where
  "response_complete e i code keep_alive s0 = do {
     let (now, s1) = on_os (time_us e) s0;
     let s2 = on_thread (\<lambda>t. t\<lparr>t_complete := t_complete t + 1, t_requests := t_requests t + 1\<rparr>) s1;
     let s3 = (if 399 < code then on_errors (\<lambda>er. er\<lparr>err_status := err_status er + 1\<rparr>) s2 else s2);
     s4 \<leftarrow> hand_over e i code s3;
     if t_stop_at (w_thread (fst s4)) \<le> now then Some (False, stop_loop s4)
     else do {
       s5 \<leftarrow> (if record_all_responses (cfg e)
         then (let start = response_start (conn i s4) in if start < now then record_latency e (now - start) s4 else None)
         else Some s4);
       let s6 = on_conn i completed s5;
       if \<not> keep_alive then map_option (\<lambda>(_, s7). (False, s7)) (reconnect_socket e i s6)
       else Some (True, s6)
     }
   }"

section \<open>Receiving\<close>

text \<open>The user data of the parser of a connection: its number, and the state while no callback has failed.\<close>

type_synonym ('o, 'a) conn_data = "nat \<times> ('o, 'a) wrk_state option"

definition text_callback ::
  "(response_text \<Rightarrow> string \<Rightarrow> response_text option) \<Rightarrow> ('o, 'a) conn_data http_data_cb" where
  "text_callback f ps str =
     (0, ps\<lparr>data := (fst (data ps), Option.bind (snd (data ps)) (\<lambda>s.
        map_option (\<lambda>text. on_conn (fst (data ps)) (\<lambda>c. c\<lparr>c_text := text\<rparr>) s) (f (c_text (conn (fst (data ps)) s)) str)))\<rparr>)"

definition complete_callback :: "('o, 'a) wrk_setup \<Rightarrow> ('o, 'a) conn_data http_cb" where
  "complete_callback e ps =
     (let i = fst (data ps)
      in case Option.bind (snd (data ps)) (response_complete e i (uint (status_code ps)) (http_should_keep_alive ps)) of
           None \<Rightarrow> (0, ps\<lparr>data := (i, None)\<rparr>)
         | Some (again, s) \<Rightarrow>
             (let ps' = ps\<lparr>data := (i, Some s)\<rparr> in (0, if again then http_parser_init ps' HTTP_RESPONSE else ps')))"

definition parser_settings :: "('o, 'a) wrk_setup \<Rightarrow> ('o, 'a) conn_data http_parser_settings" where
  "parser_settings e =
     (let if_wanted = (\<lambda>f. if want_response e then Some (text_callback f) else None)
      in \<lparr>on_message_begin = None, on_url = None, on_status = None,
          on_header_field = if_wanted header_field, on_header_value = if_wanted header_value,
          on_headers_complete = None, on_body = if_wanted (\<lambda>r s. Some (response_body r s)),
          on_message_complete = Some (complete_callback e)\<rparr>)"

text \<open>The parser of a connection is kept without its user data.\<close>

definition with_data :: "'v \<Rightarrow> 'u http_parser \<Rightarrow> 'v http_parser" where
  "with_data v ps =
     \<lparr>parser_type = parser_type ps, flags = flags ps, state = state ps, header_state = header_state ps, index = index ps,
      nread = nread ps, content_length = content_length ps, http_major = http_major ps, http_minor = http_minor ps,
      status_code = status_code ps, method = method ps, http_errno = http_errno ps, upgrade = upgrade ps, data = v\<rparr>"

definition parse_response ::
  "('o, 'a) wrk_setup \<Rightarrow> nat \<Rightarrow> string \<Rightarrow> ('o, 'a) wrk_state \<Rightarrow> (int \<times> ('o, 'a) wrk_state) option" where
  "parse_response e i buf s =
     (case http_parser_execute (parser_settings e) (with_data (i, Some s) (c_parser (conn i s))) buf of
        None \<Rightarrow> None
      | Some (n, ps) \<Rightarrow>
          map_option (\<lambda>s'. (n, on_conn i (\<lambda>c. c\<lparr>c_parser := with_data () ps\<rparr>) s')) (snd (data ps)))"

definition read_error :: "('o, 'a) wrk_setup \<Rightarrow> nat \<Rightarrow> ('o, 'a) wrk_state \<Rightarrow> ('o, 'a) wrk_state option" where
  "read_error e i s =
     map_option snd (reconnect_socket e i (on_errors (\<lambda>er. er\<lparr>err_read := err_read er + 1\<rparr>) s))"

partial_function (option) socket_readable ::
  "('o, 'a) wrk_setup \<Rightarrow> nat \<Rightarrow> ('o, 'a) wrk_state \<Rightarrow> ('o, 'a) wrk_state option" where
  "socket_readable e i s =
     (let ((st, buf), s1) = on_os (sk_read (sock e) i (c_fd (conn i s))) s
      in if st = NET_RETRY then Some s1
         else if st = NET_ERROR then read_error e i s1
         else (case parse_response e i buf s1 of
                 None \<Rightarrow> None
               | Some (parsed, s2) \<Rightarrow>
                   if parsed \<noteq> int (length buf) then read_error e i s2
                   else (let s3 = on_thread (\<lambda>t. t\<lparr>t_bytes := t_bytes t + of_nat (length buf)\<rparr>) s2
                         in if length buf = RECVBUF
                            then (let (n, s4) = on_os (sk_readable (sock e) i (c_fd (conn i s3))) s3
                                  in if 0 < n then socket_readable e i s4 else Some s4)
                            else Some s3)))"

declare socket_readable.simps [code]

section \<open>Timers\<close>

text \<open>The mean is the truncated one; the interval is twice the 90th percentile in milliseconds, at least 10.\<close>

definition calibrate :: "('o, 'a) wrk_setup \<Rightarrow> ('o, 'a) wrk_state \<Rightarrow> (int \<times> ('o, 'a) wrk_state) option" where
  "calibrate e s = do {
     let h = latency_histogram (w_thread (fst s));
     mean \<leftarrow> hdr_mean h;
     latency \<leftarrow> hdr_value_at_percentile h 90;
     let interval = max (of_int latency / 1000 * 2) (10 :: rat);
     if mean = 0 then Some (CALIBRATE_DELAY_MS, s)
     else (let (now, s1) = on_os (time_us e) s;
               s2 = on_thread (\<lambda>t. t\<lparr>t_mean := word_of_int \<lfloor>mean\<rfloor>, latency_histogram := hdr_reset h, t_start := now,
                      t_interval := as_int32 \<lfloor>interval\<rfloor>, t_requests := 0\<rparr>) s1
           in Some (AE_NOMORE, create_time_event e (t_interval (w_thread (fst s2))) P_sample_rate Thread s2))
   }"

definition check_timeouts :: "('o, 'a) wrk_setup \<Rightarrow> ('o, 'a) wrk_state \<Rightarrow> int \<times> ('o, 'a) wrk_state" where
  "check_timeouts e s =
     (let (now, s1) = on_os (time_us e) s;
          maxAge = now - cfg_timeout (cfg e) * 1000;
          t = w_thread (fst s1);
          late = length (filter (\<lambda>c. c_start c < maxAge) (take (unat (t_connections t)) (t_cs t)));
          s2 = on_errors (\<lambda>er. er\<lparr>err_timeout := err_timeout er + of_nat late\<rparr>) s1
      in (TIMEOUT_INTERVAL_MS,
          if stop_signal (fst s2) \<or> t_stop_at t \<le> now then stop_loop s2 else s2))"

text \<open>The requests per second since the last sample, as an exact fraction cut to an integer.\<close>

definition sample_rate :: "('o, 'a) wrk_setup \<Rightarrow> ('o, 'a) wrk_state \<Rightarrow> (int \<times> ('o, 'a) wrk_state) option" where
  "sample_rate e s = do {
     let (now, s1) = on_os (time_us e) s;
     let t = w_thread (fst s1);
     let elapsed_ms = (now - t_start t) div 1000;
     if elapsed_ms = 0 then None
     else do {
       let requests = \<lfloor>of_int (uint (t_requests t)) / of_int (uint elapsed_ms) * (1000 :: rat)\<rfloor>;
       st \<leftarrow> stats_record (statistics_requests (fst s1)) (word_of_int requests);
       let (now2, s2) = on_os (time_us e) ((fst s1)\<lparr>statistics_requests := st\<rparr>, snd s1);
       Some (t_interval t, on_thread (\<lambda>t. t\<lparr>t_requests := 0, t_start := now2\<rparr>) s2)
     }
   }"

section \<open>The procedures of the event loop\<close>

definition valid_conn :: "('o, 'a) wrk_state \<Rightarrow> nat \<Rightarrow> bool" where
  "valid_conn s i \<longleftrightarrow> i < length (t_cs (w_thread (fst s)))"

fun file_proc :: "('o, 'a) wrk_setup \<Rightarrow> wrk_proc \<Rightarrow> int \<Rightarrow> client option \<Rightarrow> ('o, 'a) wrk_state \<Rightarrow> ('o, 'a) wrk_state option" where
  "file_proc e P_socket_connected fd (Some (Conn i)) s = (if valid_conn s i then socket_connected e i fd s else None)"
| "file_proc e P_socket_writeable fd (Some (Conn i)) s = (if valid_conn s i then socket_writeable e i fd s else None)"
| "file_proc e P_socket_readable fd (Some (Conn i)) s = (if valid_conn s i then socket_readable e i s else None)"
| "file_proc e _ fd _ s = None"

fun time_proc :: "('o, 'a) wrk_setup \<Rightarrow> wrk_proc \<Rightarrow> client \<Rightarrow> ('o, 'a) wrk_state \<Rightarrow> (int \<times> ('o, 'a) wrk_state) option" where
  "time_proc e P_delayed_initial_connect (Conn i) s = (if valid_conn s i then delayed_initial_connect e i s else None)"
| "time_proc e P_delay_request (Conn i) s = (if valid_conn s i then delay_request e i s else None)"
| "time_proc e P_calibrate Thread s = calibrate e s"
| "time_proc e P_sample_rate Thread s = sample_rate e s"
| "time_proc e P_check_timeouts Thread s = Some (check_timeouts e s)"
| "time_proc e _ _ s = None"

text \<open>The environment of the loop of a thread; \<open>wait\<close> is the polling module with the kernel behind it.\<close>

definition thread_env ::
  "('o, 'a) wrk_setup \<Rightarrow> ((int \<times> int) option \<Rightarrow> ('o, 'a) wrk_state \<Rightarrow> (nat \<times> ('o, 'a) wrk_state) option)
    \<Rightarrow> ('o world, wrk_proc, client, 'a) ae_env" where
  "thread_env e wait =
     \<lparr>clock = loop_clock e,
      unix_time = (\<lambda>w. let ((sec, ms), w') = loop_clock e w in (sec, w')),
      run_file = (\<lambda>p fd d m s. file_proc e p fd d s),
      run_time = (\<lambda>p i d s. time_proc e p d s),
      run_other = (\<lambda>p s. None),
      poll = wait\<rparr>"

end
