(* ===== verification/Wrk_Safety.thy ===== *)
theory Wrk_Safety
  imports Wrk_Handlers
begin

text \<open>
  What every handler of a thread keeps: the file events of its loop are those that the kernel watches, the timers have
  distinct identifiers, and every connection is paced.
\<close>

section \<open>The invariant\<close>

text \<open>
  A connection with the fixed distribution: its next request is due a whole number of intervals after its
  start, one interval after the last one it has planned; and the last one it has sent was not early.
\<close>

definition paced :: "connection \<Rightarrow> bool" where
  "paced c \<longleftrightarrow> c_thread_next c = c_thread_start c + c_estimate c * c_interval c \<and>
     (c_estimate c = c_sent c \<or> c_estimate c = c_sent c + 1) \<and>
     (c_sent c = 0 \<or> c_thread_start c + c_sent c * c_interval c \<le> c_start c)"

definition interval_of :: "config \<Rightarrow> u64" where
  "interval_of c = planned_interval (cfg_connections c div cfg_threads c) (cfg_rate c div cfg_threads c)"

definition conn_ok :: "('o, 'a) wrk_setup \<Rightarrow> nat \<Rightarrow> connection \<Rightarrow> bool" where
  "conn_ok e k c \<longleftrightarrow> 0 \<le> c_fd c \<and> parser_ok (c_parser c) \<and>
     (cfg_dist (cfg e) = 0 \<longrightarrow> k < 2 ^ 64 - 1 \<longrightarrow> interval_of (cfg e) = c_interval c) \<and>
     (cfg_dist (cfg e) = 0 \<longrightarrow> k < 2 ^ 64 - 1 \<longrightarrow> paced c \<and> unat (c_sent c) \<le> k)"

definition loop_ok :: "('p, 'd, epoll_state) aeEventLoop \<Rightarrow> bool" where
  "loop_ok l \<longleftrightarrow> file_ok epoll_registered epoll_ok l \<and> timers_ok l"

definition conns_ok :: "('o, 'a) wrk_setup \<Rightarrow> nat \<Rightarrow> 'o world \<Rightarrow> bool" where
  "conns_ok e k w \<longleftrightarrow> (\<forall>c \<in> set (t_cs (w_thread w)). conn_ok e k c)"

definition thread_ok :: "('o, epoll_state) wrk_setup \<Rightarrow> nat \<Rightarrow> ('o, epoll_state) wrk_state \<Rightarrow> bool" where
  "thread_ok e k s \<longleftrightarrow> conns_ok e k (fst s) \<and> loop_ok (snd s)"

text \<open>What is used of the system: the polling module is epoll, and a descriptor that can be connected is not negative; the
  clock does not go back from one reading to the next.\<close>

definition system_ok :: "('o, epoll_state) wrk_setup \<Rightarrow> bool" where
  "system_ok e \<longleftrightarrow> api_add_event e = epoll_ApiAddEvent \<and> api_del_event e = epoll_ApiDelEvent \<and>
     (\<forall>fd ow. fst (start_connect e fd ow) \<longrightarrow> 0 \<le> fd) \<and>
     (\<forall>i fd ow. length (snd (fst (sk_read (sock e) i fd ow))) \<le> RECVBUF)"

definition clock_ok :: "('o, 'a) wrk_setup \<Rightarrow> ('o \<Rightarrow> u64) \<Rightarrow> bool" where
  "clock_ok e now \<longleftrightarrow>
     (\<forall>ow. now ow \<le> fst (time_us e ow) \<and> fst (time_us e ow) \<le> now (snd (time_us e ow))) \<and>
     (\<forall>ow. now ow \<le> now (snd (script_request e ow))) \<and>
     (\<forall>i fd s ow. now ow \<le> now (snd (sk_write (sock e) i fd s ow)))"

section \<open>The parser of a connection\<close>

lemma parser_ok_with_data [simp]: "parser_ok (with_data v ps) = parser_ok ps"
  by (simp add: with_data_def parser_ok_def limits_ok_def state_ok_def flag_set_def cong: state.case_cong)

lemma parser_ok_data [simp]: "parser_ok (ps\<lparr>data := v\<rparr>) = parser_ok ps"
  by (simp add: parser_ok_def limits_ok_def state_ok_def flag_set_def cong: state.case_cong)

lemma parser_ok_init [simp]: "parser_ok (http_parser_init ps t)"
  by (simp add: http_parser_init_def parser_ok_def limits_ok_def state_ok_def flag_set_def HTTP_MAX_HEADER_SIZE_def)

text \<open>The callbacks of \<open>wrk.c\<close> are clients of the parser: they change its user data, or initialise it.\<close>

lemma parser_settings_ok: "callbacks_ok (parser_settings e)"
  by (auto simp: callbacks_ok_def parser_settings_def text_callback_def complete_callback_def notify_ok_def data_ok_def
    complete_ok_def keeps_state_def Let_def split: option.splits if_splits)

interpretation wp: http_client "parser_settings e" for e
  by unfold_locales (rule parser_settings_ok)

section \<open>The pieces of a handler\<close>

lemma thread_ok_on_os [simp]: "thread_ok e k (snd (on_os f s)) = thread_ok e k s" "snd (snd (on_os f s)) = snd s"
  "w_thread (fst (snd (on_os f s))) = w_thread (fst s)" "conn i (snd (on_os f s)) = conn i s"
  by (simp_all add: thread_ok_def conns_ok_def on_os_def conn_def split: prod.split)

lemma thread_ok_put_os [simp]: "thread_ok e k (put_os f s) = thread_ok e k s"
  by (simp add: thread_ok_def conns_ok_def put_os_def)

lemma thread_ok_on_thread:
  "t_cs (f (w_thread (fst s))) = t_cs (w_thread (fst s)) \<Longrightarrow> thread_ok e k (on_thread f s) = thread_ok e k s"
  by (simp add: thread_ok_def conns_ok_def on_thread_def)

lemma thread_ok_on_errors [simp]: "thread_ok e k (on_errors f s) = thread_ok e k s"
  by (simp add: on_errors_def thread_ok_on_thread)

lemma timers_ok_frame [simp]:
  "timers_ok (l\<lparr>stop := b\<rparr>) = timers_ok l" "file_ok r a (l\<lparr>stop := b\<rparr>) = file_ok r a l"
  by (simp_all add: timers_ok_def file_ok_def in_set_def event_mask_def)

lemma thread_ok_stop [simp]: "thread_ok e k (stop_loop s) = thread_ok e k s"
  by (simp add: stop_loop_def aeStop_def thread_ok_def loop_ok_def)

lemma thread_ok_on_conn:
  assumes "thread_ok e k s" "conn_ok e k (conn i s) \<Longrightarrow> conn_ok e k (f (conn i s))"
  shows "thread_ok e k (on_conn i f s)"
proof (cases "i < length (t_cs (w_thread (fst s)))")
  case True
  then show ?thesis using assms set_update_subset_insert [of "t_cs (w_thread (fst s))" i "f (conn i s)"]
    by (auto simp: thread_ok_def conns_ok_def on_conn_def on_thread_def conn_def)
next
  case False
  then have "(t_cs (w_thread (fst s)))[i := c] = t_cs (w_thread (fst s))" for c by (intro list_update_beyond) simp
  then show ?thesis using assms(1) by (simp add: thread_ok_def conns_ok_def on_conn_def on_thread_def)
qed

lemma create_file_timers:
  assumes "aeCreateFileEvent add l fd m pr d = Some (rc, l')"
  shows "timeEventHead l' = timeEventHead l" "timeEventNextId l' = timeEventNextId l"
  using assms by (auto simp: aeCreateFileEvent_def set_event_def Let_def split: if_splits bind_splits)

lemma delete_file_timers:
  assumes "aeDeleteFileEvent del l fd m = Some l'"
  shows "timeEventHead l' = timeEventHead l" "timeEventNextId l' = timeEventNextId l"
  using assms by (auto simp: aeDeleteFileEvent_def set_event_def Let_def split: if_splits bind_splits)

lemma create_file_keeps:
  assumes "system_ok e" "thread_ok e k s" "0 \<le> fd" "m \<in> masks" "create_file_event e fd m pr i s = Some (rc, s')"
  shows "thread_ok e k s'" "fst s' = fst s"
proof -
  obtain l where l: "aeCreateFileEvent epoll_ApiAddEvent (snd s) fd m pr (Conn i) = Some (rc, l)" "s' = (fst s, l)"
    using assms(1,5) by (auto simp: create_file_event_def system_ok_def)
  then show "thread_ok e k s'" "fst s' = fst s"
    using assms(2) ep.create_ok [OF _ assms(4,3) l(1)] create_file_timers [OF l(1)]
    by (auto simp: thread_ok_def loop_ok_def timers_ok_def)
qed

lemma delete_file_keeps:
  assumes "system_ok e" "thread_ok e k s" "0 \<le> fd" "m \<in> masks" "delete_file_event e fd m s = Some s'"
  shows "thread_ok e k s'" "fst s' = fst s"
proof -
  obtain l where l: "aeDeleteFileEvent epoll_ApiDelEvent (snd s) fd m = Some l" "s' = (fst s, l)"
    using assms(1,5) by (auto simp: delete_file_event_def system_ok_def)
  then show "thread_ok e k s'" "fst s' = fst s"
    using assms(2) ep.delete_ok [OF _ assms(4,3) l(1)] delete_file_timers [OF l(1)]
    by (auto simp: thread_ok_def loop_ok_def timers_ok_def)
qed

lemma create_time_frame:
  assumes "aeCreateTimeEvent clk ms pr d fin (w, l) = (n, w', l')"
  shows "timers_ok l \<longrightarrow> timers_ok l'" "file_ok r a l' = file_ok r a l"
    "w' = snd (aeAddMillisecondsToNow clk ms w)"
proof -
  obtain t w1 where t: "aeAddMillisecondsToNow clk ms w = (t, w1)" by (cases "aeAddMillisecondsToNow clk ms w")
  have l': "w' = w1" "l' = l\<lparr>timeEventNextId := timeEventNextId l + 1, timeEventHead :=
      \<lparr>te_id = timeEventNextId l, when_sec = fst t, when_ms = snd t, timeProc = pr, finalizerProc = fin, te_clientData = d\<rparr>
        # timeEventHead l\<rparr>"
    using assms t by (auto simp: aeCreateTimeEvent_def Let_def split: prod.splits)
  show "timers_ok l \<longrightarrow> timers_ok l'" by (force simp: l' timers_ok_def)
  show "file_ok r a l' = file_ok r a l" "w' = snd (aeAddMillisecondsToNow clk ms w)"
    by (simp_all add: l' t file_ok_def in_set_def event_mask_def)
qed

lemma create_time_keeps:
  assumes "thread_ok e k s"
  shows "thread_ok e k (create_time_event e ms pr d s)"
proof -
  obtain n w' l' where c: "aeCreateTimeEvent (loop_clock e) ms pr d None s = (n, w', l')"
    by (cases "aeCreateTimeEvent (loop_clock e) ms pr d None s")
  have "w_thread w' = w_thread (fst s)"
    using create_time_frame(3) [of "loop_clock e" ms pr d None "fst s" "snd s" n w' l'] c
    by (simp add: aeAddMillisecondsToNow_def aeGetTime_def loop_clock_def Let_def split: prod.splits)
  then show ?thesis using create_time_frame(1,2) [of "loop_clock e" ms pr d None "fst s" "snd s" n w' l'] c assms
    by (simp add: create_time_event_def thread_ok_def loop_ok_def conns_ok_def)
qed

section \<open>The handlers keep the invariant\<close>

lemma masks_used [simp]: "AE_WRITABLE OR AE_READABLE \<in> masks" "AE_READABLE OR AE_WRITABLE \<in> masks" "AE_WRITABLE \<in> masks"
  "AE_READABLE \<in> masks"
  by (simp_all add: masks_eq ae_defs)

lemma thread_ok_conn: "thread_ok e k s \<Longrightarrow> valid_conn s i \<Longrightarrow> conn_ok e k (conn i s)"
  by (simp add: thread_ok_def conns_ok_def valid_conn_def conn_def)

lemma valid_conn_simps [simp]:
  "valid_conn (snd (on_os f s)) i = valid_conn s i" "valid_conn (put_os g s) i = valid_conn s i"
  "valid_conn (on_conn j h s) i = valid_conn s i" "valid_conn (on_errors k s) i = valid_conn s i"
  "valid_conn (stop_loop s) i = valid_conn s i"
  by (simp_all add: valid_conn_def on_os_def put_os_def on_conn_def on_errors_def on_thread_def stop_loop_def
    split: prod.split)

lemma connect_keeps:
  assumes "system_ok e" "thread_ok e k s" "connect_socket e i s = Some (rc, s')"
  shows "thread_ok e k s'" "valid_conn s' j = valid_conn s j"
proof -
  define fd where "fd = fst (on_os (new_socket e) s)"
  define s1 where "s1 = snd (on_os (new_socket e) s)"
  define ok where "ok = fst (on_os (start_connect e fd) s1)"
  define s2 where "s2 = snd (on_os (start_connect e fd) s1)"
  have s2: "thread_ok e k s2" "valid_conn s2 j = valid_conn s j" using assms(2) by (simp_all add: s2_def s1_def)
  have fd: "ok \<longrightarrow> 0 \<le> fd"
    using assms(1) by (simp add: ok_def on_os_def system_ok_def split: prod.split) (metis fst_conv)
  have c: "connect_socket e i s = (if \<not> ok then Some (-1, put_os (close_fd e fd)
       (on_errors (\<lambda>er. er\<lparr>err_connect := err_connect er + 1\<rparr>) s2))
     else case create_file_event e fd (AE_READABLE OR AE_WRITABLE) P_socket_connected i s2 of None \<Rightarrow> None
       | Some (rc, s3) \<Rightarrow> Some (if rc = AE_OK then (fd, on_conn i (\<lambda>c. c\<lparr>c_fd := fd\<rparr>) s3) else
          (-1, put_os (close_fd e fd) (on_errors (\<lambda>er. er\<lparr>err_connect := err_connect er + 1\<rparr>) s3))))"
    unfolding ok_def s2_def s1_def fd_def by (simp add: connect_socket_def case_prod_beta Let_def)
  have cp: "conn_ok e k c \<Longrightarrow> 0 \<le> fd \<Longrightarrow> conn_ok e k (c\<lparr>c_fd := fd\<rparr>)" for c
    by (simp add: conn_ok_def paced_def)
  have "thread_ok e k s' \<and> valid_conn s' j = valid_conn s j"
  proof (cases ok)
    case False
    then show ?thesis using assms(3) c s2 by auto
  next
    case True
    then obtain rc3 s3 where s3: "create_file_event e fd (AE_READABLE OR AE_WRITABLE) P_socket_connected i s2 = Some (rc3, s3)"
      using assms(3) c by (auto split: option.splits)
    note k = create_file_keeps [OF assms(1) s2(1) _ _ s3]
    have "thread_ok e k s3" "valid_conn s3 j = valid_conn s j"
      using k True fd s2(2) by (auto simp: valid_conn_def)
    moreover have "thread_ok e k (on_conn i (\<lambda>c. c\<lparr>c_fd := fd\<rparr>) s3)"
      by (rule thread_ok_on_conn) (use \<open>thread_ok e k s3\<close> True fd cp in auto)
    ultimately show ?thesis using assms(3) c s3 True by (auto split: if_splits)
  qed
  then show "thread_ok e k s'" "valid_conn s' j = valid_conn s j" by auto
qed

lemma reconnect_keeps:
  assumes "system_ok e" "thread_ok e k s" "valid_conn s i" "reconnect_socket e i s = Some (rc, s')"
  shows "thread_ok e k s'" "valid_conn s' j = valid_conn s j"
proof -
  have fd: "0 \<le> c_fd (conn i s)" using thread_ok_conn [OF assms(2,3)] by (simp add: conn_ok_def)
  obtain s1 where s1: "delete_file_event e (c_fd (conn i s)) (AE_WRITABLE OR AE_READABLE) s = Some s1"
    using assms(4) by (auto simp: reconnect_socket_def Let_def split: option.splits)
  note d = delete_file_keeps [OF assms(1,2) fd _ s1]
  let ?s2 = "put_os (close_fd e (c_fd (conn i s))) (put_os (sk_close (sock e) i (c_fd (conn i s))) s1)"
  have "connect_socket e i ?s2 = Some (rc, s')" using assms(4) s1 by (simp add: reconnect_socket_def Let_def)
  moreover have "valid_conn s1 j = valid_conn s j" using d(2) by (simp add: valid_conn_def)
  ultimately show "thread_ok e k s'" "valid_conn s' j = valid_conn s j"
    using connect_keeps [OF assms(1), of k ?s2 i rc s'] d(1) by simp_all
qed

text \<open>A part of a handler that keeps the invariant, and the connections there are.\<close>

definition kept :: "('o, epoll_state) wrk_setup \<Rightarrow> nat \<Rightarrow> ('o, epoll_state) wrk_state \<Rightarrow> ('o, epoll_state) wrk_state \<Rightarrow> bool" where
  "kept e k s s' \<longleftrightarrow> thread_ok e k s' \<and> (\<forall>j. valid_conn s' j = valid_conn s j)"

lemma kept_trans: "kept e k s s' \<Longrightarrow> kept e k s' s'' \<Longrightarrow> kept e k s s''"
  by (simp add: kept_def)

lemma kept_reconnect:
  assumes "system_ok e" "kept e k s0 s" "valid_conn s i" "map_option snd (reconnect_socket e i s) = Some s'"
  shows "kept e k s0 s'"
  using assms reconnect_keeps [of e k s i] by (auto simp: kept_def)

lemma delayed_initial_connect_paced:
  assumes "system_ok e" "thread_ok e k s" "valid_conn s i" "c_sent (conn i s) = 0" "c_estimate (conn i s) = 0"
    and "delayed_initial_connect e i s = Some (r, s')"
  shows "kept e k s s' \<and> r = AE_NOMORE"
proof -
  define now where "now = fst (on_os (time_us e) s)"
  let ?s2 = "on_conn i (\<lambda>c. c\<lparr>c_thread_start := now, c_thread_next := now\<rparr>) (snd (on_os (time_us e) s))"
  have "thread_ok e k ?s2"
    by (rule thread_ok_on_conn) (use assms in \<open>simp_all add: conn_ok_def paced_def\<close>)
  moreover obtain rc where "connect_socket e i ?s2 = Some (rc, s')" "r = AE_NOMORE"
    using assms(6) by (auto simp: delayed_initial_connect_def now_def case_prod_beta Let_def)
  ultimately show ?thesis using connect_keeps [OF assms(1)] by (auto simp: kept_def)
qed

lemma thread_ok_mono:
  assumes "thread_ok e k s" "k \<le> k'"
  shows "thread_ok e k' s"
  using assms by (auto simp: thread_ok_def conns_ok_def conn_ok_def)

text \<open>A connection whose next request has been planned and is due.\<close>

definition may_send :: "('o, 'a) wrk_setup \<Rightarrow> nat \<Rightarrow> u64 \<Rightarrow> connection \<Rightarrow> bool" where
  "may_send e k now c \<longleftrightarrow> (cfg_dist (cfg e) = 0 \<longrightarrow> k < 2 ^ 64 - 1 \<longrightarrow>
     c_estimate c = c_sent c + 1 \<and> c_thread_next c \<le> now)"

lemma may_send_mono: "may_send e k t c \<Longrightarrow> t \<le> t' \<Longrightarrow> may_send e k t' c"
  by (auto simp: may_send_def)

lemma word_add_1_less:
  assumes "unat (x :: u64) < 2 ^ 64 - 1"
  shows "unat (x + 1) = unat x + 1" "x < x + 1"
proof -
  show 1: "unat (x + 1) = unat x + 1"
    using assms by (simp add: unat_word_ariths(1))
  show "x < x + 1" unfolding word_less_nat_alt 1 by simp
qed

lemma paced_plan:
  assumes "paced c" "unat (c_sent c) < 2 ^ 64 - 1" "gap = c_interval c"
  defines "c' \<equiv> (if c_estimate c \<le> c_sent c
    then c\<lparr>c_estimate := c_estimate c + 1, c_thread_next := c_thread_next c + gap\<rparr> else c)"
  shows "paced c'" "c_estimate c' = c_sent c' + 1"
proof -
  have "c_estimate c \<le> c_sent c \<longleftrightarrow> c_estimate c = c_sent c"
    using assms(1) word_add_1_less(2) [OF assms(2)] by (auto simp: paced_def)
  then show "paced c'" "c_estimate c' = c_sent c' + 1"
    using assms(1,3) by (auto simp: c'_def paced_def algebra_simps)
qed

lemma usec_to_next_send_keeps:
  assumes "thread_ok e k s" "valid_conn s i" "usec_to_next_send e i s = (wait, s')"
    and "clock_ok e now"
  shows "kept e k s s'" "c_written (conn i s') = c_written (conn i s)"
    "wait = 0 \<longrightarrow> may_send e k (now (w_os (fst s'))) (conn i s')"
proof -
  define t where "t = fst (time_us e (w_os (fst s)))"
  have t_eq: "fst (on_os (time_us e) s) = t" by (simp add: t_def on_os_def split: prod.split)
  define s1 where "s1 = snd (on_os (time_us e) s)"
  define gap where "gap = fst (on_os (gen_next e (conn i s1)) s1)"
  define s2 where "s2 = (if c_estimate (conn i s1) \<le> c_sent (conn i s1)
    then on_conn i (\<lambda>c. c\<lparr>c_estimate := c_estimate c + 1, c_thread_next := c_thread_next c + gap\<rparr>)
      (snd (on_os (gen_next e (conn i s1)) s1)) else s1)"
  have u: "wait = (if t < c_thread_next (conn i s2) then c_thread_next (conn i s2) - t else 0)" "s' = s2"
    using assms(3) unfolding usec_to_next_send_def s2_def gap_def s1_def t_eq [symmetric] Let_def case_prod_beta
    by auto
  have c1: "conn i s1 = conn i s" by (simp add: s1_def)
  have ok: "conn_ok e k (conn i s)" by (rule thread_ok_conn [OF assms(1,2)])
  let ?c' = "if c_estimate (conn i s) \<le> c_sent (conn i s)
    then (conn i s)\<lparr>c_estimate := c_estimate (conn i s) + 1, c_thread_next := c_thread_next (conn i s) + gap\<rparr> else conn i s"
  have c': "conn i s2 = ?c'"
    using assms(2) by (simp add: s2_def c1 on_conn_def on_thread_def) (simp add: conn_def valid_conn_def s1_def)
  have gap: "cfg_dist (cfg e) = 0 \<Longrightarrow> gap = c_interval (conn i s)"
    by (simp add: gap_def gen_next_def on_os_def c1)
  have p: "cfg_dist (cfg e) = 0 \<Longrightarrow> k < 2 ^ 64 - 1 \<Longrightarrow> paced ?c' \<and> c_estimate ?c' = c_sent ?c' + 1"
    using paced_plan [of "conn i s" gap] gap ok unfolding conn_ok_def by (smt (verit) order.strict_trans1)
  have f: "c_fd ?c' = c_fd (conn i s)" "c_sent ?c' = c_sent (conn i s)" "c_interval ?c' = c_interval (conn i s)"
    "c_parser ?c' = c_parser (conn i s)" by simp_all
  have "conn_ok e k ?c'" using ok p unfolding conn_ok_def f by blast
  then have "thread_ok e k s2"
    using assms(1) unfolding s2_def c1 by (auto simp: s1_def intro!: thread_ok_on_conn)
  then show "kept e k s s'" by (simp add: kept_def u s2_def s1_def)
  show "c_written (conn i s') = c_written (conn i s)" by (simp add: u c')
  have "t \<le> now (w_os (fst s1))" using assms(4) by (simp add: s1_def t_def on_os_def clock_ok_def case_prod_beta)
  moreover have "w_os (fst s2) = w_os (fst s1)" if "cfg_dist (cfg e) = 0"
    using that by (simp add: s2_def on_conn_def on_thread_def on_os_def gen_next_def)
  ultimately show "wait = 0 \<longrightarrow> may_send e k (now (w_os (fst s'))) (conn i s')"
    using p unfolding may_send_def u c' by (auto split: if_splits)
qed

lemma kept_refl: "thread_ok e k s \<Longrightarrow> kept e k s s"
  by (simp add: kept_def)

lemma kept_mono: "kept e k s s' \<Longrightarrow> k \<le> k' \<Longrightarrow> kept e k' s s'"
  by (auto simp: kept_def intro: thread_ok_mono)

lemma kept_on_conn:
  assumes "kept e k s0 s" "conn_ok e k (conn i s) \<Longrightarrow> conn_ok e k (f (conn i s))"
  shows "kept e k s0 (on_conn i f s)"
  using assms thread_ok_on_conn [of e k s i f] by (simp add: kept_def)

lemma kept_on_os [simp]: "kept e k s0 (snd (on_os f s)) = kept e k s0 s"
  and kept_put_os [simp]: "kept e k s0 (put_os g s) = kept e k s0 s"
  and kept_on_errors [simp]: "kept e k s0 (on_errors h s) = kept e k s0 s"
  and kept_stop_loop [simp]: "kept e k s0 (stop_loop s) = kept e k s0 s"
  by (simp_all add: kept_def)

lemma kept_on_thread:
  assumes "kept e k s0 s" "t_cs (f (w_thread (fst s))) = t_cs (w_thread (fst s))"
  shows "kept e k s0 (on_thread f s)"
  using assms by (simp add: kept_def thread_ok_on_thread valid_conn_def) (simp add: on_thread_def)

lemma kept_create_file:
  assumes "system_ok e" "kept e k s0 s" "0 \<le> fd" "m \<in> masks" "create_file_event e fd m pr i s = Some (rc, s')"
  shows "kept e k s0 s'"
  using assms create_file_keeps [OF assms(1) _ assms(3-5), of k] by (auto simp: kept_def valid_conn_def)

lemma kept_delete_file:
  assumes "system_ok e" "kept e k s0 s" "0 \<le> fd" "m \<in> masks" "delete_file_event e fd m s = Some s'"
  shows "kept e k s0 s'"
  using assms delete_file_keeps [OF assms(1) _ assms(3-5), of k] by (auto simp: kept_def valid_conn_def)

lemma kept_create_time:
  assumes "kept e k s0 s"
  shows "kept e k s0 (create_time_event e ms pr d s)"
proof -
  have "t_cs (w_thread (fst (create_time_event e ms pr d s))) = t_cs (w_thread (fst s))"
    using create_time_frame(3) [of "loop_clock e" ms pr d None "fst s" "snd s"]
    by (simp add: create_time_event_def aeCreateTimeEvent_def aeAddMillisecondsToNow_def aeGetTime_def loop_clock_def
      Let_def split: prod.split)
  then show ?thesis using assms create_time_keeps [of e k s ms pr d] by (simp add: kept_def valid_conn_def)
qed

lemma kept_valid: "kept e k s0 s \<Longrightarrow> valid_conn s0 i \<Longrightarrow> valid_conn s i"
  by (simp add: kept_def)

lemma kept_fd: "kept e k s0 s \<Longrightarrow> valid_conn s0 i \<Longrightarrow> 0 \<le> c_fd (conn i s)"
  using thread_ok_conn [of e k s i] by (simp add: kept_def conn_ok_def)

lemma socket_connected_keeps:
  assumes "system_ok e" "thread_ok e k s" "valid_conn s i" "0 \<le> fd" "socket_connected e i fd s = Some s'"
  shows "kept e k s s'"
proof -
  define s1 where "s1 = snd (on_os (sk_connect (sock e) i (c_fd (conn i s))) s)"
  have k1: "kept e k s s1" using assms(2) by (simp add: s1_def kept_refl)
  show ?thesis
  proof (cases "fst (on_os (sk_connect (sock e) i (c_fd (conn i s))) s)")
    case NET_OK
    let ?s2 = "on_conn i (\<lambda>c. c\<lparr>c_parser := http_parser_init (c_parser c) HTTP_RESPONSE, c_written := 0\<rparr>) s1"
    have k2: "kept e k s ?s2" by (rule kept_on_conn [OF k1]) (simp add: conn_ok_def paced_def)
    obtain r3 s3 r4 where "create_file_event e fd AE_READABLE P_socket_readable i ?s2 = Some (r3, s3)"
      "create_file_event e fd AE_WRITABLE P_socket_writeable i s3 = Some (r4, s')"
      using assms(5) NET_OK unfolding socket_connected_def Let_def case_prod_beta s1_def [symmetric]
      by (auto split: bind_splits)
    note c = this
    have "kept e k s s3" by (rule kept_create_file [OF assms(1) k2 assms(4) _ c(1)]) simp
    then show ?thesis by (rule kept_create_file [OF assms(1) _ assms(4) _ c(2)]) simp
  next
    case NET_ERROR
    then show ?thesis
      using kept_reconnect [OF assms(1), of k s "on_errors (\<lambda>er. er\<lparr>err_connect := err_connect er + 1\<rparr>) s1" i s'] k1
        kept_valid [OF k1 assms(3)] assms(5) unfolding socket_connected_def s1_def Let_def case_prod_beta by simp
  next
    case NET_RETRY
    then show ?thesis using assms(5) k1 by (simp add: socket_connected_def s1_def case_prod_beta Let_def)
  qed
qed

lemma conn_on_conn: "valid_conn s i \<Longrightarrow> conn i (on_conn i f s) = f (conn i s)"
  by (simp add: conn_def on_conn_def on_thread_def valid_conn_def)

text \<open>The one place where a request is counted as sent.\<close>

lemma paced_send:
  assumes "paced c" "c_estimate c = c_sent c + 1" "c_thread_next c \<le> now"
  shows "paced (c\<lparr>c_start := now, actual_latency_start := l, c_sent := c_sent c + 1\<rparr>)"
  using assms by (auto simp: paced_def)

lemma request_started_keeps:
  assumes "kept e k s0 s" "valid_conn s0 i" "clock_ok e now" "may_send e k (now (w_os (fst s))) (conn i s)"
  shows "kept e (Suc k) s0 (request_started e i s)"
proof -
  define t where "t = fst (time_us e (w_os (fst s)))"
  have t: "now (w_os (fst s)) \<le> t" using assms(3) by (simp add: clock_ok_def t_def)
  have r: "request_started e i s = on_conn i (\<lambda>c. c\<lparr>c_start := t,
      actual_latency_start := (actual_latency_start c)[unat (c_sent c AND MAXO) := t], c_sent := c_sent c + 1\<rparr>)
      (snd (on_os (time_us e) s))"
    by (simp add: request_started_def note_start_def [abs_def] t_def on_os_def case_prod_beta Let_def)
  have ok: "conn_ok e k (conn i s)" using assms(1,2) thread_ok_conn [of e k s i] by (simp add: kept_def)
  let ?c = "(conn i s)\<lparr>c_start := t,
      actual_latency_start := (actual_latency_start (conn i s))[unat (c_sent (conn i s) AND MAXO) := t],
      c_sent := c_sent (conn i s) + 1\<rparr>"
  have "conn_ok e (Suc k) ?c"
  proof -
    have "paced ?c \<and> unat (c_sent ?c) \<le> Suc k \<and> interval_of (cfg e) = c_interval ?c" if "cfg_dist (cfg e) = 0" "Suc k < 2 ^ 64 - 1"
    proof -
      have p: "paced (conn i s)" "unat (c_sent (conn i s)) \<le> k" "c_estimate (conn i s) = c_sent (conn i s) + 1"
        "c_thread_next (conn i s) \<le> now (w_os (fst s))" "interval_of (cfg e) = c_interval (conn i s)"
        using that ok assms(4) by (simp_all add: conn_ok_def may_send_def)
      have "unat (c_sent (conn i s) + 1) = unat (c_sent (conn i s)) + 1"
        by (rule word_add_1_less(1)) (use p(2) that in simp)
      then show ?thesis using paced_send [OF p(1,3), of t] p t by simp
    qed
    then show ?thesis using ok by (simp add: conn_ok_def)
  qed
  then show ?thesis unfolding r
    by (intro kept_on_conn) (use kept_mono [OF assms(1), of "Suc k"] in simp_all)
qed

lemma request_written_keeps:
  assumes "system_ok e" "kept e k s0 s" "valid_conn s0 i" "clock_ok e now" "0 \<le> fd"
    and "c_written (conn i s) = 0 \<longrightarrow> may_send e k (now (w_os (fst s))) (conn i s)"
    and "request_written e i fd n s = Some s'"
  shows "kept e (Suc k) s0 s'"
proof -
  define s1 where "s1 = (if c_written (conn i s) = 0 then request_started e i s else s)"
  define s2 where "s2 = on_conn i (\<lambda>c. c\<lparr>c_written := c_written c + n\<rparr>) s1"
  have k1: "kept e (Suc k) s0 s1"
    using request_started_keeps [OF assms(2-4)] assms(6) kept_mono [OF assms(2), of "Suc k"] by (simp add: s1_def)
  have k2: "kept e (Suc k) s0 s2" unfolding s2_def by (rule kept_on_conn [OF k1]) (simp add: conn_ok_def paced_def)
  show ?thesis
  proof (cases "c_written (conn i s2) = length (c_request (conn i s2))")
    case False
    then show ?thesis using assms(7) k2 by (simp add: request_written_def s1_def [symmetric] s2_def [symmetric] Let_def)
  next
    case True
    let ?s2 = "on_conn i (\<lambda>c. c\<lparr>c_written := 0\<rparr>) s2"
    have k: "kept e (Suc k) s0 ?s2" by (rule kept_on_conn [OF k2]) (simp add: conn_ok_def paced_def)
    obtain s3 r4 where s3: "delete_file_event e fd AE_WRITABLE ?s2 = Some s3"
      "create_file_event e (c_fd (conn i s3)) AE_WRITABLE P_socket_writeable i s3 = Some (r4, s')"
      using assms(7) True
      by (auto simp: request_written_def s1_def [symmetric] s2_def [symmetric] Let_def split: bind_splits)
    have "kept e (Suc k) s0 s3" by (rule kept_delete_file [OF assms(1) k assms(5) _ s3(1)]) simp
    then show ?thesis
      by (rule kept_create_file [OF assms(1) _ kept_fd [OF \<open>kept e (Suc k) s0 s3\<close> assms(3)] _ s3(2)]) simp
  qed
qed

lemma send_request_keeps:
  assumes "system_ok e" "kept e k s0 s" "valid_conn s0 i" "clock_ok e now" "0 \<le> fd"
    and "c_written (conn i s) = 0 \<longrightarrow> may_send e k (now (w_os (fst s))) (conn i s)"
    and "send_request e i fd s = Some s'"
  shows "kept e (Suc k) s0 s'"
proof -
  define s1 where "s1 = (if c_written (conn i s) = 0 \<and> cfg_dynamic (cfg e)
    then on_conn i (\<lambda>c. c\<lparr>c_request := fst (on_os (script_request e) s)\<rparr>) (snd (on_os (script_request e) s)) else s)"
  define w where "w = on_os (sk_write (sock e) i (c_fd (conn i s1)) (drop (c_written (conn i s1)) (c_request (conn i s1)))) s1"
  have v: "valid_conn s i" by (rule kept_valid [OF assms(2,3)])
  have k1: "kept e k s0 s1"
    unfolding s1_def using assms(2) by (auto intro!: kept_on_conn simp: conn_ok_def paced_def)
  have c1: "c_written (conn i s1) = c_written (conn i s)" "may_send e k t (conn i s1) = may_send e k t (conn i s)" for t
    using v by (simp_all add: s1_def conn_on_conn may_send_def)
  have le1: "now (w_os (fst s)) \<le> now (w_os (fst s1))"
    using assms(4) by (simp add: s1_def on_conn_def on_thread_def on_os_def case_prod_beta clock_ok_def)
  have le2: "now (w_os (fst s1)) \<le> now (w_os (fst (snd w)))"
    using assms(4) by (simp add: w_def on_os_def case_prod_beta clock_ok_def)
  have cw: "conn i (snd w) = conn i s1" by (simp add: w_def)
  have m: "c_written (conn i (snd w)) = 0 \<longrightarrow> may_send e k (now (w_os (fst (snd w)))) (conn i (snd w))"
    unfolding cw c1 using assms(6) may_send_mono [OF _ order.trans [OF le1 le2]] by blast
  have k2: "kept e k s0 (snd w)" using k1 by (simp add: w_def)
  have r: "send_request e i fd s = (case fst (fst w) of NET_RETRY \<Rightarrow> Some (snd w)
    | NET_ERROR \<Rightarrow> map_option snd (reconnect_socket e i (on_errors (\<lambda>er. er\<lparr>err_write := err_write er + 1\<rparr>) (snd w)))
    | NET_OK \<Rightarrow> request_written e i fd (snd (fst w)) (snd w))"
    unfolding send_request_def w_def s1_def Let_def case_prod_beta by (rule refl)
  have "kept e k s0 s' \<or> kept e (Suc k) s0 s'"
  proof (cases "fst (fst w)")
    case NET_OK
    then show ?thesis using assms(7) m request_written_keeps [OF assms(1) k2 assms(3-5)] NET_OK r by simp
  next
    case NET_ERROR
    then show ?thesis
      using kept_reconnect [OF assms(1), of k s0 "on_errors (\<lambda>er. er\<lparr>err_write := err_write er + 1\<rparr>) (snd w)" i s'] k2
        kept_valid [OF k2 assms(3)] assms(7) r by simp
  next
    case NET_RETRY
    then show ?thesis using k2 assms(7) r by simp
  qed
  then show ?thesis using kept_mono by (metis le_SucI order.refl)
qed

lemma socket_writeable_keeps:
  assumes "system_ok e" "thread_ok e k s" "valid_conn s i" "clock_ok e now" "0 \<le> fd"
    and "socket_writeable e i fd s = Some s'"
  shows "kept e (Suc k) s s'"
proof (cases "c_written (conn i s) = 0")
  case False
  then show ?thesis
    using assms(6) send_request_keeps [OF assms(1) kept_refl [OF assms(2)] assms(3-5)] by (simp add: socket_writeable_def)
next
  case True
  obtain wait s1 where u: "usec_to_next_send e i s = (wait, s1)" by (cases "usec_to_next_send e i s")
  note n = usec_to_next_send_keeps [OF assms(2,3) u assms(4)]
  show ?thesis
  proof (cases "wait = 0")
    case True
    then show ?thesis
      using assms(6) u n \<open>c_written (conn i s) = 0\<close> send_request_keeps [OF assms(1) n(1) assms(3-5)]
      by (simp add: socket_writeable_def)
  next
    case False
    then obtain ms s2 where s2: "delete_file_event e fd AE_WRITABLE s1 = Some s2"
      "s' = create_time_event e ms P_delay_request (Conn i) s2"
      using assms(6) u True by (auto simp: socket_writeable_def split: bind_splits)
    have "kept e k s s2" by (rule kept_delete_file [OF assms(1) n(1) assms(5) _ s2(1)]) simp
    then show ?thesis unfolding s2(2) by (intro kept_create_time) (rule kept_mono [of e k], simp_all)
  qed
qed

lemma delay_request_keeps:
  assumes "system_ok e" "thread_ok e k s" "valid_conn s i" "clock_ok e now" "delay_request e i s = Some (r, s')"
  shows "kept e k s s'"
proof -
  obtain wait s1 where u: "usec_to_next_send e i s = (wait, s1)" by (cases "usec_to_next_send e i s")
  note n = usec_to_next_send_keeps [OF assms(2,3) u assms(4)]
  show ?thesis
  proof (cases "wait = 0")
    case True
    then obtain rc where "create_file_event e (c_fd (conn i s1)) AE_WRITABLE P_socket_writeable i s1 = Some (rc, s')"
      using assms(5) u by (auto simp: delay_request_def)
    then show ?thesis by (rule kept_create_file [OF assms(1) n(1) kept_fd [OF n(1) assms(3)], rotated]) simp
  next
    case False
    then show ?thesis using assms(5) u n(1) by (auto simp: delay_request_def)
  qed
qed

lemma hand_over_keeps:
  assumes "kept e k s0 s" "hand_over e i st s = Some s'"
  shows "kept e k s0 s'"
proof -
  obtain gv tx where s': "s' = (case gv of None \<Rightarrow> on_conn i (\<lambda>c. c\<lparr>c_text := tx\<rparr>) s
      | Some (hs, b) \<Rightarrow> put_os (call_response e st hs b) (on_conn i (\<lambda>c. c\<lparr>c_text := tx\<rparr>) s))"
    using assms(2) by (auto simp: hand_over_def Let_def split: bind_splits)
  have "kept e k s0 (on_conn i (\<lambda>c. c\<lparr>c_text := tx\<rparr>) s)"
    by (rule kept_on_conn [OF assms(1)]) (simp add: conn_ok_def paced_def)
  then show ?thesis by (simp add: s' split: option.split prod.split)
qed

lemma record_latency_frame:
  assumes "record_latency e timing s = Some s'"
  shows "snd s' = snd s" "t_cs (w_thread (fst s')) = t_cs (w_thread (fst s))"
  using assms by (auto simp: record_latency_def Let_def split: bind_splits if_splits)

lemma kept_frame:
  assumes "kept e k s0 s" "snd s' = snd s" "t_cs (w_thread (fst s')) = t_cs (w_thread (fst s))"
  shows "kept e k s0 s'"
  using assms by (simp add: kept_def thread_ok_def conns_ok_def valid_conn_def)

lemma response_complete_keeps:
  assumes "system_ok e" "kept e k s0 s" "valid_conn s0 i" "response_complete e i st ka s = Some (again, s')"
  shows "kept e k s0 s'"
proof -
  define s1 where "s1 = on_thread (\<lambda>t. t\<lparr>t_complete := t_complete t + 1, t_requests := t_requests t + 1\<rparr>)
    (snd (on_os (time_us e) s))"
  define s2 where "s2 = (if 399 < st then on_errors (\<lambda>er. er\<lparr>err_status := err_status er + 1\<rparr>) s1 else s1)"
  have k1: "kept e k s0 s1" unfolding s1_def by (rule kept_on_thread) (use assms(2) in simp_all)
  then have k2: "kept e k s0 s2" by (simp add: s2_def)
  obtain s3 where s3: "hand_over e i st s2 = Some s3"
    using assms(4) unfolding response_complete_def Let_def case_prod_beta s1_def [symmetric] s2_def [symmetric]
    by (cases "hand_over e i st s2") auto
  note k3 = hand_over_keeps [OF k2 s3]
  show ?thesis
  proof (cases "t_stop_at (w_thread (fst s3)) \<le> fst (on_os (time_us e) s)")
    case True
    then show ?thesis using assms(4) s3 k3
      unfolding response_complete_def Let_def case_prod_beta s1_def [symmetric] s2_def [symmetric] by auto
  next
    case False
    then obtain s4 where s4: "(if record_all_responses (cfg e)
         then (let start = response_start (conn i s3)
               in if start < fst (on_os (time_us e) s) then record_latency e (fst (on_os (time_us e) s) - start) s3 else None)
         else Some s3) = Some s4"
      and r: "(if \<not> ka then map_option (\<lambda>(_, s). (False, s))
          (reconnect_socket e i (on_conn i completed s4))
        else Some (True, on_conn i completed s4)) = Some (again, s')"
      using assms(4) s3 unfolding response_complete_def Let_def case_prod_beta s1_def [symmetric] s2_def [symmetric]
      by (auto split: bind_splits)
    have k4: "kept e k s0 s4"
      using s4 k3 record_latency_frame [of e _ s3 s4] kept_frame [OF k3] by (auto simp: Let_def split: if_splits)
    have k5: "kept e k s0 (on_conn i completed s4)"
      by (rule kept_on_conn [OF k4]) (simp add: conn_ok_def paced_def completed_def)
    then show ?thesis
      using r kept_reconnect [OF assms(1) k5 kept_valid [OF k5 assms(3)], of s'] by (auto split: if_splits)
  qed
qed

text \<open>The callbacks of the parser act on the state through its user data.\<close>

definition data_kept ::
  "('o, epoll_state) wrk_setup \<Rightarrow> nat \<Rightarrow> ('o, epoll_state) wrk_state \<Rightarrow> nat \<Rightarrow> ('o, epoll_state) conn_data \<Rightarrow> bool" where
  "data_kept e k s0 i u \<longleftrightarrow> fst u = i \<and> (\<forall>s. snd u = Some s \<longrightarrow> kept e k s0 s)"

lemma http_init_data [simp]: "data (http_parser_init ps t) = data ps"
  by (simp add: http_parser_init_def)

lemma text_callback_keeps:
  assumes "data_kept e k s0 i (data ps)"
  shows "data_kept e k s0 i (data (snd (text_callback f ps str)))"
proof -
  have "kept e k s0 (on_conn i (\<lambda>c. c\<lparr>c_text := t\<rparr>) s)" if "kept e k s0 s" for s t
    by (rule kept_on_conn [OF that]) (simp add: conn_ok_def paced_def)
  note set_text = this
  show ?thesis
  proof (cases "snd (data ps)")
    case (Some s)
    then have i: "fst (data ps) = i" "kept e k s0 s" using assms by (simp_all add: data_kept_def)
    then show ?thesis using Some set_text
      by (cases "f (c_text (conn i s)) str") (simp_all add: text_callback_def data_kept_def)
  qed (use assms in \<open>simp add: text_callback_def data_kept_def\<close>)
qed

lemma complete_callback_keeps:
  assumes "system_ok e" "valid_conn s0 i" "data_kept e k s0 i (data ps)"
  shows "data_kept e k s0 i (data (snd (complete_callback e ps)))"
proof -
  have "kept e k s0 s'" if "snd (data ps) = Some s" "response_complete e i st ka s = Some (again, s')" for s st ka again s'
    using response_complete_keeps [OF assms(1) _ assms(2) that(2)] assms(3) that(1) by (simp add: data_kept_def)
  then show ?thesis using assms(3)
    by (cases "snd (data ps)") (auto simp: complete_callback_def data_kept_def Let_def split: option.split)
qed

lemma parser_callbacks_keep:
  assumes "system_ok e" "valid_conn s0 i"
  shows "callbacks_keep (data_kept e k s0 i) (parser_settings e)"
  unfolding callbacks_keep_def parser_settings_def Let_def
  by (auto intro: text_callback_keeps complete_callback_keeps [OF assms] split: if_splits)

lemma parse_response_keeps:
  assumes "system_ok e" "kept e k s0 s" "valid_conn s0 i" "length buf < 2 ^ 64" "parse_response e i buf s = Some (n, s')"
  shows "kept e k s0 s'"
proof -
  obtain ps s1 where ps: "http_parser_execute (parser_settings e) (with_data (i, Some s) (c_parser (conn i s))) buf = Some (n, ps)"
    "snd (data ps) = Some s1" "s' = on_conn i (\<lambda>c. c\<lparr>c_parser := with_data () ps\<rparr>) s1"
    using assms(5) by (auto simp: parse_response_def split: option.splits)
  have "data_kept e k s0 i (data ps)"
    by (rule execute_keeps [OF parser_callbacks_keep [OF assms(1,3)] _ ps(1)])
      (use assms(2) in \<open>simp add: with_data_def data_kept_def\<close>)
  then have "kept e k s0 s1" using ps(2) by (simp add: data_kept_def)
  moreover have "parser_ok ps"
  proof -
    have "parser_ok (c_parser (conn i s))"
      using thread_ok_conn [of e k s i] assms(2,3) by (simp add: kept_def conn_ok_def)
    then have "\<exists>n' ps'. http_parser_execute (parser_settings e) (with_data (i, Some s) (c_parser (conn i s))) buf = Some (n', ps') \<and>
        parser_ok ps'"
      using execute_ok [OF parser_settings_ok _ assms(4), of "with_data (i, Some s) (c_parser (conn i s))" e] by auto
    then show ?thesis using ps(1) by simp
  qed
  ultimately show ?thesis unfolding ps(3) by (intro kept_on_conn) (simp_all add: conn_ok_def paced_def)
qed

lemma read_error_keeps:
  assumes "system_ok e" "kept e k s0 s" "valid_conn s0 i" "read_error e i s = Some s'"
  shows "kept e k s0 s'"
  using assms kept_reconnect [OF assms(1), of k s0 "on_errors (\<lambda>er. er\<lparr>err_read := err_read er + 1\<rparr>) s" i s']
    kept_valid [OF assms(2,3)] by (simp add: read_error_def)

lemma socket_readable_result_keeps:
  "socket_readable e i s = Some s' \<Longrightarrow> system_ok e \<longrightarrow> kept e k s0 s \<longrightarrow> valid_conn s0 i \<longrightarrow> kept e k s0 s'"
proof (rule socket_readable.raw_induct
    [where P = "\<lambda>e i s s'. system_ok e \<longrightarrow> kept e k s0 s \<longrightarrow> valid_conn s0 i \<longrightarrow> kept e k s0 s'"])
  fix loop and e :: "('a, epoll_state) wrk_setup" and i and s :: "('a, epoll_state) wrk_state" and s'
  let ?r = "on_os (sk_read (sock e) i (c_fd (conn i s))) s"
  assume IH: "\<And>e i s s'. loop e i s = Some s' \<Longrightarrow> system_ok e \<longrightarrow> kept e k s0 s \<longrightarrow> valid_conn s0 i \<longrightarrow> kept e k s0 s'"
    and b: "(let ((st, buf), s1) = on_os (sk_read (sock e) i (c_fd (conn i s))) s
      in if st = NET_RETRY then Some s1
         else if st = NET_ERROR then read_error e i s1
         else (case parse_response e i buf s1 of None \<Rightarrow> None
               | Some (parsed, s2) \<Rightarrow>
                   if parsed \<noteq> int (length buf) then read_error e i s2
                   else (let s3 = on_thread (\<lambda>t. t\<lparr>t_bytes := t_bytes t + of_nat (length buf)\<rparr>) s2
                         in if length buf = RECVBUF
                            then (let (n, s4) = on_os (sk_readable (sock e) i (c_fd (conn i s3))) s3
                                  in if 0 < n then loop e i s4 else Some s4)
                            else Some s3))) = Some s'"
  show "system_ok e \<longrightarrow> kept e k s0 s \<longrightarrow> valid_conn s0 i \<longrightarrow> kept e k s0 s'"
  proof (intro impI)
    assume a: "system_ok e" "kept e k s0 s" "valid_conn s0 i"
    obtain st buf s1 where r: "?r = ((st, buf), s1)" by (metis prod.collapse)
    have k1: "kept e k s0 s1" using a(2) r by (metis kept_on_os snd_conv)
    show "kept e k s0 s'"
    proof (cases "st = NET_RETRY \<or> st = NET_ERROR")
      case True
      then show ?thesis using b r k1 read_error_keeps [OF a(1) k1 a(3)] by (auto split: if_splits)
    next
      case False
      then obtain parsed s2 where p: "parse_response e i buf s1 = Some (parsed, s2)"
        using b r by (auto split: option.splits)
      have "length buf \<le> RECVBUF" using a(1) r by (auto simp: system_ok_def on_os_def split: prod.splits) (metis fst_conv snd_conv)
      then have "length buf < 2 ^ 64" by (simp add: RECVBUF_def)
      note k2 = parse_response_keeps [OF a(1) k1 a(3) this p]
      let ?s3 = "on_thread (\<lambda>t. t\<lparr>t_bytes := t_bytes t + of_nat (length buf)\<rparr>) s2"
      have k3: "kept e k s0 ?s3" by (rule kept_on_thread [OF k2]) simp
      obtain n s4 where s4: "on_os (sk_readable (sock e) i (c_fd (conn i ?s3))) ?s3 = (n, s4)" by (rule that [OF prod.collapse [symmetric]])
      have k4: "kept e k s0 s4" 
        using kept_on_os [of e k s0 "sk_readable (sock e) i (c_fd (conn i ?s3))" ?s3] k3 unfolding s4 by simp
      have "(if parsed \<noteq> int (length buf) then read_error e i s2
        else if length buf = RECVBUF then (if 0 < n then loop e i s4 else Some s4) else Some ?s3) = Some s'"
        using b False unfolding r Let_def prod.case p option.case s4 by simp
      then show ?thesis
        using k3 k4 read_error_keeps [OF a(1) k2 a(3)] IH [of e i s4 s'] a by (simp split: if_splits)
    qed
  qed
qed

lemma calibrate_keeps:
  assumes "thread_ok e k s" "calibrate e s = Some (r, s')"
  shows "kept e k s s'"
proof -
  obtain mean latency where m: "hdr_mean (latency_histogram (w_thread (fst s))) = Some mean"
    "hdr_value_at_percentile (latency_histogram (w_thread (fst s))) 90 = Some latency"
    using assms(2) by (auto simp: calibrate_def Let_def split: bind_splits)
  show ?thesis
  proof (cases "mean = 0")
    case True
    then show ?thesis using assms m by (simp add: calibrate_def Let_def kept_refl)
  next
    case False
    then show ?thesis using assms m
      by (auto simp: calibrate_def Let_def case_prod_beta intro!: kept_create_time kept_on_thread kept_refl)
  qed
qed

lemma check_timeouts_keeps:
  assumes "thread_ok e k s"
  shows "kept e k s (snd (check_timeouts e s))"
  using kept_refl [OF assms] by (simp add: check_timeouts_def case_prod_beta Let_def)

lemma sample_rate_keeps:
  assumes "thread_ok e k s" "sample_rate e s = Some (r, s')"
  shows "kept e k s s'"
proof -
  define s1 where "s1 = snd (on_os (time_us e) s)"
  obtain st where s': "s' = on_thread (\<lambda>t. t\<lparr>t_requests := 0,
      t_start := fst (on_os (time_us e) ((fst s1)\<lparr>statistics_requests := st\<rparr>, snd s1))\<rparr>)
    (snd (on_os (time_us e) ((fst s1)\<lparr>statistics_requests := st\<rparr>, snd s1)))"
    using assms(2) unfolding sample_rate_def Let_def case_prod_beta s1_def by (auto split: if_splits bind_splits)
  have "kept e k s s1" using assms(1) by (simp add: s1_def kept_refl)
  then have "kept e k s ((fst s1)\<lparr>statistics_requests := st\<rparr>, snd s1)" by (rule kept_frame) simp_all
  then show ?thesis unfolding s' by (intro kept_on_thread) simp_all
qed


end
