(* ===== verification/Wrk_Latency.thy ===== *)
theory Wrk_Latency
  imports Wrk_Safety
begin

text \<open>
  The times at which the requests of a connection were sent: the array \<open>actual_latency_start\<close> with the counters \<open>sent\<close>
  and \<open>complete\<close> is a queue of at most 16384 times, and each response is given the time of its own request.
\<close>

section \<open>A queue of bounded length\<close>

datatype 'v queue_op = Put 'v | Take

fun queue_run :: "('v \<Rightarrow> 'q \<Rightarrow> 'q) \<Rightarrow> ('q \<Rightarrow> 'v) \<Rightarrow> ('q \<Rightarrow> 'q) \<Rightarrow> 'v queue_op list \<Rightarrow> 'q \<Rightarrow> 'v list" where
  "queue_run enq first rest [] q = []"
| "queue_run enq first rest (Put v # ops) q = queue_run enq first rest ops (enq v q)"
| "queue_run enq first rest (Take # ops) q = first q # queue_run enq first rest ops (rest q)"

fun puts :: "'v queue_op list \<Rightarrow> 'v list" where
  "puts [] = []"
| "puts (Put v # ops) = v # puts ops"
| "puts (Take # ops) = puts ops"

fun takes :: "'v queue_op list \<Rightarrow> nat" where
  "takes [] = 0"
| "takes (Put v # ops) = takes ops"
| "takes (Take # ops) = Suc (takes ops)"

text \<open>From a queue of \<open>n\<close> values, none is taken from an empty queue and none put into a full one.\<close>

fun fits :: "nat \<Rightarrow> nat \<Rightarrow> 'v queue_op list \<Rightarrow> bool" where
  "fits cap n [] = True"
| "fits cap n (Put v # ops) = (n < cap \<and> fits cap (Suc n) ops)"
| "fits cap n (Take # ops) = (0 < n \<and> fits cap (n - 1) ops)"

locale bounded_queue =
  fixes enq :: "'v \<Rightarrow> 'q \<Rightarrow> 'q" and first :: "'q \<Rightarrow> 'v" and rest :: "'q \<Rightarrow> 'q"
    and valid :: "'q \<Rightarrow> bool" and contents :: "'q \<Rightarrow> 'v list" and capacity :: nat
  assumes enq_ok: "valid q \<Longrightarrow> length (contents q) < capacity \<Longrightarrow>
      valid (enq v q) \<and> contents (enq v q) = contents q @ [v]"
    and first_ok: "valid q \<Longrightarrow> contents q \<noteq> [] \<Longrightarrow> first q = hd (contents q)"
    and rest_ok: "valid q \<Longrightarrow> contents q \<noteq> [] \<Longrightarrow> valid (rest q) \<and> contents (rest q) = tl (contents q)"
begin

lemma run_in_order:
  "valid q \<Longrightarrow> fits capacity (length (contents q)) ops \<Longrightarrow>
   queue_run enq first rest ops q = take (takes ops) (contents q @ puts ops)"
proof (induction ops arbitrary: q)
  case (Cons a ops)
  show ?case
  proof (cases a)
    case (Put v)
    then show ?thesis using Cons.IH [of "enq v q"] Cons.prems enq_ok [of q v] by (simp del: take_append)
  next
    case Take
    then show ?thesis using Cons.IH [of "rest q"] Cons.prems rest_ok [of q] first_ok [of q]
      by (cases "contents q") simp_all
  qed
qed simp

end

section \<open>The array of a connection is such a queue\<close>

definition outstanding :: "connection \<Rightarrow> u64 list" where
  "outstanding c = map (\<lambda>j. actual_latency_start c ! unat ((c_complete c + of_nat j) AND MAXO))
     [0..<unat (c_sent c - c_complete c)]"

definition ring_ok :: "connection \<Rightarrow> bool" where
  "ring_ok c \<longleftrightarrow> length (actual_latency_start c) = 16384 \<and> unat (c_sent c - c_complete c) \<le> 16384"

lemma slot_mod: "unat ((x + of_nat j) AND MAXO) = (unat x + j) mod 16384"
proof -
  have "MAXO = mask 14" by (simp add: MAXO_def mask_eq_exp_minus_1)
  then have "unat ((x + of_nat j) AND MAXO) = unat (take_bit 14 (x + of_nat j))" by (simp only: take_bit_eq_mask)
  also have "\<dots> = take_bit 14 (unat (x + of_nat j))" by (rule unsigned_take_bit_eq)
  also have "\<dots> = unat (x + of_nat j) mod 16384" by (simp add: take_bit_eq_mod)
  also have "\<dots> = (unat x + j) mod 16384"
    by (simp add: unat_word_ariths(1) unat_of_nat mod_add_right_eq mod_mod_cancel)
  finally show ?thesis .
qed

lemma slot_eq_iff:
  assumes "i < (n :: nat)" "j < n"
  shows "(x + i) mod n = (x + j) mod n \<longleftrightarrow> i = j"
proof -
  have "i \<le> j \<Longrightarrow> (x + i) mod n = (x + j) mod n \<Longrightarrow> i = j" if "i < n" "j < n" for i j
    using that mod_eq_dvd_iff_nat [of "x + i" "x + j" n] dvd_imp_le [of n "j - i"] by (cases "i < j") auto
  then show ?thesis using assms by (metis nat_le_linear)
qed

lemma note_start_queue:
  assumes "ring_ok c" "length (outstanding c) < 16384"
  shows "ring_ok (note_start v c)" "outstanding (note_start v c) = outstanding c @ [v]"
proof -
  define d where "d = unat (c_sent c - c_complete c)"
  have d: "d < 16384" using assms(2) by (simp add: outstanding_def d_def)
  have s: "c_sent c = c_complete c + of_nat d" by (simp add: d_def)
  have d1: "unat (c_sent c + 1 - c_complete c) = Suc d"
  proof -
    have "c_sent c + 1 - c_complete c = (c_sent c - c_complete c) + 1" by simp
    moreover have "unat (c_sent c - c_complete c) < 2 ^ 64 - 1" using d by (simp add: d_def)
    ultimately show ?thesis using word_add_1_less(1) [of "c_sent c - c_complete c"] unfolding d_def by presburger
  qed
  show "ring_ok (note_start v c)" using assms d d1 by (simp add: ring_ok_def note_start_def)
  have len: "length (actual_latency_start c) = 16384" using assms(1) by (simp add: ring_ok_def)
  let ?x = "unat (c_complete c)"
  have "map (\<lambda>j. (actual_latency_start c)[(?x + d) mod 16384 := v] ! ((?x + j) mod 16384)) [0..<Suc d]
      = map (\<lambda>j. actual_latency_start c ! ((?x + j) mod 16384)) [0..<d] @ [v]"
    using d by (auto simp: nth_list_update len slot_eq_iff)
  then show "outstanding (note_start v c) = outstanding c @ [v]"
    unfolding outstanding_def using d1 by (simp add: note_start_def slot_mod d_def [symmetric]) (simp add: s slot_mod)
qed

lemma completed_queue:
  assumes "ring_ok c" "outstanding c \<noteq> []"
  shows "response_start c = hd (outstanding c)" "ring_ok (completed c)" "outstanding (completed c) = tl (outstanding c)"
proof -
  define d where "d = unat (c_sent c - c_complete c)"
  have d: "0 < d" using assms(2) by (simp add: outstanding_def d_def)
  have d1: "unat (c_sent c - (c_complete c + 1)) = d - 1"
  proof -
    have "c_sent c - (c_complete c + 1) = (c_sent c - c_complete c) - 1" by simp
    moreover have "c_sent c - c_complete c \<noteq> 0" using d by (auto simp: d_def)
    ultimately show ?thesis by (metis d_def word_less_nat_alt word_gt_0 unat_minus_one)
  qed
  show "ring_ok (completed c)" using assms(1) d1 by (simp add: ring_ok_def completed_def d_def le_diff_conv)
  have u: "[0..<d] = 0 # map Suc [0..<d - 1]" using d by (simp add: upt_conv_Cons map_Suc_upt)
  show "response_start c = hd (outstanding c)"
    using d by (simp add: outstanding_def d_def [symmetric] u response_start_def)
  show "outstanding (completed c) = tl (outstanding c)"
    unfolding outstanding_def using d1
    by (simp add: completed_def d_def [symmetric] u o_def) (simp add: algebra_simps)
qed

interpretation lq: bounded_queue note_start response_start completed ring_ok outstanding 16384
  by unfold_locales (use note_start_queue completed_queue in auto)

section \<open>The handlers\<close>

lemma hand_over_frame:
  assumes "hand_over e i code s = Some s'" "valid_conn s i"
  shows "outstanding (conn i s') = outstanding (conn i s)" "ring_ok (conn i s') = ring_ok (conn i s)"
    "valid_conn s' i" "t_accum_latency (w_thread (fst s')) = t_accum_latency (w_thread (fst s))"
    "t_monitored (w_thread (fst s')) = t_monitored (w_thread (fst s))"
    "t_target (w_thread (fst s')) = t_target (w_thread (fst s))"
proof -
  obtain gv tx where s': "s' = (case gv of None \<Rightarrow> on_conn i (\<lambda>c. c\<lparr>c_text := tx\<rparr>) s
      | Some (hs, b) \<Rightarrow> put_os (call_response e code hs b) (on_conn i (\<lambda>c. c\<lparr>c_text := tx\<rparr>) s))"
    using assms(1) by (auto simp: hand_over_def Let_def split: bind_splits)
  have c: "conn i s' = (conn i s)\<lparr>c_text := tx\<rparr>" using assms(2) unfolding s'
    by (simp add: conn_def put_os_def on_conn_def on_thread_def valid_conn_def split: option.split prod.split)
  show "outstanding (conn i s') = outstanding (conn i s)" "ring_ok (conn i s') = ring_ok (conn i s)"
    by (simp_all add: c outstanding_def ring_ok_def)
  show "valid_conn s' i" using assms(2) unfolding s' by (simp split: option.split prod.split)
  show "t_accum_latency (w_thread (fst s')) = t_accum_latency (w_thread (fst s))"
    "t_monitored (w_thread (fst s')) = t_monitored (w_thread (fst s))"
    "t_target (w_thread (fst s')) = t_target (w_thread (fst s))" unfolding s'
    by (simp_all add: put_os_def on_conn_def on_thread_def split: option.split prod.split)
qed

lemma record_latency_sum:
  assumes "record_latency e timing s = Some s'" "t_monitored (w_thread (fst s)) + 1 \<noteq> t_target (w_thread (fst s))"
  shows "t_accum_latency (w_thread (fst s')) = t_accum_latency (w_thread (fst s)) + timing"
  using assms by (auto simp: record_latency_def Let_def split: bind_splits if_splits)

text \<open>A response on a connection that stays open takes the oldest of the times of the outstanding requests, and the latency that is
  recorded for it is the time since then.\<close>

theorem response_takes_oldest:
  assumes "valid_conn s i" "ring_ok (conn i s)" "outstanding (conn i s) \<noteq> []"
    and "response_complete e i code True s = Some (True, s')"
  shows "outstanding (conn i s') = tl (outstanding (conn i s)) \<and>
    (record_all_responses (cfg e) \<longrightarrow> t_monitored (w_thread (fst s)) + 1 \<noteq> t_target (w_thread (fst s)) \<longrightarrow>
      t_accum_latency (w_thread (fst s')) = t_accum_latency (w_thread (fst s))
        + (fst (time_us e (w_os (fst s))) - hd (outstanding (conn i s))))"
proof -
  define now where "now = fst (on_os (time_us e) s)"
  define s1 where "s1 = on_thread (\<lambda>t. t\<lparr>t_complete := t_complete t + 1, t_requests := t_requests t + 1\<rparr>)
    (snd (on_os (time_us e) s))"
  define s2 where "s2 = (if 399 < code then on_errors (\<lambda>er. er\<lparr>err_status := err_status er + 1\<rparr>) s1 else s1)"
  have now: "now = fst (time_us e (w_os (fst s)))" by (simp add: now_def on_os_def split: prod.split)
  have c2: "conn i s2 = conn i s" "valid_conn s2 i"
    using assms(1) by (simp_all add: s2_def s1_def conn_def valid_conn_def on_thread_def on_errors_def on_os_def split: prod.split)
  have t2: "t_accum_latency (w_thread (fst s2)) = t_accum_latency (w_thread (fst s))"
    "t_monitored (w_thread (fst s2)) = t_monitored (w_thread (fst s))"
    "t_target (w_thread (fst s2)) = t_target (w_thread (fst s))"
    by (simp_all add: s2_def s1_def on_thread_def on_errors_def on_os_def split: prod.split)
  obtain s3 where s3: "hand_over e i code s2 = Some s3"
    using assms(4) unfolding response_complete_def Let_def case_prod_beta s1_def [symmetric] s2_def [symmetric]
    by (cases "hand_over e i code s2") auto
  note h = hand_over_frame [OF s3 c2(2), unfolded c2(1)]
  have t3: "t_accum_latency (w_thread (fst s3)) = t_accum_latency (w_thread (fst s))"
    "t_monitored (w_thread (fst s3)) = t_monitored (w_thread (fst s))"
    "t_target (w_thread (fst s3)) = t_target (w_thread (fst s))"
    using h(4-6) t2 by simp_all
  have q: "response_start (conn i s3) = hd (outstanding (conn i s))"
    "outstanding (completed (conn i s3)) = tl (outstanding (conn i s))"
    using completed_queue [of "conn i s3"] h assms(2,3) by simp_all
  obtain s4 where s4: "(if record_all_responses (cfg e)
         then (let start = response_start (conn i s3) in if start < now then record_latency e (now - start) s3 else None)
         else Some s3) = Some s4" and s': "s' = on_conn i completed s4"
    using assms(4) s3 unfolding response_complete_def Let_def case_prod_beta s1_def [symmetric] s2_def [symmetric] now_def
    by (auto split: bind_splits if_splits)
  have "t_cs (w_thread (fst s4)) = t_cs (w_thread (fst s3))"
    using s4 record_latency_frame(2) [of e _ s3 s4] by (auto simp: Let_def split: if_splits)
  then have c4: "conn i s4 = conn i s3" "valid_conn s4 i" using h(3) by (simp_all add: conn_def valid_conn_def)
  have "outstanding (conn i s') = tl (outstanding (conn i s))" by (simp add: s' conn_on_conn [OF c4(2)] c4(1) q(2))
  moreover have "t_accum_latency (w_thread (fst s')) = t_accum_latency (w_thread (fst s4))"
    by (simp add: s' on_conn_def on_thread_def)
  ultimately show ?thesis
    using s4 record_latency_sum [of e _ s3 s4] t3 q(1) now by (auto simp: Let_def split: if_splits)
qed

text \<open>C2: Over any sequence of sends and completed responses of a connection with nothing outstanding, at most 16384 at a time, the
  responses are given the times of the requests in the order in which these were sent.\<close>

theorem latencies_in_order:
  assumes "ring_ok c" "outstanding c = []" "fits 16384 0 ops"
  shows "queue_run note_start response_start completed ops c = take (takes ops) (puts ops)"
  using lq.run_in_order [of c ops] assms by simp

lemma conn_on_os: "conn i (snd (on_os f s)) = conn i s"
  by (simp add: conn_def on_os_def split: prod.split)

lemma connect_outstanding:
  assumes "valid_conn s i" "connect_socket e i s = Some (rc, s')"
  shows "outstanding (conn i s') = outstanding (conn i s)"
proof -
  define s1 where "s1 = snd (on_os (new_socket e) s)"
  define fd where "fd = fst (on_os (new_socket e) s)"
  define s2 where "s2 = snd (on_os (start_connect e fd) s1)"
  let ?fail = "\<lambda>s. (-1, put_os (close_fd e fd) (on_errors (\<lambda>er. er\<lparr>err_connect := err_connect er + 1\<rparr>) s))"
  have fail: "conn i (snd (?fail s)) = conn i s" for s :: "('a, 'b) wrk_state"
    by (simp add: conn_def on_errors_def on_thread_def put_os_def)
  have c2: "conn i s2 = conn i s" "valid_conn s2 i" using assms(1) by (simp_all add: s2_def s1_def conn_on_os)
  have r: "(if \<not> fst (on_os (start_connect e fd) s1) then Some (?fail s2)
      else case create_file_event e fd (AE_READABLE OR AE_WRITABLE) P_socket_connected i s2 of None \<Rightarrow> None
       | Some (rc, s3) \<Rightarrow> Some (if rc = AE_OK then (fd, on_conn i (\<lambda>c. c\<lparr>c_fd := fd\<rparr>) s3) else ?fail s3))
      = Some (rc, s')"
    using assms(2) unfolding connect_socket_def Let_def case_prod_beta s2_def s1_def fd_def .
  show ?thesis
  proof (cases "fst (on_os (start_connect e fd) s1)")
    case False
    then show ?thesis using r fail [of s2] c2 by auto
  next
    case True
    then obtain rc3 s3 where s3: "create_file_event e fd (AE_READABLE OR AE_WRITABLE) P_socket_connected i s2 = Some (rc3, s3)"
      using r by (auto split: option.splits)
    have "fst s3 = fst s2" using s3 by (auto simp: create_file_event_def)
    then have c3: "conn i s3 = conn i s" "valid_conn s3 i" using c2 by (simp_all add: conn_def valid_conn_def)
    have "outstanding (conn i (on_conn i (\<lambda>c. c\<lparr>c_fd := fd\<rparr>) s3)) = outstanding (conn i s)"
      by (simp add: conn_on_conn [OF c3(2)] c3(1) outstanding_def)
    then show ?thesis using r True s3 fail [of s3] c3(1) by (auto split: if_splits)
  qed
qed


section \<open>An example\<close>

text \<open>
  A system of which only the clock matters, one connection, and histograms of one digit: used to show that the
  hypotheses of the properties can hold.
\<close>

definition demo_sock :: "u64 sock" where
  "demo_sock =
     \<lparr>sk_connect = (\<lambda>i fd ow. (NET_OK, ow)), sk_close = (\<lambda>i fd ow. ow),
      sk_read = (\<lambda>i fd ow. ((NET_OK, ''HTTP/1.1 204 X'' @ [CR, LF, CR, LF]), ow)),
      sk_write = (\<lambda>i fd s ow. ((NET_OK, length s), ow)), sk_readable = (\<lambda>i fd ow. (0, ow))\<rparr>"

definition demo_config :: config where
  "demo_config =
     \<lparr>cfg_threads = 1, cfg_connections = 1, cfg_dist = 0, cfg_duration = 10, cfg_timeout = 2000, cfg_pipeline = 0,
      cfg_rate = 1000, cfg_delay_ms = 0, cfg_latency = False, cfg_dynamic = False, record_all_responses = True,
      print_all_responses = False, print_realtime_latency = False, cfg_script = None\<rparr>"

definition demo_setup :: "(u64, epoll_state) wrk_setup" where
  "demo_setup =
     \<lparr>cfg = demo_config, sock = demo_sock, time_us = (\<lambda>ow. (ow, max ow (ow + 1))), new_socket = (\<lambda>ow. (5, ow)),
      start_connect = (\<lambda>fd ow. (0 \<le> fd, ow)), close_fd = (\<lambda>fd ow. ow), script_request = (\<lambda>ow. (''GET'', ow)),
      call_response = (\<lambda>code hs b ow. ow), want_response = False, gen_exp = (\<lambda>v ow. (v, ow)), gen_zipf = (\<lambda>v ow. (v, ow)),
      api_add_event = epoll_ApiAddEvent, api_del_event = epoll_ApiDelEvent\<rparr>"

definition demo_histogram :: hdr_histogram where
  "demo_histogram = (case hdr_init True 1 1000 1 of Some (Inr h) \<Rightarrow> h)"

definition demo_state :: "connection \<Rightarrow> (u64, epoll_state) wrk_state" where
  "demo_state c =
     (\<lparr>w_thread = \<lparr>t_tid = 0, t_connections = 1, t_interval = 0, t_stop_at = 10000000, t_complete = 0, t_requests = 0,
         t_monitored = 0, t_target = 100, t_accum_latency = 0, t_bytes = 0, t_start = 0, t_mean = 0, t_throughput = 1000,
         latency_histogram = demo_histogram, real_latency_histogram = demo_histogram,
         t_errors = \<lparr>err_connect = 0, err_read = 0, err_write = 0, err_status = 0, err_timeout = 0\<rparr>, t_cs = [c]\<rparr>,
       w_os = 900, statistics_requests = stats_alloc 10, raw_latency = Map.empty, stop_signal = False, printed = []\<rparr>,
      the (aeCreateEventLoop (Some no_epoll) 0 10))"

lemma demo_ok: "system_ok demo_setup" "clock_ok demo_setup id"
  by (simp_all add: system_ok_def clock_ok_def demo_setup_def demo_sock_def RECVBUF_def)

definition demo_sent :: connection where
  "demo_sent = zero_connection\<lparr>c_sent := 1, actual_latency_start := 500 # replicate 16383 0\<rparr>"

lemma demo_outstanding: "outstanding demo_sent = [500]" "ring_ok demo_sent" "valid_conn (demo_state demo_sent) 0"
  "conn 0 (demo_state demo_sent) = demo_sent"
  by (simp_all add: outstanding_def ring_ok_def demo_sent_def zero_connection_def MAXO_def demo_state_def valid_conn_def conn_def)

lemma demo_recorded: obtains h where "hdr_record_value demo_histogram 400 = Some (True, h)"
proof -
  have "map_option fst (hdr_record_value demo_histogram 400) = Some True" by code_simp
  then show ?thesis using that by auto
qed

lemma response_takes_oldest_witness:
  "\<exists>s'. response_complete demo_setup 0 200 True (demo_state demo_sent) = Some (True, s') \<and>
    outstanding (conn 0 s') = [] \<and> t_accum_latency (w_thread (fst s')) = 400"
proof -
  obtain h where h: "hdr_record_value demo_histogram 400 = Some (True, h)" by (rule demo_recorded)
  have "\<exists>s'. response_complete demo_setup 0 200 True (demo_state demo_sent) = Some (True, s')"
    by (simp add: response_complete_def demo_state_def demo_setup_def demo_config_def demo_sent_def zero_connection_def on_os_def
      on_thread_def on_errors_def hand_over_def conn_def on_conn_def no_text_def no_buffer_def response_text_complete_def
      response_start_def MAXO_def record_latency_def h Let_def)
  then obtain s' where s': "response_complete demo_setup 0 200 True (demo_state demo_sent) = Some (True, s')" by blast
  then show ?thesis
    using response_takes_oldest [OF demo_outstanding(3) _ _ s'] demo_outstanding
    by (simp add: demo_state_def demo_setup_def demo_config_def)
qed

lemma latencies_in_order_witness:
  "queue_run note_start response_start completed [Put 7, Put 9, Take, Put 12, Take] zero_connection = [7, 9]"
  using latencies_in_order [of zero_connection "[Put 7, Put 9, Take, Put 12, Take]"]
  by (simp add: ring_ok_def outstanding_def zero_connection_def MAXO_def del: queue_run.simps)


end
