(* ===== verification/Ae_Run.thy ===== *)
theory Ae_Run
  imports Ae_Loop
begin

text \<open>
  A property of the world and the loop that every procedure, every reading of the clock and the poll keep is kept by the whole event
  loop. It must imply that the timers have distinct identifiers, and the loop's own bookkeeping (the
  list of timers, the last time, the stop flag) must not matter to it otherwise.
\<close>

definition env_keeps ::
  "('w, 'p, 'd, 'a) ae_env \<Rightarrow> ('w \<times> ('p, 'd, 'a) aeEventLoop \<Rightarrow> bool) \<Rightarrow> bool" where
  "env_keeps env I \<longleftrightarrow>
     (\<forall>w l. I (w, l) \<longrightarrow> I (snd (clock env w), l) \<and> I (snd (unix_time env w), l)) \<and>
     (\<forall>p fd d m s s'. 0 \<le> fd \<longrightarrow> I s \<longrightarrow> run_file env p fd d m s = Some s' \<longrightarrow> I s') \<and>
     (\<forall>p i d s r s'. I s \<longrightarrow> run_time env p i d s = Some (r, s') \<longrightarrow> I s') \<and>
     (\<forall>p s s'. I s \<longrightarrow> run_other env p s = Some s' \<longrightarrow> I s') \<and>
     (\<forall>t s n s'. I s \<longrightarrow> poll env t s = Some (n, s') \<longrightarrow> I s') \<and>
     (\<forall>w l. I (w, l) \<longrightarrow> timers_ok l) \<and>
     (\<forall>w l ts n. I (w, l) \<longrightarrow> timers_ok (l\<lparr>timeEventHead := ts\<rparr>) \<longrightarrow> I (w, l\<lparr>timeEventHead := ts, lastTime := n\<rparr>)) \<and>
     (\<forall>w l b. I (w, l) \<longrightarrow> I (w, l\<lparr>stop := b\<rparr>))"

lemma env_keepsD:
  assumes "env_keeps env I"
  shows "I (w, l) \<Longrightarrow> I (snd (clock env w), l)" "I (w, l) \<Longrightarrow> I (snd (unix_time env w), l)"
    "0 \<le> fd \<Longrightarrow> I s \<Longrightarrow> run_file env p fd d m s = Some s' \<Longrightarrow> I s'"
    "I s \<Longrightarrow> run_time env p i td s = Some (r, s') \<Longrightarrow> I s'" "I s \<Longrightarrow> run_other env p s = Some s' \<Longrightarrow> I s'"
    "I s \<Longrightarrow> poll env t s = Some (n, s') \<Longrightarrow> I s'" "I s \<Longrightarrow> timers_ok (snd s)"
    "I (w, l) \<Longrightarrow> timers_ok (l\<lparr>timeEventHead := ts\<rparr>) \<Longrightarrow> I (w, l\<lparr>timeEventHead := ts, lastTime := k\<rparr>)"
    "I (w, l) \<Longrightarrow> I (w, l\<lparr>stop := b\<rparr>)"
proof -
  note a = assms [unfolded env_keeps_def]
  note a2 = conjunct2 [OF a] and a1 = conjunct1 [OF a, rule_format]
  note a3 = conjunct2 [OF a2] and a4 = conjunct2 [OF conjunct2 [OF a2]]
  note a5 = conjunct2 [OF a4] and a6 = conjunct2 [OF conjunct2 [OF a4]]
  note a7 = conjunct2 [OF a6]
  show "I (w, l) \<Longrightarrow> I (snd (clock env w), l)" "I (w, l) \<Longrightarrow> I (snd (unix_time env w), l)"
    by (rule conjunct1 [OF a1], assumption) (rule conjunct2 [OF a1], assumption)
  show "0 \<le> fd \<Longrightarrow> I s \<Longrightarrow> run_file env p fd d m s = Some s' \<Longrightarrow> I s'" by (rule conjunct1 [OF a2, rule_format])
  show "I s \<Longrightarrow> run_time env p i td s = Some (r, s') \<Longrightarrow> I s'" by (rule conjunct1 [OF a3, rule_format])
  show "I s \<Longrightarrow> run_other env p s = Some s' \<Longrightarrow> I s'" by (rule conjunct1 [OF a4, rule_format])
  show "I s \<Longrightarrow> poll env t s = Some (n, s') \<Longrightarrow> I s'" by (rule conjunct1 [OF a5, rule_format])
  show "I s \<Longrightarrow> timers_ok (snd s)" using conjunct1 [OF a6, rule_format, of "fst s" "snd s"] by simp
  show "I (w, l) \<Longrightarrow> timers_ok (l\<lparr>timeEventHead := ts\<rparr>) \<Longrightarrow> I (w, l\<lparr>timeEventHead := ts, lastTime := k\<rparr>)"
    by (rule conjunct1 [OF a7, rule_format])
  show "I (w, l) \<Longrightarrow> I (w, l\<lparr>stop := b\<rparr>)" by (rule conjunct2 [OF a7, rule_format])
qed

lemma env_keeps_timers:
  assumes "env_keeps env I" "I (w, l)" "timers_ok (l\<lparr>timeEventHead := ts\<rparr>)"
  shows "I (w, l\<lparr>timeEventHead := ts\<rparr>)"
  using env_keepsD(8) [OF assms, of "lastTime l"] by simp

lemma set_when_ids: "set_when i t ts = Some ts' \<Longrightarrow> map te_id ts' = map te_id ts"
  by (induction ts arbitrary: ts') (auto split: if_splits)

lemma unlink_timer_ids:
  "unlink_timer i ts = Some (te, ts') \<Longrightarrow> set ts' \<subseteq> set ts \<and> (distinct (map te_id ts) \<longrightarrow> distinct (map te_id ts'))"
proof (induction ts arbitrary: ts')
  case (Cons t ts)
  show ?case
  proof (cases "te_id t = i")
    case False
    then obtain us where "unlink_timer i ts = Some (te, us)" "ts' = t # us" using Cons.prems by auto
    then show ?thesis using Cons.IH [of us] by auto
  qed (use Cons.prems in auto)
qed simp

lemma timers_ok_ids:
  assumes "timers_ok l" "map te_id ts = map te_id (timeEventHead l)"
  shows "timers_ok (l\<lparr>timeEventHead := ts\<rparr>)"
proof -
  have "te_id ` set ts = te_id ` set (timeEventHead l)" using assms(2) by (metis set_map)
  moreover have "\<forall>i \<in> te_id ` set (timeEventHead l). 0 \<le> i \<and> i < timeEventNextId l"
    using assms(1) by (auto simp: timers_ok_def)
  ultimately have "\<forall>te \<in> set ts. 0 \<le> te_id te \<and> te_id te < timeEventNextId l" by (metis image_eqI)
  then show ?thesis using assms by (simp add: timers_ok_def)
qed

lemma delete_time_keeps:
  assumes k: "env_keeps env I" and i: "I s" and d: "aeDeleteTimeEvent env n s = Some (rc, s')"
  shows "I s'"
proof (cases "unlink_timer n (timeEventHead (snd s))")
  case None
  then show ?thesis using i d by (simp add: aeDeleteTimeEvent_def case_prod_beta Let_def)
next
  case (Some r)
  obtain te ts where r: "r = (te, ts)" by (cases r)
  have "timers_ok ((snd s)\<lparr>timeEventHead := ts\<rparr>)"
    using unlink_timer_ids [of n "timeEventHead (snd s)" te ts] Some r env_keepsD(7) [OF k i] by (auto simp: timers_ok_def)
  then have "I (fst s, (snd s)\<lparr>timeEventHead := ts\<rparr>)" using env_keeps_timers [OF k, of "fst s" "snd s"] i by simp
  then show ?thesis using d Some r env_keepsD(5) [OF k]
    by (auto simp: aeDeleteTimeEvent_def case_prod_beta Let_def split: option.splits)
qed

lemma after_time_proc_keeps:
  assumes k: "env_keeps env I" and i: "I s" and a: "after_time_proc env n r s = Some s'"
  shows "I s'"
proof (cases "r = AE_NOMORE")
  case True
  then obtain rc where "aeDeleteTimeEvent env n s = Some (rc, s')"
    using a by (auto simp: after_time_proc_def case_prod_beta Let_def)
  then show ?thesis by (rule delete_time_keeps [OF k i])
next
  case False
  obtain t w where t: "aeAddMillisecondsToNow (clock env) r (fst s) = (t, w)"
    by (cases "aeAddMillisecondsToNow (clock env) r (fst s)")
  then have w: "w = snd (clock env (fst s))"
    by (auto simp: aeAddMillisecondsToNow_def aeGetTime_def Let_def split: prod.splits if_splits)
  obtain ts where ts: "set_when n t (timeEventHead (snd s)) = Some ts" "s' = (w, (snd s)\<lparr>timeEventHead := ts\<rparr>)"
    using a False t by (auto simp: after_time_proc_def case_prod_beta Let_def)
  have "I (w, snd s)" using env_keepsD(1) [OF k, of "fst s" "snd s"] i w by simp
  moreover have "timers_ok ((snd s)\<lparr>timeEventHead := ts\<rparr>)"
    by (rule timers_ok_ids [OF env_keepsD(7) [OF k i] set_when_ids [OF ts(1)]])
  ultimately show ?thesis using env_keeps_timers [OF k] ts(2) by simp
qed

lemma time_walk_keeps:
  "time_walk env m rest n s = Some (n', s') \<Longrightarrow> env_keeps env I \<longrightarrow> I s \<longrightarrow> I s'"
proof -
  have "time_walk env m rest n s = Some y \<Longrightarrow> env_keeps env I \<longrightarrow> I s \<longrightarrow> I (snd y)" for y
  proof (rule time_walk.raw_induct [where P = "\<lambda>env m rest n s y. env_keeps env I \<longrightarrow> I s \<longrightarrow> I (snd y)"])
    fix walk env m rest n and s :: "'a \<times> ('b, 'c, 'd) aeEventLoop" and y
    assume IH: "\<And>env m rest n s y. walk env m rest n s = Some y \<Longrightarrow> env_keeps env I \<longrightarrow> I s \<longrightarrow> I (snd y)"
      and b: "(case rest of [] \<Rightarrow> Some (n, s)
        | te # ts \<Rightarrow>
            if m < te_id te then walk env m ts n s
            else (let (now, w') = aeGetTime (clock env) (fst s); s1 = (w', snd s)
                  in if due now te
                     then (case run_time env (timeProc te) (te_id te) (te_clientData te) s1 of
                             None \<Rightarrow> None
                           | Some (retval, s2) \<Rightarrow>
                               (case after_time_proc env (te_id te) retval s2 of
                                  None \<Rightarrow> None
                                | Some s3 \<Rightarrow> walk env m (timeEventHead (snd s3)) (Suc n) s3))
                     else walk env m ts n s1)) = Some y"
    show "env_keeps env I \<longrightarrow> I s \<longrightarrow> I (snd y)"
    proof (intro impI)
      assume k: "env_keeps env I" and i: "I s"
      show "I (snd y)"
      proof (cases rest)
        case (Cons te ts)
        obtain now w where c: "aeGetTime (clock env) (fst s) = (now, w)" by (cases "aeGetTime (clock env) (fst s)")
        have i1: "I (w, snd s)" using env_keepsD(1) [OF k, of "fst s" "snd s"] i c by (simp add: aeGetTime_def)
        show ?thesis
        proof (cases "m < te_id te \<or> \<not> due now te")
          case True
          then show ?thesis using b Cons c IH [of env m ts n _ y] k i i1 by (auto split: if_splits)
        next
          case False
          then obtain r s2 s3 where "run_time env (timeProc te) (te_id te) (te_clientData te) (w, snd s) = Some (r, s2)"
            "after_time_proc env (te_id te) r s2 = Some s3" "walk env m (timeEventHead (snd s3)) (Suc n) s3 = Some y"
            using b Cons c by (auto split: option.splits)
          then show ?thesis using env_keepsD(4) [OF k i1] after_time_proc_keeps [OF k] IH k by blast
        qed
      qed (use b i in auto)
    qed
  qed
  then show "time_walk env m rest n s = Some (n', s') \<Longrightarrow> env_keeps env I \<longrightarrow> I s \<longrightarrow> I s'" by fastforce
qed

lemma processTimeEvents_keeps:
  assumes k: "env_keeps env I" and i: "I s" and p: "processTimeEvents env s = Some (n, s')"
  shows "I s'"
proof -
  obtain now w where u: "unix_time env (fst s) = (now, w)" by (cases "unix_time env (fst s)")
  let ?ts = "timeEventHead (clock_skew now (snd s))"
  have "map te_id ?ts = map te_id (timeEventHead (snd s))" by (simp add: clock_skew_def)
  then have "timers_ok ((snd s)\<lparr>timeEventHead := ?ts\<rparr>)" by (rule timers_ok_ids [OF env_keepsD(7) [OF k i]])
  moreover have "I (w, snd s)" using env_keepsD(2) [OF k, of "fst s" "snd s"] i u by simp
  moreover have "clock_skew now (snd s) = (snd s)\<lparr>timeEventHead := ?ts, lastTime := now\<rparr>" by (simp add: clock_skew_def)
  ultimately have "I (w, clock_skew now (snd s))" using env_keepsD(8) [OF k] by metis
  then show ?thesis using p u time_walk_keeps k by (fastforce simp: processTimeEvents_def Let_def)
qed

lemma fire_event_keeps:
  assumes k: "env_keeps env I" and i: "I s" and f: "fire_event env fd m s = Some s'"
  shows "I s'"
proof -
  have fd: "0 \<le> fd" using f by (auto simp: fire_event_def array_get_def split: if_splits)
  have r: "I t \<Longrightarrow> run_file env p fd d m t = Some t' \<Longrightarrow> I t'" for p d m t t'
    by (rule env_keepsD(3) [OF k fd])
  obtain fe where fe: "array_get (events (snd s)) fd = Some fe" using f by (auto simp: fire_event_def split: bind_splits)
  define s1 where "s1 = (if has_event (fe_mask fe AND m) AE_READABLE
    then Option.bind (rfileProc fe) (\<lambda>r. run_file env r fd (fe_clientData fe) m s) else Some s)"
  obtain t where t: "s1 = Some t" using f fe by (cases s1) (auto simp: fire_event_def s1_def Let_def)
  have it: "I t" using t i r [of s _ _ _ t] by (auto simp: s1_def bind_eq_Some_conv simp del: split_paired_All split: if_splits)
  show ?thesis
    using f fe t it unfolding fire_event_def s1_def Let_def
    by (cases s') (auto simp: bind_eq_Some_conv split: if_splits dest: r)
qed

lemma fire_events_keeps:
  assumes k: "env_keeps env I"
  shows "I s \<Longrightarrow> fire_events env j n s = Some s' \<Longrightarrow> I s'"
proof (induction n arbitrary: j s)
  case (Suc n)
  then obtain s1 where "fire_event env (fired_fd (fired (snd s) ! j)) (fired_mask (fired (snd s) ! j)) s = Some s1"
    "fire_events env (Suc j) n s1 = Some s'" by (auto simp: Let_def split: if_splits option.splits)
  then show ?case using fire_event_keeps [OF k Suc.prems(1)] Suc.IH by blast
qed simp

lemma poll_wait_keeps:
  assumes k: "env_keeps env I" and i: "I s"
  shows "I (snd (poll_wait env fl s))"
proof -
  have "I (snd (aeGetTime (clock env) (fst s)), snd s)"
    using env_keepsD(1) [OF k, of "fst s" "snd s"] i by (simp add: aeGetTime_def)
  then show ?thesis using i by (simp add: poll_wait_def case_prod_beta Let_def split: option.split)
qed

lemma aeProcessEvents_keeps:
  assumes k: "env_keeps env I" and i: "I s" and p: "aeProcessEvents env fl s = Some (n, s')"
  shows "I s'"
proof (cases "\<not> has_event fl AE_TIME_EVENTS \<and> \<not> has_event fl AE_FILE_EVENTS")
  case True
  then show ?thesis using p i by (simp add: aeProcessEvents_def)
next
  case False
  define body where "body = (if maxfd (snd s) \<noteq> -1 \<or> has_event fl AE_TIME_EVENTS \<and> \<not> has_event fl AE_DONT_WAIT
     then do {
       let (tvp, s') = poll_wait env fl s;
       (n, s'') \<leftarrow> poll env tvp s';
       t \<leftarrow> fire_events env 0 n s'';
       Some (n, t)
     }
     else Some (0, s))"
  obtain m s1 where b: "body = Some (m, s1)" using p False
    unfolding aeProcessEvents_def body_def [symmetric] by (cases body) auto
  then have r: "(if has_event fl AE_TIME_EVENTS
        then do { (n, s2) \<leftarrow> processTimeEvents env s1; Some (m + n, s2) } else Some (m, s1)) = Some (n, s')"
    using p False unfolding aeProcessEvents_def body_def [symmetric] by simp
  have "I s1"
  proof (cases "maxfd (snd s) \<noteq> -1 \<or> has_event fl AE_TIME_EVENTS \<and> \<not> has_event fl AE_DONT_WAIT")
    case False
    then have "body = Some (0, s)" unfolding body_def by (rule if_not_P)
    then show ?thesis using b i by simp
  next
    case True
    obtain tvp s2 where w: "poll_wait env fl s = (tvp, s2)" by (rule that [OF prod.collapse [symmetric]])
    have "I s2" using poll_wait_keeps [OF k i, of fl] w by simp
    moreover obtain s3 where "poll env tvp s2 = Some (m, s3)" "fire_events env 0 m s3 = Some s1"
      using b True w by (auto simp: body_def Let_def bind_eq_Some_conv)
    ultimately show ?thesis using env_keepsD(6) [OF k] fire_events_keeps [OF k] by blast
  qed
  then show ?thesis using r processTimeEvents_keeps [OF k, of s1]
    by (cases "has_event fl AE_TIME_EVENTS") (auto simp: bind_eq_Some_conv)
qed

lemma main_loop_keeps:
  "main_loop env s = Some s' \<Longrightarrow> env_keeps env I \<longrightarrow> I s \<longrightarrow> I s' \<and> stop (snd s')"
proof (rule main_loop.raw_induct [where P = "\<lambda>env s s'. env_keeps env I \<longrightarrow> I s \<longrightarrow> I s' \<and> stop (snd s')"])
  fix loop env and s :: "'a \<times> ('b, 'c, 'd) aeEventLoop" and s'
  assume IH: "\<And>env s s'. loop env s = Some s' \<Longrightarrow> env_keeps env I \<longrightarrow> I s \<longrightarrow> I s' \<and> stop (snd s')"
    and b: "(if stop (snd s) then Some s
      else (case (case beforesleep (snd s) of None \<Rightarrow> Some s | Some f \<Rightarrow> run_other env f s) of
              None \<Rightarrow> None
            | Some s1 \<Rightarrow>
                (case aeProcessEvents env AE_ALL_EVENTS s1 of
                   None \<Rightarrow> None
                 | Some (n, s2) \<Rightarrow> loop env s2))) = Some s'"
  show "env_keeps env I \<longrightarrow> I s \<longrightarrow> I s' \<and> stop (snd s')"
  proof (intro impI)
    assume k: "env_keeps env I" and i: "I s"
    show "I s' \<and> stop (snd s')"
    proof (cases "stop (snd s)")
      case False
      then obtain s1 n s2 where 1: "(case beforesleep (snd s) of None \<Rightarrow> Some s | Some f \<Rightarrow> run_other env f s) = Some s1"
        "aeProcessEvents env AE_ALL_EVENTS s1 = Some (n, s2)" "loop env s2 = Some s'"
        using b by (auto split: option.splits)
      then have "I s1" using i env_keepsD(5) [OF k i] by (auto split: option.splits)
      then show ?thesis using aeProcessEvents_keeps [OF k _ 1(2)] IH [OF 1(3)] k by blast
    qed (use b i in auto)
  qed
qed

lemma aeMain_keeps:
  assumes k: "env_keeps env I" and i: "I s" and m: "aeMain env s = Some s'"
  shows "I s' \<and> stop (snd s')"
proof -
  have "I (fst s, (snd s)\<lparr>stop := False\<rparr>)" using env_keepsD(9) [OF k, of "fst s" "snd s"] i by simp
  then show ?thesis using main_loop_keeps m k unfolding aeMain_def by blast
qed

end
