(* ===== verification/Wrk_Run.thy ===== *)
theory Wrk_Run
  imports Wrk_Latency Ae_Run
begin

text \<open>
  The runs of a thread: any sequence of its procedures, in any order, with any changes outside the program in between;
  and the loop that calls them.
\<close>

section \<open>The steps of a thread\<close>

text \<open>
  A step is a procedure that the loop calls, or a change of what the program does not control: the system, the
  statistics that other threads record in too, the events that fired, the stop flags, and the loop's own list of timers. A connection is first connected once, by its timer,
  before anything is sent on it.
\<close>

inductive thread_step :: "('o, 'a) wrk_setup \<Rightarrow> ('o, 'a) wrk_state \<Rightarrow> ('o, 'a) wrk_state \<Rightarrow> bool" for e where
  on_file: "0 \<le> fd \<Longrightarrow> file_proc e pr fd d s = Some s' \<Longrightarrow> thread_step e s s'"
| on_timer: "time_proc e pr d s = Some (r, s') \<Longrightarrow>
    (\<And>i. pr = P_delayed_initial_connect \<Longrightarrow> d = Conn i \<Longrightarrow> c_sent (conn i s) = 0 \<and> c_estimate (conn i s) = 0) \<Longrightarrow>
    thread_step e s s'"
| outside: "timers_ok (l\<lparr>timeEventHead := ts\<rparr>) \<Longrightarrow>
    thread_step e (w, l) (w\<lparr>w_os := ow, statistics_requests := st, stop_signal := b\<rparr>,
      l\<lparr>timeEventHead := ts, lastTime := n, fired := fs, stop := b'\<rparr>)"

inductive thread_run :: "('o, 'a) wrk_setup \<Rightarrow> ('o, 'a) wrk_state \<Rightarrow> nat \<Rightarrow> ('o, 'a) wrk_state \<Rightarrow> bool" for e s0 where
  run_none: "thread_run e s0 0 s0"
| run_step: "thread_run e s0 n s \<Longrightarrow> thread_step e s s' \<Longrightarrow> thread_run e s0 (Suc n) s'"

lemma loop_ok_frame:
  assumes "loop_ok l" "timers_ok (l\<lparr>timeEventHead := ts\<rparr>)"
  shows "loop_ok (l\<lparr>timeEventHead := ts, lastTime := n, fired := fs, stop := b\<rparr>)"
proof -
  have "file_ok r a (l\<lparr>timeEventHead := ts, lastTime := n, fired := fs, stop := b\<rparr>) = file_ok r a l" for r a
    by (simp add: file_ok_def in_set_def event_mask_def)
  then show ?thesis using assms by (simp add: loop_ok_def timers_ok_def)
qed

text \<open>Once \<open>k\<close> is out of reach the pacing is no longer claimed, and the first connection is like any other.\<close>

lemma delayed_initial_connect_keeps:
  assumes "system_ok e" "thread_ok e k s" "valid_conn s i" "delayed_initial_connect e i s = Some (r, s')"
    and "2 ^ 64 - 1 \<le> k \<or> c_sent (conn i s) = 0 \<and> c_estimate (conn i s) = 0"
  shows "kept e k s s'"
proof (cases "2 ^ 64 - 1 \<le> k")
  case True
  define now where "now = fst (on_os (time_us e) s)"
  let ?s2 = "on_conn i (\<lambda>c. c\<lparr>c_thread_start := now, c_thread_next := now\<rparr>) (snd (on_os (time_us e) s))"
  have "thread_ok e k ?s2"
    by (rule thread_ok_on_conn) (use assms(2) True in \<open>simp_all add: conn_ok_def\<close>)
  moreover obtain rc where "connect_socket e i ?s2 = Some (rc, s')"
    using assms(4) by (auto simp: delayed_initial_connect_def now_def case_prod_beta Let_def)
  ultimately show ?thesis using connect_keeps [OF assms(1)] by (auto simp: kept_def)
next
  case False
  then show ?thesis using delayed_initial_connect_paced [OF assms(1-3)] assms(4,5) by blast
qed

lemma file_proc_keeps:
  assumes "system_ok e" "clock_ok e now" "thread_ok e k s" "0 \<le> fd" "file_proc e pr fd d s = Some s'"
  shows "kept e (Suc k) s s'"
proof -
  obtain i where d: "d = Some (Conn i)" and v: "valid_conn s i"
    using assms(5) by (cases "(e, pr, fd, d, s)" rule: file_proc.cases) (auto split: if_splits)
  consider (connected) "pr = P_socket_connected" "socket_connected e i fd s = Some s'"
    | (writeable) "pr = P_socket_writeable" "socket_writeable e i fd s = Some s'"
    | (readable) "pr = P_socket_readable" "socket_readable e i s = Some s'"
    using assms(5) d v by (cases pr) auto
  then show ?thesis
  proof cases
    case connected
    then show ?thesis using socket_connected_keeps [OF assms(1,3) v assms(4)] kept_mono by (metis le_SucI order.refl)
  next
    case writeable
    then show ?thesis using socket_writeable_keeps [OF assms(1,3) v assms(2,4)] by blast
  next
    case readable
    then show ?thesis using socket_readable_result_keeps [OF readable(2), of k s] assms(1,3) v kept_refl kept_mono
      by (metis le_SucI order.refl)
  qed
qed

lemma time_proc_keeps:
  assumes "system_ok e" "clock_ok e now" "thread_ok e k s" "time_proc e pr d s = Some (r, s')"
    and "\<And>i. pr = P_delayed_initial_connect \<Longrightarrow> d = Conn i \<Longrightarrow>
      2 ^ 64 - 1 \<le> k \<or> c_sent (conn i s) = 0 \<and> c_estimate (conn i s) = 0"
  shows "kept e k s s'"
proof (cases d)
  case (Conn i)
  then consider "pr = P_delayed_initial_connect" "valid_conn s i" "delayed_initial_connect e i s = Some (r, s')"
    | "pr = P_delay_request" "valid_conn s i" "delay_request e i s = Some (r, s')"
    using assms(4) by (cases pr) (auto split: if_splits)
  then show ?thesis
    using delayed_initial_connect_keeps [OF assms(1,3)] delay_request_keeps [OF assms(1,3) _ assms(2)] assms(5) Conn
    by cases blast+
next
  case Thread
  then consider "calibrate e s = Some (r, s')" | "sample_rate e s = Some (r, s')" | "check_timeouts e s = (r, s')"
    using assms(4) by (cases pr) auto
  then show ?thesis
    using calibrate_keeps [OF assms(3)] sample_rate_keeps [OF assms(3)] check_timeouts_keeps [OF assms(3)]
    by cases (blast, blast, metis snd_conv)
qed

lemma thread_step_keeps:
  assumes "system_ok e" "clock_ok e now" "thread_ok e k s" "thread_step e s s'"
  shows "thread_ok e (Suc k) s'"
  using assms(4)
proof (cases rule: thread_step.cases)
  case (on_file fd pr d)
  then show ?thesis using file_proc_keeps [OF assms(1-3)] by (simp add: kept_def)
next
  case (on_timer pr d r)
  then have "kept e k s s'" using time_proc_keeps [OF assms(1-3)] by blast
  then show ?thesis using thread_ok_mono [of e k s' "Suc k"] by (simp add: kept_def)
next
  case (outside l ts w ow st b n fs b')
  then have "thread_ok e k s'"
    using assms(3) loop_ok_frame [OF _ outside(3)] by (auto simp: thread_ok_def conns_ok_def)
  then show ?thesis using thread_ok_mono [of e k s' "Suc k"] by simp
qed

lemma thread_run_keeps:
  assumes "thread_run e s0 n s" "system_ok e" "clock_ok e now" "thread_ok e 0 s0"
  shows "thread_ok e n s"
  using assms(1) by induction (use assms(2-4) thread_step_keeps in blast)+

section \<open>The loop of a thread\<close>

definition wait_ok ::
  "((int \<times> int) option \<Rightarrow> ('o, 'a) wrk_state \<Rightarrow> (nat \<times> ('o, 'a) wrk_state) option) \<Rightarrow> bool" where
  "wait_ok wait \<longleftrightarrow> (\<forall>t s n s'. wait t s = Some (n, s') \<longrightarrow>
     (\<exists>ow b fs. s' = ((fst s)\<lparr>w_os := ow, stop_signal := b\<rparr>, (snd s)\<lparr>fired := fs\<rparr>)))"

lemma thread_ok_unpaced:
  assumes "2 ^ 64 - 1 \<le> k" "2 ^ 64 - 1 \<le> k'"
  shows "thread_ok e k s = thread_ok e k' s"
  using assms by (simp add: thread_ok_def conns_ok_def conn_ok_def)

lemma thread_env_keeps:
  assumes "system_ok e" "clock_ok e now" "wait_ok wait"
  shows "env_keeps (thread_env e wait) (thread_ok e (2 ^ 64))"
  unfolding env_keeps_def
proof (intro conjI allI impI)
  note k = thread_ok_unpaced [of "Suc (2 ^ 64)" "2 ^ 64" e]
  show "thread_ok e (2 ^ 64) (snd (clock (thread_env e wait) w), l)"
    "thread_ok e (2 ^ 64) (snd (unix_time (thread_env e wait) w), l)" if "thread_ok e (2 ^ 64) (w, l)" for w l
    using that by (simp_all add: thread_env_def loop_clock_def case_prod_beta Let_def thread_ok_def conns_ok_def)
  show "thread_ok e (2 ^ 64) s'" if "0 \<le> fd" "thread_ok e (2 ^ 64) s" "run_file (thread_env e wait) pr fd d m s = Some s'"
    for pr fd d m s s' using file_proc_keeps [OF assms(1,2) that(2,1)] that(3) k by (simp add: thread_env_def kept_def)
  show "thread_ok e (2 ^ 64) s'" if "thread_ok e (2 ^ 64) s" "run_time (thread_env e wait) pr i d s = Some (r, s')"
    for pr i d s r s' using time_proc_keeps [OF assms(1,2) that(1)] that(2) by (simp add: thread_env_def kept_def)
  show "thread_ok e (2 ^ 64) s'" if "run_other (thread_env e wait) pr s = Some s'" for pr s s'
    using that by (simp add: thread_env_def)
  show "thread_ok e (2 ^ 64) s'" if i: "thread_ok e (2 ^ 64) s" and r: "poll (thread_env e wait) t s = Some (n, s')" for t s n s'
  proof -
    obtain ow b fs where "s' = ((fst s)\<lparr>w_os := ow, stop_signal := b\<rparr>, (snd s)\<lparr>fired := fs\<rparr>)"
      using assms(3) [unfolded wait_ok_def, rule_format, of t s n s'] r by (auto simp: thread_env_def)
    then show ?thesis using i by (simp add: thread_ok_def conns_ok_def loop_ok_def file_ok_def in_set_def event_mask_def timers_ok_def)
  qed
  show "timers_ok l" if "thread_ok e (2 ^ 64) (w, l)" for w l using that by (simp add: thread_ok_def loop_ok_def)
  show "thread_ok e (2 ^ 64) (w, l\<lparr>timeEventHead := ts, lastTime := n\<rparr>)"
    if "thread_ok e (2 ^ 64) (w, l)" "timers_ok (l\<lparr>timeEventHead := ts\<rparr>)" for w l ts n
    using that loop_ok_frame [where l = l and ts = ts and n = n and fs = "fired l" and b = "stop l"] by (simp add: thread_ok_def)
  show "thread_ok e (2 ^ 64) (w, l\<lparr>stop := b\<rparr>)" if "thread_ok e (2 ^ 64) (w, l)" for w l b
    using that by (simp add: thread_ok_def loop_ok_def)
qed

lemma thread_loop_safe:
  assumes "system_ok e" "clock_ok e now" "wait_ok wait" "loop_ok (snd s)"
    and "\<forall>c \<in> set (t_cs (w_thread (fst s))). 0 \<le> c_fd c \<and> parser_ok (c_parser c)"
    and "aeMain (thread_env e wait) s = Some s'"
  shows "stop (snd s') \<and> loop_ok (snd s') \<and> (\<forall>c \<in> set (t_cs (w_thread (fst s'))). 0 \<le> c_fd c)"
proof -
  have "thread_ok e (2 ^ 64) s" using assms(4,5) by (simp add: thread_ok_def conns_ok_def conn_ok_def)
  then have "thread_ok e (2 ^ 64) s' \<and> stop (snd s')"
    using aeMain_keeps [OF thread_env_keeps [OF assms(1-3)] _ assms(6)] by blast
  then show ?thesis by (simp add: thread_ok_def conns_ok_def conn_ok_def)
qed

end
