(* ===== verification/Net.thy ===== *)
theory Net
  imports Wrk
begin

text \<open>
  \<open>wrk2/src/net.c\<close> and \<open>wrk2/src/ssl.c\<close>: the operations of \<open>struct sock\<close> on a plain socket and on one under TLS. The
  system calls and the calls of the TLS library are parameters.
\<close>

section \<open>Plain sockets\<close>

text \<open>
  \<open>read\<close> gives the number of bytes, or -1, and the bytes; \<open>write\<close> the number of bytes taken, or -1; \<open>again\<close> tells
  whether \<open>errno\<close> is then \<open>EAGAIN\<close>; \<open>ioctl\<close> with \<open>FIONREAD\<close> the return code and the number of bytes to read.
\<close>

record 'o syscalls =
  sys_read :: "int \<Rightarrow> nat \<Rightarrow> 'o \<Rightarrow> (int \<times> string) \<times> 'o"
  sys_write :: "int \<Rightarrow> string \<Rightarrow> 'o \<Rightarrow> int \<times> 'o"
  again :: "'o \<Rightarrow> bool"
  fionread :: "int \<Rightarrow> 'o \<Rightarrow> (int \<times> nat) \<times> 'o"

definition sock_connect :: "nat \<Rightarrow> int \<Rightarrow> 'o \<Rightarrow> net_status \<times> 'o" where
  "sock_connect i fd ow = (NET_OK, ow)"

definition sock_close :: "nat \<Rightarrow> int \<Rightarrow> 'o \<Rightarrow> 'o" where
  "sock_close i fd ow = ow"

definition sock_read :: "'o syscalls \<Rightarrow> nat \<Rightarrow> int \<Rightarrow> 'o \<Rightarrow> (net_status \<times> string) \<times> 'o" where
  "sock_read sc i fd ow =
     (let ((r, bytes), o') = sys_read sc fd RECVBUF ow in ((if 0 \<le> r then NET_OK else NET_ERROR, take (nat r) bytes), o'))"

definition sock_write :: "'o syscalls \<Rightarrow> nat \<Rightarrow> int \<Rightarrow> string \<Rightarrow> 'o \<Rightarrow> (net_status \<times> nat) \<times> 'o" where
  "sock_write sc i fd bytes ow =
     (let (r, o') = sys_write sc fd bytes ow
      in if r = -1 then ((if again sc o' then NET_RETRY else NET_ERROR, 0), o') else ((NET_OK, nat r), o'))"

definition sock_readable :: "'o syscalls \<Rightarrow> nat \<Rightarrow> int \<Rightarrow> 'o \<Rightarrow> nat \<times> 'o" where
  "sock_readable sc i fd ow = (let ((rc, n), o') = fionread sc fd ow in (if rc = -1 then 0 else n, o'))"

definition plain_sock :: "'o syscalls \<Rightarrow> 'o sock" where
  "plain_sock sc =
     \<lparr>sk_connect = sock_connect, sk_close = sock_close, sk_read = sock_read sc, sk_write = sock_write sc,
      sk_readable = sock_readable sc\<rparr>"

section \<open>Sockets under TLS\<close>

datatype ssl_error = SSL_ERROR_WANT_READ | SSL_ERROR_WANT_WRITE | SSL_ERROR_OTHER

text \<open>The calls on the TLS state of connection \<open>i\<close>; the last is \<open>SSL_shutdown\<close> and \<open>SSL_clear\<close>.\<close>

record 'o ssl_calls =
  SSL_connect :: "nat \<Rightarrow> int \<Rightarrow> 'o \<Rightarrow> int \<times> 'o"
  SSL_read :: "nat \<Rightarrow> nat \<Rightarrow> 'o \<Rightarrow> (int \<times> string) \<times> 'o"
  SSL_write :: "nat \<Rightarrow> string \<Rightarrow> 'o \<Rightarrow> int \<times> 'o"
  SSL_get_error :: "nat \<Rightarrow> int \<Rightarrow> 'o \<Rightarrow> ssl_error"
  SSL_pending :: "nat \<Rightarrow> 'o \<Rightarrow> nat"
  SSL_shut :: "nat \<Rightarrow> 'o \<Rightarrow> 'o"

definition ssl_failure :: "'o ssl_calls \<Rightarrow> nat \<Rightarrow> int \<Rightarrow> 'o \<Rightarrow> net_status" where
  "ssl_failure sl i r ow =
     (case SSL_get_error sl i r ow of
        SSL_ERROR_WANT_READ \<Rightarrow> NET_RETRY
      | SSL_ERROR_WANT_WRITE \<Rightarrow> NET_RETRY
      | SSL_ERROR_OTHER \<Rightarrow> NET_ERROR)"

definition ssl_connect :: "'o ssl_calls \<Rightarrow> nat \<Rightarrow> int \<Rightarrow> 'o \<Rightarrow> net_status \<times> 'o" where
  "ssl_connect sl i fd ow =
     (let (r, o') = SSL_connect sl i fd ow in (if r \<noteq> 1 then ssl_failure sl i r o' else NET_OK, o'))"

definition ssl_close :: "'o ssl_calls \<Rightarrow> nat \<Rightarrow> int \<Rightarrow> 'o \<Rightarrow> 'o" where
  "ssl_close sl i fd ow = SSL_shut sl i ow"

definition ssl_read :: "'o ssl_calls \<Rightarrow> nat \<Rightarrow> int \<Rightarrow> 'o \<Rightarrow> (net_status \<times> string) \<times> 'o" where
  "ssl_read sl i fd ow =
     (let ((r, bytes), o') = SSL_read sl i RECVBUF ow
      in if r \<le> 0 then ((ssl_failure sl i r o', []), o') else ((NET_OK, take (nat r) bytes), o'))"

definition ssl_write :: "'o ssl_calls \<Rightarrow> nat \<Rightarrow> int \<Rightarrow> string \<Rightarrow> 'o \<Rightarrow> (net_status \<times> nat) \<times> 'o" where
  "ssl_write sl i fd bytes ow =
     (let (r, o') = SSL_write sl i bytes ow
      in if r \<le> 0 then ((ssl_failure sl i r o', 0), o') else ((NET_OK, nat r), o'))"

definition ssl_readable :: "'o ssl_calls \<Rightarrow> nat \<Rightarrow> int \<Rightarrow> 'o \<Rightarrow> nat \<times> 'o" where
  "ssl_readable sl i fd ow = (SSL_pending sl i ow, ow)"

definition ssl_sock :: "'o ssl_calls \<Rightarrow> 'o sock" where
  "ssl_sock sl =
     \<lparr>sk_connect = ssl_connect sl, sk_close = ssl_close sl, sk_read = ssl_read sl, sk_write = ssl_write sl,
      sk_readable = ssl_readable sl\<rparr>"

end
