(* ===== verification/Wrk_Main.thy ===== *)
theory Wrk_Main
  imports Wrk_Run Net
begin

text \<open>
  The rest of \<open>wrk.c\<close>: the command line, the setup of the threads, the whole of a thread, and the totals.
  \<open>getopt_long\<close> is a library: the options arrive as pairs of a letter and an argument, with the arguments after them.
\<close>

section \<open>The command line\<close>

definition copy_url_part :: "string \<Rightarrow> http_parser_url \<Rightarrow> http_parser_url_fields \<Rightarrow> string option" where
  "copy_url_part url parts f =
     (if has_field parts f
      then Some (take (unat (field_len parts f)) (drop (unat (field_off parts f)) url)) else None)"

definition default_config :: config where
  "default_config =
     \<lparr>cfg_threads = 2, cfg_connections = 10, cfg_dist = 0, cfg_duration = 10, cfg_timeout = SOCKET_TIMEOUT_MS,
      cfg_pipeline = 0, cfg_rate = 0, cfg_delay_ms = 0, cfg_latency = False, cfg_dynamic = False,
      record_all_responses = True, print_all_responses = False, print_realtime_latency = False, cfg_script = None\<rparr>"

definition dist_of :: "string \<Rightarrow> int \<Rightarrow> int" where
  "dist_of s d =
     (if s = ''fixed'' then 0 else if s = ''exp'' then 1 else if s = ''norm'' then 2 else if s = ''zipf'' then 3 else d)"

text \<open>One option; \<open>None\<close> is the return of -1. The headers are collected in order.\<close>

definition parse_option :: "char \<times> string \<Rightarrow> config \<times> string list \<Rightarrow> (config \<times> string list) option" where
  "parse_option opt st =
     (let (letter, optarg) = opt; (c, hs) = st
      in if letter = CHR ''t'' then map_option (\<lambda>n. (c\<lparr>cfg_threads := n\<rparr>, hs)) (scan_metric optarg)
         else if letter = CHR ''c'' then map_option (\<lambda>n. (c\<lparr>cfg_connections := n\<rparr>, hs)) (scan_metric optarg)
         else if letter = CHR ''D'' then Some (c\<lparr>cfg_dist := dist_of optarg (cfg_dist c)\<rparr>, hs)
         else if letter = CHR ''d'' then map_option (\<lambda>n. (c\<lparr>cfg_duration := n\<rparr>, hs)) (scan_time optarg)
         else if letter = CHR ''s'' then Some (c\<lparr>cfg_script := Some optarg\<rparr>, hs)
         else if letter = CHR ''H'' then Some (c, hs @ [optarg])
         else if letter = CHR ''P'' then Some (c\<lparr>print_all_responses := True\<rparr>, hs)
         else if letter = CHR ''p'' then Some (c\<lparr>print_realtime_latency := True\<rparr>, hs)
         else if letter = CHR ''L'' then Some (c\<lparr>cfg_latency := True\<rparr>, hs)
         else if letter = CHR ''B'' then Some (c\<lparr>record_all_responses := False\<rparr>, hs)
         else if letter = CHR ''T'' then map_option (\<lambda>n. (c\<lparr>cfg_timeout := n * 1000\<rparr>, hs)) (scan_time optarg)
         else if letter = CHR ''R'' then map_option (\<lambda>n. (c\<lparr>cfg_rate := n\<rparr>, hs)) (scan_metric optarg)
         else if letter = CHR ''v'' then Some (c, hs)
         else None)"

fun parse_options :: "(char \<times> string) list \<Rightarrow> config \<times> string list \<Rightarrow> (config \<times> string list) option" where
  "parse_options [] st = Some st"
| "parse_options (opt # opts) st = Option.bind (parse_option opt st) (parse_options opts)"

datatype args_error = Usage | InvalidUrl | FewConnections | NoRate

record args =
  a_config :: config
  a_url :: string
  a_parts :: http_parser_url
  a_headers :: "string list"

definition parse_args :: "(char \<times> string) list \<Rightarrow> string list \<Rightarrow> (args_error + args) option" where
  "parse_args opts rest =
     (case parse_options opts (default_config, []) of
        None \<Rightarrow> Some (Inl Usage)
      | Some (c, hs) \<Rightarrow>
          if rest = [] \<or> cfg_threads c = 0 \<or> cfg_duration c = 0 then Some (Inl Usage)
          else map_option (\<lambda>(ok, parts).
            if \<not> ok then Inl InvalidUrl
            else if cfg_connections c = 0 \<or> cfg_connections c < cfg_threads c then Inl FewConnections
            else if cfg_rate c = 0 then Inl NoRate
            else Inr \<lparr>a_config = c, a_url = hd rest, a_parts = parts, a_headers = hs\<rparr>)
            (script_parse_url (hd rest) no_parts))"

section \<open>The start of a thread\<close>

definition no_histogram :: hdr_histogram where
  "no_histogram =
     \<lparr>lowest_trackable_value = 0, highest_trackable_value = 0, unit_magnitude = 0, significant_figures = 0,
      sub_bucket_half_count_magnitude = 0, sub_bucket_half_count = 0, sub_bucket_mask = 0, sub_bucket_count = 0,
      bucket_count = 0, counts_len = 0, total_count = 0, counts = []\<rparr>"

text \<open>
  What \<open>main\<close> gives each thread: its share of the connections and of the rate. (The rate is kept as a \<open>double\<close>, exact
  below \<open>2^53\<close>.)
\<close>

definition new_thread :: "config \<Rightarrow> u64 \<Rightarrow> u64 \<Rightarrow> thread" where
  "new_thread c stop_at i =
     (let rate = cfg_rate c div cfg_threads c
      in \<lparr>t_tid = i, t_connections = cfg_connections c div cfg_threads c, t_interval = 0, t_stop_at = stop_at, t_complete = 0,
          t_requests = 0, t_monitored = 0, t_target = rate div 10, t_accum_latency = 0, t_bytes = 0, t_start = 0, t_mean = 0,
          t_throughput = rate, latency_histogram = no_histogram, real_latency_histogram = no_histogram,
          t_errors = \<lparr>err_connect = 0, err_read = 0, err_write = 0, err_status = 0, err_timeout = 0\<rparr>, t_cs = []\<rparr>)"

definition new_loop :: "'a option \<Rightarrow> int \<Rightarrow> config \<Rightarrow> 'a wrk_loop option" where
  "new_loop api now c = aeCreateEventLoop api now (as_int32 (uint (10 + cfg_connections c * 3)))"

text \<open>The state in which a thread begins; \<open>st\<close> is what the threads share.\<close>

definition thread_state ::
  "config \<Rightarrow> 'a option \<Rightarrow> int \<Rightarrow> u64 \<Rightarrow> u64 \<Rightarrow> 'o \<Rightarrow> stats \<Rightarrow> ('o, 'a) wrk_state option" where
  "thread_state c api now stop_at i ow st =
     map_option (\<lambda>l. (\<lparr>w_thread = new_thread c stop_at i, w_os = ow, statistics_requests = st, raw_latency = Map.empty,
       stop_signal = False, printed = []\<rparr>, l)) (new_loop api now c)"

definition new_histogram :: "hdr_histogram option" where
  "new_histogram = (case hdr_init True 1 MAX_LATENCY 3 of Some (Inr h) \<Rightarrow> Some h | _ \<Rightarrow> None)"

text \<open>
  The connections of a thread, started one millisecond apart. The interval is a division by the \<open>double\<close> rate: by
  0 it is infinite, and its conversion to an integer undefined.
\<close>

fun start_connections :: "('o, 'a) wrk_setup \<Rightarrow> string \<Rightarrow> nat \<Rightarrow> nat \<Rightarrow> ('o, 'a) wrk_state \<Rightarrow> ('o, 'a) wrk_state option" where
  "start_connections e request i 0 s = Some s"
| "start_connections e request i (Suc n) s =
     (let t = w_thread (fst s)
      in if t_throughput t = 0 then None
         else start_connections e request (Suc i) n
           (create_time_event e (int i) P_delayed_initial_connect (Conn i)
             (on_conn i (\<lambda>c. c\<lparr>c_request := request, c_interval := planned_interval (t_connections t) (t_throughput t),
                c_complete := 0, c_estimate := 0, c_sent := 0\<rparr>) s)))"

definition start_timers :: "('o, 'a) wrk_setup \<Rightarrow> ('o, 'a) wrk_state \<Rightarrow> ('o, 'a) wrk_state" where
  "start_timers e s =
     (let n = t_connections (w_thread (fst s));
          s1 = create_time_event e (sint (word_of_int CALIBRATE_DELAY_MS + n)) P_calibrate Thread s;
          s2 = create_time_event e (sint (word_of_int TIMEOUT_INTERVAL_MS + n)) P_check_timeouts Thread s1;
          (now, s3) = on_os (time_us e) s2
      in on_thread (\<lambda>t. t\<lparr>t_start := now\<rparr>) s3)"

text \<open>\<open>thread_main\<close> before its loop. The clock is also read to seed a generator that is not used.\<close>

definition thread_start :: "('o, 'a) wrk_setup \<Rightarrow> ('o, 'a) wrk_state \<Rightarrow> ('o, 'a) wrk_state option" where
  "thread_start e s = do {
     h \<leftarrow> new_histogram;
     let n = t_connections (w_thread (fst s));
     let s1 = on_thread (\<lambda>t. t\<lparr>t_cs := replicate (unat n) zero_connection, latency_histogram := h,
       real_latency_histogram := h\<rparr>) (snd (on_os (time_us e) s));
     let (request, s2) = (if cfg_dynamic (cfg e) then ([], s1) else on_os (script_request e) s1);
     s3 \<leftarrow> start_connections e request 0 (unat n) s2;
     Some (start_timers e s3)
   }"

definition thread_main ::
  "('o, 'a) wrk_setup \<Rightarrow> ((int \<times> int) option \<Rightarrow> ('o, 'a) wrk_state \<Rightarrow> (nat \<times> ('o, 'a) wrk_state) option)
    \<Rightarrow> ('o, 'a) wrk_state \<Rightarrow> ('o, 'a) wrk_state option" where
  "thread_main e wait s = Option.bind (thread_start e s) (aeMain (thread_env e wait))"

section \<open>The totals\<close>

record totals =
  tot_complete :: u64
  tot_bytes :: u64
  tot_errors :: errors
  tot_latency :: hdr_histogram
  tot_real_latency :: hdr_histogram

definition add_errors :: "errors \<Rightarrow> errors \<Rightarrow> errors" where
  "add_errors a b =
     \<lparr>err_connect = err_connect a + err_connect b, err_read = err_read a + err_read b, err_write = err_write a + err_write b,
      err_status = err_status a + err_status b, err_timeout = err_timeout a + err_timeout b\<rparr>"

fun add_threads :: "thread list \<Rightarrow> totals \<Rightarrow> totals option" where
  "add_threads [] tot = Some tot"
| "add_threads (t # ts) tot = do {
     (_, h) \<leftarrow> hdr_add (tot_latency tot) (latency_histogram t);
     (_, r) \<leftarrow> hdr_add (tot_real_latency tot) (real_latency_histogram t);
     add_threads ts \<lparr>tot_complete = tot_complete tot + t_complete t, tot_bytes = tot_bytes tot + t_bytes t,
       tot_errors = add_errors (tot_errors tot) (t_errors t), tot_latency = h, tot_real_latency = r\<rparr>
   }"

definition no_errors :: errors where
  "no_errors = \<lparr>err_connect = 0, err_read = 0, err_write = 0, err_status = 0, err_timeout = 0\<rparr>"

definition totals_of :: "thread list \<Rightarrow> totals option" where
  "totals_of ts = Option.bind new_histogram (\<lambda>h.
     add_threads ts \<lparr>tot_complete = 0, tot_bytes = 0, tot_errors = no_errors, tot_latency = h, tot_real_latency = h\<rparr>)"

section \<open>A thread that has started is in order\<close>

lemma create_time_thread:
  "w_thread (fst (create_time_event e ms pr d s)) = w_thread (fst s)"
  "loop_ok (snd s) \<Longrightarrow> loop_ok (snd (create_time_event e ms pr d s))"
proof -
  obtain n w l where c: "aeCreateTimeEvent (loop_clock e) ms pr d None s = (n, w, l)"
    by (cases "aeCreateTimeEvent (loop_clock e) ms pr d None s")
  note f = create_time_frame [of "loop_clock e" ms pr d None "fst s" "snd s" n w l, simplified, OF c]
  show "w_thread (fst (create_time_event e ms pr d s)) = w_thread (fst s)"
    using f(3) c by (simp add: create_time_event_def aeAddMillisecondsToNow_def aeGetTime_def loop_clock_def Let_def
      split: prod.splits)
  show "loop_ok (snd s) \<Longrightarrow> loop_ok (snd (create_time_event e ms pr d s))"
    using f(1,2) c by (simp add: create_time_event_def loop_ok_def)
qed

definition fresh :: "connection \<Rightarrow> bool" where
  "fresh c \<longleftrightarrow> c_fd c = 0 \<and> c_sent c = 0 \<and> c_estimate c = 0 \<and> c_thread_start c = 0 \<and> c_thread_next c = 0 \<and>
     parser_ok (c_parser c)"

lemma start_connections_spec:
  assumes "i + n \<le> length (t_cs (w_thread (fst s)))" "\<forall>c \<in> set (t_cs (w_thread (fst s))). fresh c"
    and "t_throughput (w_thread (fst s)) \<noteq> 0" "loop_ok (snd s)"
    and "\<forall>j < i. c_interval (t_cs (w_thread (fst s)) ! j) = v"
    and "v = planned_interval (t_connections (w_thread (fst s))) (t_throughput (w_thread (fst s)))"
  shows "\<exists>s'. start_connections e rq i n s = Some s' \<and> loop_ok (snd s') \<and>
    length (t_cs (w_thread (fst s'))) = length (t_cs (w_thread (fst s))) \<and>
    (\<forall>c \<in> set (t_cs (w_thread (fst s'))). fresh c) \<and>
    (\<forall>j < i + n. c_interval (t_cs (w_thread (fst s')) ! j) = v)"
  using assms
proof (induction n arbitrary: i s)
  case (Suc n)
  let ?f = "\<lambda>c. c\<lparr>c_request := rq, c_interval := v, c_complete := 0, c_estimate := 0, c_sent := 0\<rparr>"
  define s1 where "s1 = create_time_event e (int i) P_delayed_initial_connect (Conn i) (on_conn i ?f s)"
  let ?cs = "t_cs (w_thread (fst s))"
  have t1: "w_thread (fst s1) = (w_thread (fst s))\<lparr>t_cs := ?cs[i := ?f (?cs ! i)]\<rparr>"
    by (simp add: s1_def create_time_thread(1) on_conn_def on_thread_def)
  have "loop_ok (snd (on_conn i ?f s))" using Suc.prems(4) by (simp add: on_conn_def on_thread_def)
  then have l1: "loop_ok (snd s1)" by (simp add: s1_def create_time_thread(2))
  have "fresh (?f (?cs ! i))" using Suc.prems(1,2) by (simp add: fresh_def)
  then have fr: "\<forall>c \<in> set (t_cs (w_thread (fst s1))). fresh c"
    using Suc.prems(2) set_update_subset_insert [of ?cs i "?f (?cs ! i)"] by (auto simp: t1)
  have iv: "\<forall>j < Suc i. c_interval (t_cs (w_thread (fst s1)) ! j) = v"
    using Suc.prems(1,5) by (auto simp: t1 nth_list_update less_Suc_eq)
  have "start_connections e rq i (Suc n) s = start_connections e rq (Suc i) n s1"
    using Suc.prems(3) by (simp add: s1_def Suc.prems(6) Let_def)
  moreover have "\<exists>s'. start_connections e rq (Suc i) n s1 = Some s' \<and> loop_ok (snd s') \<and>
      length (t_cs (w_thread (fst s'))) = length (t_cs (w_thread (fst s1))) \<and>
      (\<forall>c \<in> set (t_cs (w_thread (fst s'))). fresh c) \<and>
      (\<forall>j < Suc i + n. c_interval (t_cs (w_thread (fst s')) ! j) = v)"
    by (rule Suc.IH [OF _ fr _ l1 iv]) (use Suc.prems in \<open>simp_all add: t1\<close>)
  ultimately show ?case by (simp add: t1)
qed simp

lemma fresh_zero: "fresh zero_connection"
  by (simp add: fresh_def zero_connection_def parser_ok_def limits_ok_def state_ok_def flag_set_def HTTP_MAX_HEADER_SIZE_def)

lemma new_histogram_some: obtains h where "new_histogram = Some h" "Hdr_Queries.holds h []" "MAX_LATENCY < hdr_capacity h"
proof -
  obtain h where h: "hdr_init True 1 MAX_LATENCY 3 = Some (Inr h)"
    using hdr_init_holds [of 3 1 MAX_LATENCY] by (auto simp: MAX_LATENCY_def)
  then show ?thesis using that [of h] holds_init [of 3 1 MAX_LATENCY h] by (simp add: new_histogram_def MAX_LATENCY_def)
qed

lemma thread_state_ok:
  assumes "thread_state (cfg e) (Some (no_epoll\<lparr>refused := r\<rparr>)) now stop_at i ow st = Some s0"
  shows "loop_ok (snd s0)" "w_thread (fst s0) = new_thread (cfg e) stop_at i"
proof -
  obtain l where l: "new_loop (Some (no_epoll\<lparr>refused := r\<rparr>)) now (cfg e) = Some l" "snd s0 = l"
    using assms by (auto simp: thread_state_def)
  have "file_ok epoll_registered epoll_ok l"
    by (rule ep.create_loop_ok [OF l(1) [unfolded new_loop_def]]) (simp_all add: no_epoll_def epoll_ok_def epoll_registered_def fun_eq_iff)
  moreover have "timers_ok l" using l(1) by (auto simp: new_loop_def aeCreateEventLoop_def timers_ok_def)
  ultimately show "loop_ok (snd s0)" by (simp add: l(2) loop_ok_def)
  show "w_thread (fst s0) = new_thread (cfg e) stop_at i" using assms by (auto simp: thread_state_def)
qed

lemma word_div_0_iff: "(a :: u64) div b = 0 \<longleftrightarrow> b = 0 \<or> a < b"
proof -
  have "a div b = 0 \<longleftrightarrow> unat a div unat b = 0" by (simp add: word_unat_eq_iff unat_div)
  then show ?thesis by (auto simp: div_eq_0_iff word_less_nat_alt unat_eq_0)
qed

lemma start_timers_ok:
  assumes "thread_ok e k s"
  shows "thread_ok e k (start_timers e s)" "t_cs (w_thread (fst (start_timers e s))) = t_cs (w_thread (fst s))"
proof -
  define s2 where "s2 = create_time_event e (sint (word_of_int TIMEOUT_INTERVAL_MS + t_connections (w_thread (fst s))))
    P_check_timeouts Thread (create_time_event e (sint (word_of_int CALIBRATE_DELAY_MS + t_connections (w_thread (fst s))))
      P_calibrate Thread s)"
  have d: "start_timers e s = on_thread (\<lambda>t. t\<lparr>t_start := fst (on_os (time_us e) s2)\<rparr>) (snd (on_os (time_us e) s2))"
    by (simp add: start_timers_def s2_def Let_def case_prod_beta)
  have "thread_ok e k s2" unfolding s2_def by (intro create_time_keeps assms)
  then show "thread_ok e k (start_timers e s)" by (simp add: d thread_ok_on_thread)
  show "t_cs (w_thread (fst (start_timers e s))) = t_cs (w_thread (fst s))"
    by (simp add: d on_thread_def) (simp add: s2_def create_time_thread(1))
qed

lemma thread_start_unfold:
  assumes "w_thread (fst s) = new_thread (cfg e) stop_at i"
  obtains rq s2 h where "w_thread (fst s2) = (new_thread (cfg e) stop_at i)\<lparr>t_cs :=
      replicate (unat (cfg_connections (cfg e) div cfg_threads (cfg e))) zero_connection,
      latency_histogram := h, real_latency_histogram := h\<rparr>" "snd s2 = snd s"
    "thread_start e s = map_option (start_timers e)
      (start_connections e rq 0 (unat (cfg_connections (cfg e) div cfg_threads (cfg e))) s2)"
proof -
  let ?n = "cfg_connections (cfg e) div cfg_threads (cfg e)"
  obtain h where h: "new_histogram = Some h" by (rule new_histogram_some)
  define s1 where "s1 = on_thread (\<lambda>t. t\<lparr>t_cs := replicate (unat ?n) zero_connection, latency_histogram := h,
    real_latency_histogram := h\<rparr>) (snd (on_os (time_us e) s))"
  define rs where "rs = (if cfg_dynamic (cfg e) then ([], s1) else on_os (script_request e) s1)"
  have n: "t_connections (w_thread (fst s)) = ?n" by (simp add: assms new_thread_def Let_def)
  show ?thesis
  proof (rule that [where h = h and rq = "fst rs" and ?s2.0 = "snd rs"])
    show "w_thread (fst (snd rs)) = (new_thread (cfg e) stop_at i)\<lparr>t_cs := replicate (unat ?n) zero_connection,
        latency_histogram := h, real_latency_histogram := h\<rparr>" "snd (snd rs) = snd s"
      using assms by (simp_all add: rs_def s1_def on_thread_def on_os_def case_prod_beta)
    show "thread_start e s = map_option (start_timers e) (start_connections e (fst rs) 0 (unat ?n) (snd rs))"
      unfolding thread_start_def rs_def s1_def n
      by (simp add: h Let_def case_prod_beta map_conv_bind_option o_def)
  qed
qed

text \<open>The setup of a thread: it succeeds when the thread has a rate, and all its connections are then ready to be connected.\<close>

lemma thread_start_ok:
  assumes "loop_ok (snd s)" "w_thread (fst s) = new_thread (cfg e) stop_at i"
    and "cfg_threads (cfg e) \<le> cfg_rate (cfg e)" "cfg_threads (cfg e) \<noteq> 0"
  shows "\<exists>s'. thread_start e s = Some s' \<and> thread_ok e 0 s' \<and>
    length (t_cs (w_thread (fst s'))) = unat (cfg_connections (cfg e) div cfg_threads (cfg e))"
proof -
  let ?n = "unat (cfg_connections (cfg e) div cfg_threads (cfg e))"
  obtain rq s2 h where u: "w_thread (fst s2) = (new_thread (cfg e) stop_at i)\<lparr>t_cs := replicate ?n zero_connection,
      latency_histogram := h, real_latency_histogram := h\<rparr>" "snd s2 = snd s"
    "thread_start e s = map_option (start_timers e) (start_connections e rq 0 ?n s2)"
    by (rule thread_start_unfold [OF assms(2)])
  have "\<exists>s3. start_connections e rq 0 ?n s2 = Some s3 \<and> loop_ok (snd s3) \<and>
      length (t_cs (w_thread (fst s3))) = length (t_cs (w_thread (fst s2))) \<and>
      (\<forall>c \<in> set (t_cs (w_thread (fst s3))). fresh c) \<and>
      (\<forall>j < 0 + ?n. c_interval (t_cs (w_thread (fst s3)) ! j) = interval_of (cfg e))"
    by (rule start_connections_spec)
      (use assms in \<open>simp_all add: u new_thread_def Let_def word_div_0_iff interval_of_def fresh_zero\<close>)
  then obtain s3 where s3: "start_connections e rq 0 ?n s2 = Some s3" "loop_ok (snd s3)"
    "length (t_cs (w_thread (fst s3))) = ?n" "\<forall>c \<in> set (t_cs (w_thread (fst s3))). fresh c"
    "\<forall>j < ?n. c_interval (t_cs (w_thread (fst s3)) ! j) = interval_of (cfg e)" by (auto simp: u)
  have "conn_ok e 0 c" if c: "c \<in> set (t_cs (w_thread (fst s3)))" for c
  proof -
    have "c_interval c = interval_of (cfg e)" using c s3(3,5) by (auto simp: in_set_conv_nth)
    then show ?thesis using s3(4) c by (simp add: conn_ok_def paced_def fresh_def)
  qed
  then have "thread_ok e 0 s3" using s3(2) by (simp add: thread_ok_def conns_ok_def)
  then show ?thesis using u(3) s3(1,3) start_timers_ok [OF \<open>thread_ok e 0 s3\<close>] by simp
qed

lemma thread_start_no_rate:
  assumes "w_thread (fst s) = new_thread (cfg e) stop_at i"
    and "cfg_rate (cfg e) < cfg_threads (cfg e)" "cfg_threads (cfg e) \<le> cfg_connections (cfg e)"
  shows "thread_start e s = None"
proof -
  have "cfg_connections (cfg e) div cfg_threads (cfg e) \<noteq> 0" using assms(2,3) by (auto simp: word_div_0_iff)
  then obtain m where m: "unat (cfg_connections (cfg e) div cfg_threads (cfg e)) = Suc m"
    by (metis not0_implies_Suc unat_eq_zero)
  show ?thesis
    by (rule thread_start_unfold [OF assms(1)]) (use assms(2) m in \<open>simp add: new_thread_def Let_def word_div_0_iff\<close>)
qed

text \<open>A thread that has started has the invariant.\<close>

lemma start_keeps:
  assumes "loop_ok (snd s)" "w_thread (fst s) = new_thread (cfg e) stop_at i" "thread_start e s = Some s'"
    and "cfg_threads (cfg e) \<noteq> 0" "cfg_threads (cfg e) \<le> cfg_connections (cfg e)"
  shows "thread_ok e 0 s'"
proof -
  have "cfg_threads (cfg e) \<le> cfg_rate (cfg e)"
    using thread_start_no_rate [OF assms(2) _ assms(5)] assms(3) by (metis linorder_not_le option.distinct(1))
  then show ?thesis using thread_start_ok [OF assms(1,2) _ assms(4)] assms(3) by auto
qed

lemma started_ok:
  assumes "thread_state (cfg e) (Some (no_epoll\<lparr>refused := r\<rparr>)) now stop_at i ow st = Some s" "thread_start e s = Some s'"
    and "cfg_threads (cfg e) \<noteq> 0" "cfg_threads (cfg e) \<le> cfg_connections (cfg e)"
  shows "thread_ok e 0 s'"
  by (rule start_keeps [OF thread_state_ok [OF assms(1)] assms(2-4)])

text \<open>The pacing of a connection as an inequality of times.\<close>

lemma paced_time:
  assumes "thread_ok e n s" "cfg_dist (cfg e) = 0" "n < 2 ^ 64 - 1" "valid_conn s i"
    and "c_sent (conn i s) \<noteq> 0"
    and "uint (c_thread_start (conn i s)) + uint (c_sent (conn i s)) * uint (interval_of (cfg e)) < 2 ^ 64"
  shows "uint (c_thread_start (conn i s)) + uint (c_sent (conn i s)) * uint (interval_of (cfg e)) \<le> uint (c_start (conn i s))"
proof -
  let ?c = "conn i s"
  have "paced ?c" "interval_of (cfg e) = c_interval ?c"
    using thread_ok_conn [OF assms(1,4)] assms(2,3) by (simp_all add: conn_ok_def)
  then have "c_thread_start ?c + c_sent ?c * interval_of (cfg e) \<le> c_start ?c" using assms(5) by (simp add: paced_def)
  moreover have "uint (c_thread_start ?c + c_sent ?c * interval_of (cfg e))
      = uint (c_thread_start ?c) + uint (c_sent ?c) * uint (interval_of (cfg e))"
    using assms(6) by (simp add: uint_word_ariths mod_add_right_eq)
  ultimately show ?thesis by (simp add: word_le_def)
qed

section \<open>The properties of a thread\<close>

text \<open>C19: The command line is accepted only with at least one thread, a duration, no fewer connections than threads, a
  rate and a URL with a scheme and a host. A thread then starts if and only if the rate is at least the number of
  threads: below, its share of the rate is 0 and the interval between its requests is a division by 0.\<close>

theorem accepted_arguments_start:
  assumes "parse_args opts rest = Some (Inr a)"
    and "cfg e = (a_config a)\<lparr>cfg_pipeline := n, cfg_dynamic := d\<rparr>"
    and "thread_state (cfg e) (Some (no_epoll\<lparr>refused := r\<rparr>)) now stop_at i ow st = Some s"
  shows "cfg_threads (cfg e) \<noteq> 0 \<and> cfg_duration (cfg e) \<noteq> 0 \<and> cfg_rate (cfg e) \<noteq> 0 \<and>
    cfg_threads (cfg e) \<le> cfg_connections (cfg e) \<and> rest \<noteq> [] \<and> a_url a = hd rest \<and>
    copy_url_part (a_url a) (a_parts a) UF_SCHEMA \<noteq> None \<and> copy_url_part (a_url a) (a_parts a) UF_HOST \<noteq> None \<and>
    (thread_start e s \<noteq> None \<longleftrightarrow> cfg_threads (cfg e) \<le> cfg_rate (cfg e))"
proof -
  have a: "cfg_threads (cfg e) \<noteq> 0 \<and> cfg_duration (cfg e) \<noteq> 0 \<and> cfg_rate (cfg e) \<noteq> 0 \<and>
    cfg_threads (cfg e) \<le> cfg_connections (cfg e) \<and> rest \<noteq> [] \<and> a_url a = hd rest \<and>
    has_field (a_parts a) UF_SCHEMA \<and> has_field (a_parts a) UF_HOST"
    using assms(1,2) by (auto simp: parse_args_def script_parse_url_def split: option.splits if_splits)
  note s = thread_state_ok [OF assms(3)]
  show ?thesis using a thread_start_ok [OF s] thread_start_no_rate [OF s(2)]
    by (cases "cfg_threads (cfg e) \<le> cfg_rate (cfg e)") (auto simp: copy_url_part_def)
qed

text \<open>The wait of a thread: \<open>epoll_wait\<close>, which gives the descriptors that are ready; a signal may arrive.\<close>

definition wait_ms :: "(int \<times> int) option \<Rightarrow> int" where
  "wait_ms tvp = (case tvp of None \<Rightarrow> -1 | Some (sec, usec) \<Rightarrow> as_int32 (sec * 1000 + usec div 1000))"

definition thread_wait ::
  "(int \<Rightarrow> epoll_state \<Rightarrow> 'o \<Rightarrow> ((int \<times> int) list \<times> bool) \<times> 'o) \<Rightarrow> (int \<times> int) option \<Rightarrow> ('o, epoll_state) wrk_state
    \<Rightarrow> (nat \<times> ('o, epoll_state) wrk_state) option" where
  "thread_wait kern tvp s =
     (let ((ready, signal), o') = kern (wait_ms tvp) (apidata (snd s)) (w_os (fst s));
          w = (fst s)\<lparr>w_os := o', stop_signal := stop_signal (fst s) \<or> signal\<rparr>
      in map_option (\<lambda>(n, l). (n, (w, l))) (epoll_ApiPoll ready (snd s)))"

lemma thread_wait_ok: "wait_ok (thread_wait kern)"
proof -
  have "\<exists>ow b fs. s' = ((fst s)\<lparr>w_os := ow, stop_signal := b\<rparr>, (snd s)\<lparr>fired := fs\<rparr>)"
    if "thread_wait kern tvp s = Some (n, s')" for tvp n and s s' :: "('a, epoll_state) wrk_state"
    using that unfolding thread_wait_def Let_def case_prod_beta epoll_ApiPoll_def by (auto split: if_splits)
  then show ?thesis by (auto simp: wait_ok_def)
qed



section \<open>The totals of the threads\<close>

definition slot_values :: "hdr_histogram \<Rightarrow> int list \<Rightarrow> int list" where
  "slot_values h vs = map (lowest_equivalent_value h) vs"

lemma add_threads_spec:
  assumes "\<forall>t \<in> set ts. Hdr_Queries.holds (latency_histogram t) (vs t) \<and> Hdr_Queries.holds (real_latency_histogram t) (rs t)"
    and "\<forall>t \<in> set ts. \<forall>v \<in> set (vs t). v < hdr_capacity (tot_latency tot)"
    and "\<forall>t \<in> set ts. \<forall>v \<in> set (rs t). v < hdr_capacity (tot_real_latency tot)"
    and "Hdr_Queries.holds (tot_latency tot) as" "Hdr_Queries.holds (tot_real_latency tot) bs"
  shows "\<exists>tot'. add_threads ts tot = Some tot' \<and>
    tot_complete tot' = tot_complete tot + sum_list (map t_complete ts) \<and>
    tot_bytes tot' = tot_bytes tot + sum_list (map t_bytes ts) \<and>
    tot_errors tot' = foldl add_errors (tot_errors tot) (map t_errors ts) \<and>
    Hdr_Queries.holds (tot_latency tot') (concat (map (\<lambda>t. slot_values (latency_histogram t) (vs t)) (rev ts)) @ as) \<and>
    Hdr_Queries.holds (tot_real_latency tot') (concat (map (\<lambda>t. slot_values (real_latency_histogram t) (rs t)) (rev ts)) @ bs)"
  using assms
proof (induction ts arbitrary: tot as bs)
  case (Cons t ts)
  obtain h where h: "hdr_add (tot_latency tot) (latency_histogram t) = Some (0, h)"
    "Hdr_Queries.holds h (slot_values (latency_histogram t) (vs t) @ as)" "hdr_capacity h = hdr_capacity (tot_latency tot)"
    using hdr_add_holds [of "latency_histogram t" "vs t" "tot_latency tot" as] Cons.prems by (auto simp: slot_values_def)
  obtain r where r: "hdr_add (tot_real_latency tot) (real_latency_histogram t) = Some (0, r)"
    "Hdr_Queries.holds r (slot_values (real_latency_histogram t) (rs t) @ bs)" "hdr_capacity r = hdr_capacity (tot_real_latency tot)"
    using hdr_add_holds [of "real_latency_histogram t" "rs t" "tot_real_latency tot" bs] Cons.prems by (auto simp: slot_values_def)
  let ?tot = "\<lparr>tot_complete = tot_complete tot + t_complete t, tot_bytes = tot_bytes tot + t_bytes t,
    tot_errors = add_errors (tot_errors tot) (t_errors t), tot_latency = h, tot_real_latency = r\<rparr>"
  have "add_threads (t # ts) tot = add_threads ts ?tot" by (simp add: h(1) r(1))
  then show ?case
    using Cons.IH [of ?tot "slot_values (latency_histogram t) (vs t) @ as" "slot_values (real_latency_histogram t) (rs t) @ bs"]
      Cons.prems h r by (auto simp: ac_simps)
qed simp


section \<open>The example\<close>

lemma accepted_arguments_start_witness:
  "\<exists>a s. parse_args [(CHR ''R'', ''1''), (CHR ''c'', ''4'')] [''http://h/''] = Some (Inr a) \<and>
    thread_state (a_config a) (Some no_epoll) 0 10 0 (0 :: u64) (stats_alloc 10) = Some s \<and> cfg_threads (a_config a) = 2 \<and>
    thread_start (demo_setup\<lparr>cfg := a_config a\<rparr>) s = None"
proof -
  have "(case parse_args [(CHR ''R'', ''1''), (CHR ''c'', ''4'')] [''http://h/''] of
      Some (Inr a) \<Rightarrow> cfg_threads (a_config a) = 2 \<and> cfg_rate (a_config a) = 1 | _ \<Rightarrow> False)"
    by code_simp
  then obtain a where a: "parse_args [(CHR ''R'', ''1''), (CHR ''c'', ''4'')] [''http://h/''] = Some (Inr a)"
    "cfg_threads (a_config a) = 2" "cfg_rate (a_config a) = 1" by (auto split: option.splits sum.splits)
  let ?e = "demo_setup\<lparr>cfg := a_config a\<rparr>"
  have c: "cfg ?e = (a_config a)\<lparr>cfg_pipeline := cfg_pipeline (a_config a), cfg_dynamic := cfg_dynamic (a_config a)\<rparr>" by simp
  have n: "no_epoll = no_epoll\<lparr>refused := refused no_epoll\<rparr>" by simp
  obtain s where s: "thread_state (cfg ?e) (Some (no_epoll\<lparr>refused := refused no_epoll\<rparr>)) 0 10 0 (0 :: u64) (stats_alloc 10) = Some s"
    by (auto simp: thread_state_def new_loop_def aeCreateEventLoop_def)
  have "\<not> cfg_threads (cfg ?e) \<le> cfg_rate (cfg ?e)" using a(2,3) by (simp add: word_le_nat_alt)
  then have "thread_start ?e s = None" using accepted_arguments_start [OF a(1) c s] by blast
  then show ?thesis using a(1,2) s by (intro exI [of _ a] exI [of _ s]) simp
qed

lemma demo_run:
  assumes "new_histogram = Some h"
  shows "\<exists>s00 s0. thread_state demo_config (Some no_epoll) 0 10000000 0 0 (stats_alloc 10) = Some s00 \<and>
     thread_start demo_setup s00 = Some s0 \<and>
     (\<exists>r w1 l1. time_proc demo_setup P_delayed_initial_connect (Conn 0) s0 = Some (r, (w1, l1)) \<and>
       c_sent (conn 0 s0) = 0 \<and> c_estimate (conn 0 s0) = 0 \<and> timers_ok l1 \<and> valid_conn (w1, l1) 0 \<and>
       (\<exists>s3. file_proc demo_setup P_socket_writeable 5 (Some (Conn 0)) (w1\<lparr>w_os := 5000, stop_signal := False\<rparr>, l1) = Some s3 \<and>
         c_sent (conn 0 s3) = 1 \<and> valid_conn s3 0 \<and> c_thread_start (conn 0 s3) < 100))"
  by (simp add: thread_state_def new_loop_def aeCreateEventLoop_def demo_config_def demo_setup_def assms thread_start_def
    new_thread_def on_thread_def on_os_def start_timers_def create_time_event_def on_conn_def planned_interval_def
    zero_connection_def aeCreateTimeEvent_def aeAddMillisecondsToNow_def aeGetTime_def loop_clock_def
    Let_def CALIBRATE_DELAY_MS_def TIMEOUT_INTERVAL_MS_def no_file_event_def no_epoll_def
    valid_conn_def delayed_initial_connect_def connect_socket_def create_file_event_def aeCreateFileEvent_def
    epoll_ApiAddEvent_def array_get_def conn_def ae_defs epoll_events_def has_event_def event_mask_def set_event_def
    timers_ok_def socket_writeable_def usec_to_next_send_def gen_next_def send_request_def demo_sock_def request_written_def
    request_started_def note_start_def delete_file_event_def aeDeleteFileEvent_def epoll_ApiDelEvent_def)


lemma demo_main:
  assumes "new_histogram = Some h"
  shows "\<exists>s00 s'. thread_state demo_config (Some no_epoll) 0 0 0 0 (stats_alloc 10) = Some s00 \<and>
    thread_main demo_setup (thread_wait (\<lambda>ms a ow. (([], True), ow + 2100000))) s00 = Some s'"
  by (simp add: thread_state_def new_loop_def aeCreateEventLoop_def demo_config_def demo_setup_def assms thread_start_def
    new_thread_def on_thread_def on_os_def start_timers_def create_time_event_def on_conn_def planned_interval_def
    zero_connection_def aeCreateTimeEvent_def aeAddMillisecondsToNow_def aeGetTime_def loop_clock_def
    Let_def CALIBRATE_DELAY_MS_def TIMEOUT_INTERVAL_MS_def no_file_event_def no_epoll_def
    valid_conn_def delayed_initial_connect_def connect_socket_def create_file_event_def aeCreateFileEvent_def
    epoll_ApiAddEvent_def array_get_def conn_def ae_defs epoll_events_def has_event_def event_mask_def set_event_def
    thread_main_def aeMain_def main_loop.simps aeProcessEvents_def poll_wait_def thread_env_def aeSearchNearestTimer_def
    earlier_def poll_timeout_def thread_wait_def epoll_ApiPoll_def wait_ms_def processTimeEvents_def clock_skew_def time_walk.simps
    due_def after_time_proc_def check_timeouts_def on_errors_def stop_loop_def aeStop_def aeDeleteTimeEvent_def)



end
