(* ===== verification/Wrk_Program.thy ===== *)
theory Wrk_Program
  imports Wrk_Main
begin

text \<open>
  The program: the threads that \<open>main\<close> of \<open>wrk.c\<close> creates, in any interleaving. They share the system, the statistics of the
  rates (which a mutex protects) and the flag that the handler of SIGINT sets; all else is their own.
\<close>

section \<open>The threads and what they share\<close>

text \<open>In a thread's own state the shared fields are ignored: it sees those of the program.\<close>

record 'o program =
  pr_threads :: "('o, epoll_state) wrk_state list"
  pr_running :: "bool list"
  pr_os :: 'o
  pr_requests :: stats
  pr_stop :: bool

definition view :: "'o program \<Rightarrow> nat \<Rightarrow> ('o, epoll_state) wrk_state" where
  "view P i = (let (w, l) = pr_threads P ! i in (w\<lparr>w_os := pr_os P, statistics_requests := pr_requests P, stop_signal := pr_stop P\<rparr>, l))"

definition put_thread :: "'o program \<Rightarrow> nat \<Rightarrow> ('o, epoll_state) wrk_state \<Rightarrow> 'o program" where
  "put_thread P i s = P\<lparr>pr_threads := (pr_threads P)[i := s], pr_os := w_os (fst s), pr_requests := statistics_requests (fst s),
     pr_stop := stop_signal (fst s)\<rparr>"

text \<open>\<open>main\<close> creates the threads; a loop that cannot be made ends the program.\<close>

definition create_threads ::
  "config \<Rightarrow> (int \<Rightarrow> bool) \<Rightarrow> int \<Rightarrow> u64 \<Rightarrow> 'o \<Rightarrow> stats \<Rightarrow> 'o program option" where
  "create_threads c rf now stop_at ow st =
     map_option (\<lambda>ts. \<lparr>pr_threads = ts, pr_running = replicate (length ts) False, pr_os = ow, pr_requests = st, pr_stop = False\<rparr>)
       (those (map (\<lambda>i. thread_state c (Some (no_epoll\<lparr>refused := rf\<rparr>)) now stop_at (word_of_nat i) ow st)
         [0..<unat (cfg_threads c)]))"

text \<open>A step: a thread begins with its setup, or one that has begun takes a step, or something happens outside.\<close>

inductive program_step :: "('o, epoll_state) wrk_setup \<Rightarrow> 'o program \<Rightarrow> 'o program \<Rightarrow> bool" for e where
  begins: "i < length (pr_threads P) \<Longrightarrow> \<not> pr_running P ! i \<Longrightarrow> thread_start e (view P i) = Some s \<Longrightarrow>
    program_step e P ((put_thread P i s)\<lparr>pr_running := (pr_running P)[i := True]\<rparr>)"
| goes_on: "i < length (pr_threads P) \<Longrightarrow> pr_running P ! i \<Longrightarrow> thread_step e (view P i) s \<Longrightarrow> program_step e P (put_thread P i s)"
| elsewhere: "program_step e P (P\<lparr>pr_os := ow, pr_stop := b\<rparr>)"

inductive program_run :: "('o, epoll_state) wrk_setup \<Rightarrow> 'o program \<Rightarrow> nat \<Rightarrow> 'o program \<Rightarrow> bool" for e P0 where
  run_created: "program_run e P0 0 P0"
| run_more: "program_run e P0 n P \<Longrightarrow> program_step e P P' \<Longrightarrow> program_run e P0 (Suc n) P'"

section \<open>The invariant\<close>

text \<open>A thread that has not begun has what \<open>main\<close> gave it.\<close>

definition member_ok :: "('o, epoll_state) wrk_setup \<Rightarrow> nat \<Rightarrow> bool \<Rightarrow> ('o, epoll_state) wrk_state \<Rightarrow> bool" where
  "member_ok e n running s \<longleftrightarrow>
     (if running then thread_ok e n s
      else loop_ok (snd s) \<and> (\<exists>stop_at tid. w_thread (fst s) = new_thread (cfg e) stop_at tid))"

definition program_ok :: "('o, epoll_state) wrk_setup \<Rightarrow> nat \<Rightarrow> 'o program \<Rightarrow> bool" where
  "program_ok e n P \<longleftrightarrow> length (pr_running P) = length (pr_threads P) \<and>
     (\<forall>i < length (pr_threads P). member_ok e n (pr_running P ! i) (pr_threads P ! i))"

lemma member_ok_mono: "member_ok e n b s \<Longrightarrow> n \<le> m \<Longrightarrow> member_ok e m b s"
  using thread_ok_mono [of e n s m] by (simp add: member_ok_def)

lemma program_okD: "program_ok e n P \<Longrightarrow> i < length (pr_threads P) \<Longrightarrow> member_ok e n (pr_running P ! i) (pr_threads P ! i)"
  by (simp add: program_ok_def)

lemma view_thread [simp]: "w_thread (fst (view P i)) = w_thread (fst (pr_threads P ! i))" "snd (view P i) = snd (pr_threads P ! i)"
  by (simp_all add: view_def case_prod_beta)

lemma view_ok [simp]: "thread_ok e n (view P i) = thread_ok e n (pr_threads P ! i)"
  by (simp add: thread_ok_def conns_ok_def)

lemma view_put: "i < length (pr_threads P) \<Longrightarrow> view (put_thread P i s) i = s"
  by (simp add: view_def put_thread_def case_prod_beta)

lemma program_ok_mono: "program_ok e n P \<Longrightarrow> n \<le> m \<Longrightarrow> program_ok e m P"
  unfolding program_ok_def using member_ok_mono by blast

lemma program_ok_put:
  assumes "program_ok e n P" "thread_ok e n s" "i < length (pr_threads P)"
  shows "program_ok e n ((put_thread P i s)\<lparr>pr_running := (pr_running P)[i := True]\<rparr>)"
  using assms by (simp add: program_ok_def put_thread_def nth_list_update) (simp add: member_ok_def)

lemma those_SomeD: "those xs = Some ys \<Longrightarrow> xs = map Some ys"
  by (induction xs arbitrary: ys) (auto split: option.splits)

lemma created_ok:
  assumes "create_threads (cfg e) rf now stop_at ow st = Some P"
  shows "program_ok e 0 P" "length (pr_threads P) = unat (cfg_threads (cfg e))"
proof -
  let ?f = "\<lambda>i. thread_state (cfg e) (Some (no_epoll\<lparr>refused := rf\<rparr>)) now stop_at (word_of_nat i) ow st"
  obtain ts where ts: "those (map ?f [0..<unat (cfg_threads (cfg e))]) = Some ts"
    "P = \<lparr>pr_threads = ts, pr_running = replicate (length ts) False, pr_os = ow, pr_requests = st, pr_stop = False\<rparr>"
    using assms by (auto simp: create_threads_def)
  have m: "map ?f [0..<unat (cfg_threads (cfg e))] = map Some ts" by (rule those_SomeD [OF ts(1)])
  then have len: "length ts = unat (cfg_threads (cfg e))" by (metis length_map length_upt minus_nat.diff_0)
  have "member_ok e 0 False (ts ! i)" if "i < length ts" for i
  proof -
    have "?f i = Some (ts ! i)" using arg_cong [OF m, of "\<lambda>xs. xs ! i"] that len by simp
    from thread_state_ok [OF this] show ?thesis by (auto simp: member_ok_def)
  qed
  then show "program_ok e 0 P" by (simp add: program_ok_def ts(2))
  show "length (pr_threads P) = unat (cfg_threads (cfg e))" using len ts(2) by simp
qed

lemma program_step_keeps:
  assumes "system_ok e" "clock_ok e now" "cfg_threads (cfg e) \<noteq> 0" "cfg_threads (cfg e) \<le> cfg_connections (cfg e)"
    and "program_ok e n P" "program_step e P P'"
  shows "program_ok e (Suc n) P'"
  using assms(6)
proof cases
  case (begins i s)
  obtain stop_at tid where "loop_ok (snd (view P i))" "w_thread (fst (view P i)) = new_thread (cfg e) stop_at tid"
    using program_okD [OF assms(5) begins(2)] begins(3) by (auto simp: member_ok_def)
  from start_keeps [OF this begins(4) assms(3,4)] have "thread_ok e (Suc n) s" by (rule thread_ok_mono) simp
  then show ?thesis using program_ok_put [OF program_ok_mono [OF assms(5)]] begins by simp
next
  case (goes_on i s)
  have "thread_ok e n (view P i)" using program_okD [OF assms(5) goes_on(2)] goes_on(3) by (simp add: member_ok_def)
  from thread_step_keeps [OF assms(1,2) this goes_on(4)] have "thread_ok e (Suc n) s" .
  moreover have "(pr_running P)[i := True] = pr_running P" using goes_on(3) by (metis list_update_id)
  ultimately show ?thesis
    using program_ok_put [OF program_ok_mono [OF assms(5)], of "Suc n" s i] goes_on by (simp add: put_thread_def)
next
  case (elsewhere ow b)
  then show ?thesis using program_ok_mono [OF assms(5), of "Suc n"] by (simp add: program_ok_def)
qed

lemma program_run_keeps:
  assumes "program_run e P0 n P" "system_ok e" "clock_ok e now" "cfg_threads (cfg e) \<noteq> 0"
    and "cfg_threads (cfg e) \<le> cfg_connections (cfg e)" "program_ok e 0 P0"
  shows "program_ok e n P \<and> length (pr_threads P) = length (pr_threads P0)"
  using assms(1)
proof induction
  case (run_more n P P')
  have "length (pr_threads P') = length (pr_threads P)"
    using run_more(2) by cases (simp_all add: put_thread_def)
  then show ?case using run_more(3) program_step_keeps [OF assms(2-5) _ run_more(2), of n] by simp
qed (simp add: assms(6))

section \<open>The property\<close>

text \<open>C1: In every run of the program with the fixed distribution no request is sent early: whatever the order in which its
  threads and their procedures run, with reconnections and failures, the \<open>n\<close>-th request of a connection is not started
  before \<open>n\<close> intervals after the start of the connection, as long as that time is a 64-bit number.\<close>

theorem requests_paced:
  assumes "system_ok e" "clock_ok e now" "cfg_dist (cfg e) = 0" "cfg_threads (cfg e) \<noteq> 0"
    and "cfg_threads (cfg e) \<le> cfg_connections (cfg e)"
    and "create_threads (cfg e) rf t0 stop_at ow st = Some P0" "program_run e P0 n P" "n < 2 ^ 64 - 1"
    and "i < unat (cfg_threads (cfg e))" "pr_running P ! i" "valid_conn (pr_threads P ! i) j"
  defines "c \<equiv> conn j (pr_threads P ! i)"
  assumes "c_sent c \<noteq> 0" "uint (c_thread_start c) + uint (c_sent c) * uint (interval_of (cfg e)) < 2 ^ 64"
  shows "uint (c_thread_start c) + uint (c_sent c) * uint (interval_of (cfg e)) \<le> uint (c_start c)"
proof -
  note k = program_run_keeps [OF assms(7,1,2,4,5) created_ok(1) [OF assms(6)]]
  have "thread_ok e n (pr_threads P ! i)"
    using program_okD [OF conjunct1 [OF k], of i] conjunct2 [OF k] created_ok(2) [OF assms(6)] assms(9,10) by (simp add: member_ok_def)
  from paced_time [OF this assms(3,8,11)] show ?thesis using assms(13,14) unfolding c_def by blast
qed

text \<open>The example: the one thread begins, connects, and sends its first request after five milliseconds.\<close>

lemma requests_paced_witness:
  "\<exists>P0 P. create_threads demo_config (refused no_epoll) 0 10000000 0 (stats_alloc 10) = Some P0 \<and> program_run demo_setup P0 4 P \<and>
    c_sent (conn 0 (pr_threads P ! 0)) = 1 \<and>
    uint (c_thread_start (conn 0 (pr_threads P ! 0))) + 1000 \<le> uint (c_start (conn 0 (pr_threads P ! 0)))"
proof -
  obtain h where "new_histogram = Some h" by (rule new_histogram_some)
  from demo_run [OF this] obtain s00 s0 r w1 l1 s3 where
    s: "thread_state demo_config (Some no_epoll) 0 10000000 0 0 (stats_alloc 10) = Some s00" "thread_start demo_setup s00 = Some s0"
      "time_proc demo_setup P_delayed_initial_connect (Conn 0) s0 = Some (r, (w1, l1))"
      "c_sent (conn 0 s0) = 0" "c_estimate (conn 0 s0) = 0" "timers_ok l1"
      "file_proc demo_setup P_socket_writeable 5 (Some (Conn 0)) (w1\<lparr>w_os := 5000, stop_signal := False\<rparr>, l1) = Some s3"
      "c_sent (conn 0 s3) = 1" "valid_conn s3 0" "c_thread_start (conn 0 s3) < 100" by blast
  let ?P0 = "\<lparr>pr_threads = [s00], pr_running = [False], pr_os = 0, pr_requests = stats_alloc 10, pr_stop = False\<rparr>"
  have c: "create_threads (cfg demo_setup) (refused no_epoll) 0 10000000 0 (stats_alloc 10) = Some ?P0"
    using s(1) by (simp add: create_threads_def demo_setup_def demo_config_def no_epoll_def)
  have "view ?P0 0 = s00" using s(1) by (auto simp: view_def thread_state_def)
  define P1 where "P1 = (put_thread ?P0 0 s0)\<lparr>pr_running := [True]\<rparr>"
  have v1: "view P1 0 = s0" using view_put [of 0 ?P0 s0] by (simp add: P1_def view_def)
  have r1: "program_run demo_setup ?P0 1 P1"
    using run_more [OF run_created begins [where i = 0 and s = s0 and P = ?P0]] s(2) \<open>view ?P0 0 = s00\<close> by (simp add: P1_def)
  define P2 where "P2 = put_thread P1 0 (w1, l1)"
  have "thread_step demo_setup (view P1 0) (w1, l1)" unfolding v1 by (rule on_timer [OF s(3)]) (use s(4,5) in auto)
  then have r2: "program_run demo_setup ?P0 2 P2"
    using run_more [OF r1 goes_on [where i = 0 and s = "(w1, l1)"]] by (simp add: P1_def P2_def put_thread_def numeral_2_eq_2)
  define P3 where "P3 = P2\<lparr>pr_os := 5000, pr_stop := False\<rparr>"
  have r3: "program_run demo_setup ?P0 3 P3" using run_more [OF r2 elsewhere] by (simp add: P3_def numeral_3_eq_3 numeral_2_eq_2)
  have v3: "view P3 0 = (w1\<lparr>w_os := 5000, stop_signal := False\<rparr>, l1)" by (simp add: P3_def P2_def P1_def view_def put_thread_def)
  define P4 where "P4 = put_thread P3 0 s3"
  have "thread_step demo_setup (view P3 0) s3" unfolding v3 by (rule on_file [OF _ s(7)]) simp
  then have r4: "program_run demo_setup ?P0 4 P4"
    using run_more [OF r3 goes_on [where i = 0 and s = s3]] by (simp add: P1_def P2_def P3_def P4_def put_thread_def numeral_eq_Suc)
  have t: "pr_threads P4 = [s3]" "pr_running P4 = [True]" by (simp_all add: P4_def P3_def P2_def P1_def put_thread_def)
  have i: "interval_of (cfg demo_setup) = 1000" by (simp add: demo_setup_def demo_config_def interval_of_def planned_interval_def)
  have "uint (c_thread_start (conn 0 s3)) < 100" using s(10) by (simp add: word_less_def)
  then have "uint (c_thread_start (conn 0 s3)) + 1000 \<le> uint (c_start (conn 0 s3))"
    using requests_paced [OF demo_ok _ _ _ c r4, of 0 0] s(8,9) i t by (simp add: demo_setup_def demo_config_def)
  then show ?thesis using c r4 s(8) t by (auto simp: demo_setup_def)
qed

end
