(* ===== verification/Wrk_Progress.thy ===== *)
theory Wrk_Progress
  imports Wrk_Main
begin

text \<open>
  That requests are sent and not only held back: a connection whose socket is writable starts its request when it is due
  (\<open>socket_writeable\<close> of \<open>wrk.c\<close>), and otherwise sets a timer for the time when it will be.
\<close>

section \<open>A request that is due goes out\<close>

lemma msec_to_wait_eq:
  assumes "msec_to_wait usec = Some ms"
  shows "ms = uint usec div 1000 + 1"
proof -
  have "0 \<le> rat_of_int (uint usec)" unfolding of_int_0_le_iff by (rule uint_ge_0)
  then have "0 \<le> (of_int (uint usec) :: rat) / 1000 + 1 / 2" by simp
  then have "c_round (of_int (uint usec) / 1000 + 1 / 2) = \<lfloor>rat_of_int (uint usec) / rat_of_int 1000 + 1\<rfloor>"
    by (simp add: c_round_def add.assoc)
  also have "\<dots> = \<lfloor>rat_of_int (uint usec) / rat_of_int 1000\<rfloor> + 1" by simp
  also have "\<lfloor>rat_of_int (uint usec) / rat_of_int 1000\<rfloor> = uint usec div 1000" by (rule floor_divide_of_int_eq)
  finally have "c_round (of_int (uint usec) / 1000 + 1 / 2) = uint usec div 1000 + 1" .
  moreover have "ms = c_round (of_int (uint usec) / 1000 + 1 / 2)"
    using assms unfolding msec_to_wait_def Let_def by (metis option.inject option.distinct(1))
  ultimately show ?thesis by (rule trans [rotated])
qed

lemma usec_to_next_send_fixed:
  assumes "cfg_dist (cfg e) = 0" "valid_conn s i" "usec_to_next_send e i s = (wait, s1)"
  defines "now \<equiv> fst (time_us e (w_os (fst s)))"
    and "next \<equiv> (if c_estimate (conn i s) \<le> c_sent (conn i s) then c_thread_next (conn i s) + c_interval (conn i s)
      else c_thread_next (conn i s))"
  shows "wait = (if now < next then next - now else 0)" "w_os (fst s1) = snd (time_us e (w_os (fst s)))" "snd s1 = snd s"
    "c_sent (conn i s1) = c_sent (conn i s)" "c_written (conn i s1) = c_written (conn i s)" "valid_conn s1 i"
  using assms
  by (auto simp: usec_to_next_send_def on_os_def gen_next_def Let_def case_prod_beta conn_def on_conn_def on_thread_def
    valid_conn_def split: if_splits)

lemma request_written_sent:
  assumes "valid_conn s i" "c_written (conn i s) = 0" "request_written e i fd n s = Some s'"
  shows "c_sent (conn i s') = c_sent (conn i s) + 1"
proof -
  define s2 where "s2 = on_conn i (\<lambda>c. c\<lparr>c_written := c_written c + n\<rparr>) (request_started e i s)"
  have v: "valid_conn (request_started e i s) i" "c_sent (conn i (request_started e i s)) = c_sent (conn i s) + 1"
    using assms(1) by (simp_all add: request_started_def case_prod_beta conn_on_conn conn_on_os note_start_def
      valid_conn_simps Let_def)
  then have s2: "valid_conn s2 i" "c_sent (conn i s2) = c_sent (conn i s) + 1" by (simp_all add: s2_def conn_on_conn)
  show ?thesis
  proof (cases "c_written (conn i s2) = length (c_request (conn i s2))")
    case False
    then show ?thesis using assms(2,3) s2 by (simp add: request_written_def s2_def [symmetric] Let_def)
  next
    case True
    then obtain s3 rc where r: "delete_file_event e fd AE_WRITABLE (on_conn i (\<lambda>c. c\<lparr>c_written := 0\<rparr>) s2) = Some s3"
      "create_file_event e (c_fd (conn i s3)) AE_WRITABLE P_socket_writeable i s3 = Some (rc, s')"
      using assms(2,3) by (auto simp: request_written_def s2_def [symmetric] Let_def split: bind_splits)
    then have "fst s' = fst (on_conn i (\<lambda>c. c\<lparr>c_written := 0\<rparr>) s2)"
      by (auto simp: delete_file_event_def create_file_event_def)
    then have "conn i s' = conn i (on_conn i (\<lambda>c. c\<lparr>c_written := 0\<rparr>) s2)" by (simp add: conn_def)
    then show ?thesis using s2 by (simp add: conn_on_conn)
  qed
qed

lemma send_request_sent:
  assumes "valid_conn s i" "c_written (conn i s) = 0" "send_request e i fd s = Some s'"
    and "\<forall>fd d ow. fst (fst (sk_write (sock e) i fd d ow)) = NET_OK"
  shows "c_sent (conn i s') = c_sent (conn i s) + 1"
proof -
  define s1 where "s1 = (if c_written (conn i s) = 0 \<and> cfg_dynamic (cfg e)
    then on_conn i (\<lambda>c. c\<lparr>c_request := fst (on_os (script_request e) s)\<rparr>) (snd (on_os (script_request e) s)) else s)"
  define w where "w = on_os (sk_write (sock e) i (c_fd (conn i s1)) (drop (c_written (conn i s1)) (c_request (conn i s1)))) s1"
  have s1: "valid_conn s1 i" "c_written (conn i s1) = 0" "c_sent (conn i s1) = c_sent (conn i s)"
    using assms(1,2) by (simp_all add: s1_def conn_on_conn conn_on_os)
  have ok: "fst (fst w) = NET_OK" using assms(4) by (simp add: w_def on_os_def case_prod_beta)
  have "send_request e i fd s = request_written e i fd (snd (fst w)) (snd w)"
    using ok unfolding send_request_def w_def s1_def Let_def case_prod_beta by simp
  then show ?thesis
    using request_written_sent [of "snd w" i e fd "snd (fst w)" s'] assms(3) s1 by (simp add: w_def conn_on_os)
qed

lemma delay_timer:
  assumes "create_time_event e ms P_delay_request (Conn i) s = s'" "0 \<le> ms"
  shows "w_thread (fst s') = w_thread (fst s)" "\<exists>te. timeEventHead (snd s') = te # timeEventHead (snd s) \<and> timeProc te = P_delay_request \<and> te_clientData te = Conn i \<and>
    in_ms (te_when te) = uint (fst (time_us e (w_os (fst s)))) div 1000 + ms"
proof -
  define us where "us = uint (fst (time_us e (w_os (fst s))))"
  define now where "now = (us div 1000000, us mod 1000000 div 1000)"
  have clk: "fst (loop_clock e (fst s)) = now" by (simp add: loop_clock_def now_def us_def case_prod_beta Let_def)
  have split: "us div 1000000 = us div 1000 div 1000" "us mod 1000000 div 1000 = us div 1000 mod 1000"
    using zdiv_zmult2_eq [of 1000 us 1000] zmod_zmult2_eq [of 1000 us 1000] by simp_all
  have ok: "time_ok now" "in_ms now = us div 1000"
    by (simp_all add: now_def time_ok_def in_ms_def split)
  show "w_thread (fst s') = w_thread (fst s)"
    using assms(1) by (auto simp: create_time_event_def aeCreateTimeEvent_def aeAddMillisecondsToNow_def aeGetTime_def
      loop_clock_def case_prod_beta Let_def)
  show "\<exists>te. timeEventHead (snd s') = te # timeEventHead (snd s) \<and> timeProc te = P_delay_request \<and> te_clientData te = Conn i \<and>
      in_ms (te_when te) = uint (fst (time_us e (w_os (fst s)))) div 1000 + ms"
    using add_ms_later(1) [where clk = "loop_clock e" and w = "fst s", OF clk ok(1) assms(2)] assms(1) ok(2)
    by (auto simp: create_time_event_def aeCreateTimeEvent_def case_prod_beta Let_def te_when_def us_def)
qed

lemma delay_bounds:
  assumes "n \<le> (t :: int)"
  shows "d - 1000 < 1000 * (t div 1000 + ((d - n) div 1000 + 1))"
    "1000 * (t div 1000 + ((d - n) div 1000 + 1)) \<le> d + (t - n) + 1000"
proof -
  have "1000 * (t div 1000) = t - t mod 1000" "1000 * ((d - n) div 1000) = d - n - (d - n) mod 1000"
    by (simp_all add: minus_mod_eq_mult_div)
  moreover have "0 \<le> t mod 1000" "t mod 1000 < 1000" "0 \<le> (d - n) mod 1000" "(d - n) mod 1000 < 1000" by simp_all
  ultimately show "d - 1000 < 1000 * (t div 1000 + ((d - n) div 1000 + 1))"
    "1000 * (t div 1000 + ((d - n) div 1000 + 1)) \<le> d + (t - n) + 1000"
    using assms unfolding distrib_left by linarith+
qed

text \<open>C6: A request is not held back. When the procedure for a writable connection runs at a time at which the next request is due,
  and the socket takes bytes, the request is started. When it is not yet due, a timer of the connection is set instead, whose
  time is within a millisecond of the due time, later at most by the time that the procedure itself takes.\<close>

theorem request_goes_out:
  assumes "clock_ok e clk" "cfg_dist (cfg e) = 0" "valid_conn s i" "c_written (conn i s) = 0"
    and "\<forall>fd d ow. fst (fst (sk_write (sock e) i fd d ow)) = NET_OK"
    and now: "now = fst (time_us e (w_os (fst s)))"
    and target: "target = (if c_estimate (conn i s) \<le> c_sent (conn i s) then c_thread_next (conn i s) + c_interval (conn i s)
      else c_thread_next (conn i s))"
    and run: "socket_writeable e i fd s = Some s'"
  shows "(target \<le> now \<longrightarrow> c_sent (conn i s') = c_sent (conn i s) + 1) \<and>
    (now < target \<longrightarrow> c_sent (conn i s') = c_sent (conn i s) \<and>
      (\<exists>te t. timeEventHead (snd s') = te # timeEventHead (snd s) \<and> timeProc te = P_delay_request \<and> te_clientData te = Conn i \<and>
        now \<le> t \<and> uint target - 1000 < 1000 * in_ms (te_when te) \<and>
        1000 * in_ms (te_when te) \<le> uint target + (uint t - uint now) + 1000))"
proof -
  obtain wait s1 where u: "usec_to_next_send e i s = (wait, s1)" by (cases "usec_to_next_send e i s")
  note n = usec_to_next_send_fixed [OF assms(2,3) u]
  have w: "wait = (if now < target then target - now else 0)" using n(1) by (simp add: now target)
  show ?thesis
  proof (cases "now < target")
    case False
    then have "send_request e i fd s1 = Some s'" using run assms(4) u w by (simp add: socket_writeable_def)
    then show ?thesis using send_request_sent [OF n(6) _ _ assms(5)] n(4,5) assms(4) False by simp
  next
    case True
    then have lt: "uint now < uint target" by (simp add: word_less_def)
    have "(uint target - uint now) mod 2 ^ 64 = uint target - uint now"
    proof (rule mod_pos_pos_trivial)
      have "uint target < 2 ^ 64" using uint_bounded [of target] by simp
      then show "uint target - uint now < 2 ^ 64" using uint_ge_0 [of now] by linarith
    qed (use lt in simp)
    then have w0: "uint wait = uint target - uint now" "wait \<noteq> 0"
      using w True lt by (auto simp: uint_word_ariths)
    then obtain ms s2 where s2: "msec_to_wait wait = Some ms" "delete_file_event e fd AE_WRITABLE s1 = Some s2"
      "create_time_event e ms P_delay_request (Conn i) s2 = s'"
      using run assms(4) u w0(2) by (auto simp: socket_writeable_def split: bind_splits)
    have f: "fst s2 = fst s1" "timeEventHead (snd s2) = timeEventHead (snd s1)"
      using s2(2) delete_file_timers(1) by (auto simp: delete_file_event_def)
    define t where "t = fst (time_us e (w_os (fst s2)))"
    have t: "now \<le> t"
      using assms(1) n(2) f(1) unfolding clock_ok_def now t_def by (metis order.trans)
    have ms: "ms = uint wait div 1000 + 1" by (rule msec_to_wait_eq [OF s2(1)])
    have "0 \<le> uint wait div 1000" by (simp add: div_int_pos_iff)
    then have "0 \<le> ms" using ms by linarith
    from delay_timer(2) [OF s2(3) this] obtain te where te: "timeEventHead (snd s') = te # timeEventHead (snd s2)"
      "timeProc te = P_delay_request" "te_clientData te = Conn i" "in_ms (te_when te) = uint t div 1000 + ms"
      by (auto simp: t_def)
    have b: "uint target - 1000 < 1000 * (uint t div 1000 + ms)" "1000 * (uint t div 1000 + ms) \<le> uint target + (uint t - uint now) + 1000"
      using delay_bounds [of "uint now" "uint t" "uint target"] t w0(1) unfolding ms word_le_def by simp_all
    have "w_thread (fst s') = w_thread (fst s2)" by (rule delay_timer(1) [OF s2(3) \<open>0 \<le> ms\<close>])
    then have "c_sent (conn i s') = c_sent (conn i s)" using n(4) f(1) by (simp add: conn_def)
    then show ?thesis using True te f(2) n(3) t b by auto
  qed
qed

definition demo_waiting :: "u64 \<Rightarrow> connection" where
  "demo_waiting interval = zero_connection\<lparr>c_interval := interval, c_request := ''GET''\<rparr>"

lemma demo_writeable:
  "\<exists>s'. socket_writeable demo_setup 0 0 (demo_state (demo_waiting 500)) = Some s'"
  "\<exists>s'. socket_writeable demo_setup 0 0 (demo_state (demo_waiting 5000)) = Some s'"
  by (simp_all add: demo_state_def demo_waiting_def zero_connection_def demo_setup_def demo_config_def demo_sock_def
    socket_writeable_def usec_to_next_send_def gen_next_def on_os_def on_conn_def on_thread_def conn_def Let_def
    send_request_def request_written_def request_started_def note_start_def delete_file_event_def aeDeleteFileEvent_def
    create_file_event_def aeCreateFileEvent_def aeCreateEventLoop_def array_get_def no_file_event_def
    epoll_ApiAddEvent_def no_epoll_def epoll_events_def has_event_def event_mask_def set_event_def ae_defs
    msec_to_wait_def c_round_def)

theorem request_goes_out_witness:
  "\<exists>s1 s2. socket_writeable demo_setup 0 0 (demo_state (demo_waiting 500)) = Some s1 \<and> c_sent (conn 0 s1) = 1 \<and>
    socket_writeable demo_setup 0 0 (demo_state (demo_waiting 5000)) = Some s2 \<and> c_sent (conn 0 s2) = 0 \<and>
    timeEventHead (snd s2) \<noteq> []"
proof -
  have d: "valid_conn (demo_state (demo_waiting v)) 0" "conn 0 (demo_state (demo_waiting v)) = demo_waiting v"
    "c_written (demo_waiting v) = 0" "c_sent (demo_waiting v) = 0" "c_estimate (demo_waiting v) = 0"
    "c_thread_next (demo_waiting v) = 0" "c_interval (demo_waiting v) = v"
    "fst (time_us demo_setup (w_os (fst (demo_state (demo_waiting v))))) = 900" for v
    by (simp_all add: demo_state_def demo_waiting_def zero_connection_def valid_conn_def conn_def demo_setup_def)
  have e: "cfg_dist (cfg demo_setup) = 0" "\<forall>fd d ow. fst (fst (sk_write (sock demo_setup) 0 fd d ow)) = NET_OK"
    by (simp_all add: demo_setup_def demo_config_def demo_sock_def)
  obtain s1 where s1: "socket_writeable demo_setup 0 0 (demo_state (demo_waiting 500)) = Some s1" using demo_writeable(1) by blast
  obtain s2 where s2: "socket_writeable demo_setup 0 0 (demo_state (demo_waiting 5000)) = Some s2" using demo_writeable(2) by blast
  have "c_sent (conn 0 s1) = 1"
    using request_goes_out [OF demo_ok(2) e(1) d(1) _ e(2) refl refl s1] by (simp add: d word_le_nat_alt)
  moreover have "c_sent (conn 0 s2) = 0 \<and> timeEventHead (snd s2) \<noteq> []"
    using request_goes_out [OF demo_ok(2) e(1) d(1) _ e(2) refl refl s2] by (auto simp: d word_less_nat_alt)
  ultimately show ?thesis using s1 s2 by blast
qed

end
