(* ===== verification/Wrk_Delivery.thy ===== *)
theory Wrk_Delivery
  imports Wrk_Progress Net
begin

text \<open>
  That the bytes of the requests reach the socket: \<open>socket_writeable\<close> of \<open>wrk.c\<close> goes on after a partial write where the last
  one ended, however much the socket takes at a time.
\<close>

section \<open>The wire\<close>

text \<open>\<open>wire\<close> reads from the state outside the thread what a connection has written. A write takes some of the bytes or none; the
  other calls of the procedure write nothing. A connection whose writes fail is given a new socket.\<close>

definition wire_ok :: "('o, 'a) wrk_setup \<Rightarrow> nat \<Rightarrow> ('o \<Rightarrow> string) \<Rightarrow> bool" where
  "wire_ok e i wire \<longleftrightarrow>
     (\<forall>fd d ow. case sk_write (sock e) i fd d ow of ((st, n), o') \<Rightarrow>
        st = NET_RETRY \<and> wire o' = wire ow \<or>
        st = NET_OK \<and> n \<le> length d \<and> (d \<noteq> [] \<longrightarrow> 0 < n) \<and> wire o' = wire ow @ take n d) \<and>
     (\<forall>ow. wire (snd (time_us e ow)) = wire ow) \<and>
     (\<forall>g ow. wire (snd (gen_exp e g ow)) = wire ow) \<and> (\<forall>g ow. wire (snd (gen_zipf e g ow)) = wire ow)"

text \<open>The whole requests written so far and the part of the next one.\<close>

definition delivered :: "('o \<Rightarrow> string) \<Rightarrow> nat \<Rightarrow> string \<Rightarrow> string \<Rightarrow> nat \<Rightarrow> u64 \<Rightarrow> ('o, 'a) wrk_state \<Rightarrow> bool" where
  "delivered wire i req before k sent s \<longleftrightarrow>
     valid_conn s i \<and> c_request (conn i s) = req \<and> c_written (conn i s) < length req \<and>
     wire (w_os (fst s)) = before @ concat (replicate k req) @ take (c_written (conn i s)) req \<and>
     c_sent (conn i s) = sent + of_nat k + (if c_written (conn i s) = 0 then 0 else 1)"

lemma w_os_on_conn [simp]: "w_os (fst (on_conn i f s)) = w_os (fst s)"
  by (simp add: on_conn_def on_thread_def)

lemma w_os_on_os: "w_os (fst (snd (on_os f s))) = snd (f (w_os (fst s)))"
  by (simp add: on_os_def case_prod_beta)

lemma delivered_quiet:
  assumes "delivered wire i req before k sent s" "valid_conn s' i" "c_request (conn i s') = c_request (conn i s)"
    "c_written (conn i s') = c_written (conn i s)" "c_sent (conn i s') = c_sent (conn i s)" "wire (w_os (fst s')) = wire (w_os (fst s))"
  shows "delivered wire i req before k sent s'"
  using assms by (simp add: delivered_def)

lemma request_started_conn:
  assumes "valid_conn s i"
  shows "valid_conn (request_started e i s) i" "c_request (conn i (request_started e i s)) = c_request (conn i s)"
    "c_written (conn i (request_started e i s)) = c_written (conn i s)"
    "c_sent (conn i (request_started e i s)) = c_sent (conn i s) + 1"
    "w_os (fst (request_started e i s)) = snd (time_us e (w_os (fst s)))"
  using assms
  by (simp_all add: request_started_def case_prod_beta conn_on_conn conn_on_os note_start_def valid_conn_simps w_os_on_os Let_def)

lemma request_written_delivered:
  assumes w: "\<forall>ow. wire (snd (time_us e ow)) = wire ow"
    and v: "valid_conn s i" "c_request (conn i s) = req" "c_written (conn i s) < length req"
    and n: "0 < n" "c_written (conn i s) + n \<le> length req"
    and sent: "c_sent (conn i s) = sent + of_nat k + (if c_written (conn i s) = 0 then 0 else 1)"
    and os: "wire (w_os (fst s)) = before @ concat (replicate k req) @ take (c_written (conn i s) + n) req"
    and run: "request_written e i fd n s = Some s'"
  shows "\<exists>k'. delivered wire i req before k' sent s'"
proof -
  define s1 where "s1 = (if c_written (conn i s) = 0 then request_started e i s else s)"
  have s1: "valid_conn s1 i" "c_request (conn i s1) = req" "c_written (conn i s1) = c_written (conn i s)"
    "c_sent (conn i s1) = sent + of_nat k + 1" "wire (w_os (fst s1)) = wire (w_os (fst s))"
    using request_started_conn [OF v(1), of e] v w sent by (auto simp: s1_def)
  define s2 where "s2 = on_conn i (\<lambda>c. c\<lparr>c_written := c_written c + n\<rparr>) s1"
  have s2: "valid_conn s2 i" "c_request (conn i s2) = req" "c_written (conn i s2) = c_written (conn i s) + n"
    "c_sent (conn i s2) = sent + of_nat k + 1" "wire (w_os (fst s2)) = wire (w_os (fst s))"
    using s1 by (simp_all add: s2_def conn_on_conn)
  show ?thesis
  proof (cases "c_written (conn i s) + n = length req")
    case False
    then have "s' = s2" using run s2(2,3) by (simp add: request_written_def s1_def [symmetric] s2_def [symmetric] Let_def)
    then show ?thesis using s2 n os False by (intro exI [of _ k]) (simp add: delivered_def)
  next
    case True
    let ?s3 = "on_conn i (\<lambda>c. c\<lparr>c_written := 0\<rparr>) s2"
    obtain s3 rc where "delete_file_event e fd AE_WRITABLE ?s3 = Some s3"
      "create_file_event e (c_fd (conn i s3)) AE_WRITABLE P_socket_writeable i s3 = Some (rc, s')"
      using run True s2(2,3) by (auto simp: request_written_def s1_def [symmetric] s2_def [symmetric] Let_def split: bind_splits)
    then have f: "fst s' = fst ?s3" by (auto simp: delete_file_event_def create_file_event_def)
    then have "conn i s' = conn i ?s3" "valid_conn s' i = valid_conn ?s3 i" by (simp_all add: conn_def valid_conn_def)
    then show ?thesis
      using s2 os True f v(3) by (intro exI [of _ "Suc k"]) (auto simp: delivered_def conn_on_conn replicate_append_same [symmetric])
  qed
qed

lemma wire_write:
  assumes w: "wire_ok e i wire" and wr: "sk_write (sock e) i fd d ow = ((st, n), o')"
  shows "st = NET_RETRY \<and> wire o' = wire ow \<or> st = NET_OK \<and> n \<le> length d \<and> (d \<noteq> [] \<longrightarrow> 0 < n) \<and> wire o' = wire ow @ take n d"
proof -
  have "\<forall>fd d ow. case sk_write (sock e) i fd d ow of ((st, n), o') \<Rightarrow> st = NET_RETRY \<and> wire o' = wire ow \<or>
      st = NET_OK \<and> n \<le> length d \<and> (d \<noteq> [] \<longrightarrow> 0 < n) \<and> wire o' = wire ow @ take n d"
    using w unfolding wire_ok_def by (rule conjunct1)
  from this [THEN spec [of _ fd], THEN spec [of _ d], THEN spec [of _ ow]] wr show ?thesis by simp
qed

lemma send_request_delivered:
  assumes w: "wire_ok e i wire" and dyn: "\<not> cfg_dynamic (cfg e)"
    and d: "delivered wire i req before k sent s" and run: "send_request e i fd s = Some s'"
  shows "\<exists>k'. delivered wire i req before k' sent s'"
proof -
  define c where "c = conn i s"
  have c: "valid_conn s i" "c_request c = req" "c_written c < length req"
    "wire (w_os (fst s)) = before @ concat (replicate k req) @ take (c_written c) req"
    "c_sent c = sent + of_nat k + (if c_written c = 0 then 0 else 1)"
    using d by (simp_all add: delivered_def c_def)
  obtain st n o' where wr: "sk_write (sock e) i (c_fd c) (drop (c_written c) req) (w_os (fst s)) = ((st, n), o')"
    by (metis surj_pair)
  let ?s2 = "((fst s)\<lparr>w_os := o'\<rparr>, snd s)"
  have on: "on_os (sk_write (sock e) i (c_fd c) (drop (c_written c) req)) s = ((st, n), ?s2)" using wr by (simp add: on_os_def)
  have s2: "conn i ?s2 = c" "valid_conn ?s2 i" using c(1) by (simp_all add: conn_def c_def valid_conn_def)
  consider "st = NET_RETRY" "wire o' = wire (w_os (fst s))"
    | (ok) "st = NET_OK" "0 < n" "c_written c + n \<le> length req" "wire o' = wire (w_os (fst s)) @ take n (drop (c_written c) req)"
    using wire_write [OF w wr] c(3) by auto
  then show ?thesis
  proof cases
    case 1
    then have "s' = ?s2" using run dyn on c by (simp add: send_request_def c_def [symmetric])
    then show ?thesis using d 1 s2 by (intro exI [of _ k]) (simp add: delivered_def c_def [symmetric])
  next
    case ok
    have "request_written e i fd n ?s2 = Some s'" using ok run dyn on c by (simp add: send_request_def c_def [symmetric])
    then show ?thesis
      by (intro request_written_delivered [where k = k and n = n and s = ?s2])
        (use w ok c s2 in \<open>simp_all add: wire_ok_def take_add\<close>)
  qed
qed

lemma usec_delivered:
  assumes w: "wire_ok e i wire" and d: "delivered wire i req before k sent s" and u: "usec_to_next_send e i s = (wait, s1)"
  shows "delivered wire i req before k sent s1"
proof (rule delivered_quiet [OF d])
  have v: "valid_conn s i" using d by (simp add: delivered_def)
  then show "valid_conn s1 i" "c_request (conn i s1) = c_request (conn i s)" "c_written (conn i s1) = c_written (conn i s)"
    "c_sent (conn i s1) = c_sent (conn i s)"
    using u by (auto simp: usec_to_next_send_def case_prod_beta Let_def conn_on_conn conn_on_os)
  show "wire (w_os (fst s1)) = wire (w_os (fst s))"
    using u w by (auto simp: usec_to_next_send_def case_prod_beta Let_def gen_next_def w_os_on_os wire_ok_def)
qed

lemma writeable_delivered:
  assumes w: "wire_ok e i wire" and dyn: "\<not> cfg_dynamic (cfg e)"
    and d: "delivered wire i req before k sent s" and run: "socket_writeable e i fd s = Some s'"
  shows "\<exists>k'. delivered wire i req before k' sent s'"
proof (cases "c_written (conn i s) = 0")
  case False
  then show ?thesis using send_request_delivered [OF w dyn d] run by (simp add: socket_writeable_def)
next
  case True
  obtain wait s1 where u: "usec_to_next_send e i s = (wait, s1)" by (cases "usec_to_next_send e i s")
  note d1 = usec_delivered [OF w d u]
  show ?thesis
  proof (cases "wait = 0")
    case True
    then show ?thesis using send_request_delivered [OF w dyn d1] run u \<open>c_written (conn i s) = 0\<close> by (simp add: socket_writeable_def)
  next
    case False
    then obtain ms s2 where "delete_file_event e fd AE_WRITABLE s1 = Some s2"
      "s' = create_time_event e ms P_delay_request (Conn i) s2"
      using run u True by (auto simp: socket_writeable_def split: bind_splits)
    then have "conn i s' = conn i s1" "valid_conn s' i = valid_conn s1 i" "wire (w_os (fst s')) = wire (w_os (fst s1))"
      using w by (auto simp: delete_file_event_def create_time_event_def aeCreateTimeEvent_def aeAddMillisecondsToNow_def
        aeGetTime_def loop_clock_def case_prod_beta Let_def conn_def valid_conn_def wire_ok_def)
    then show ?thesis using d1 by (intro exI [of _ k]) (simp add: delivered_def)
  qed
qed

text \<open>The procedure is called any number of times.\<close>

fun writeables :: "('o, 'a) wrk_setup \<Rightarrow> nat \<Rightarrow> int \<Rightarrow> nat \<Rightarrow> ('o, 'a) wrk_state \<Rightarrow> ('o, 'a) wrk_state option" where
  "writeables e i fd 0 s = Some s"
| "writeables e i fd (Suc n) s = do { s' \<leftarrow> socket_writeable e i fd s; writeables e i fd n s' }"

lemma writeables_delivered:
  assumes "wire_ok e i wire" "\<not> cfg_dynamic (cfg e)" "delivered wire i req before k sent s" "writeables e i fd n s = Some s'"
  shows "\<exists>k'. delivered wire i req before k' sent s'"
  using assms(3,4)
proof (induction n arbitrary: k s)
  case (Suc n)
  then obtain s1 where s1: "socket_writeable e i fd s = Some s1" "writeables e i fd n s1 = Some s'" by (auto split: bind_splits)
  obtain k' where "delivered wire i req before k' sent s1" using writeable_delivered [OF assms(1,2) Suc.prems(1) s1(1)] by blast
  then show ?case by (rule Suc.IH [OF _ s1(2)])
qed auto

section \<open>Properties\<close>

text \<open>C7: Whatever part of its bytes the socket takes at each call, what a connection writes are whole requests one after the
  other, and then the part of the next one that its count of written bytes tells. The requests counted as sent are those
  whose first bytes have been written.\<close>

theorem requests_delivered:
  assumes "wire_ok e i wire" "\<not> cfg_dynamic (cfg e)" "valid_conn s i" "c_written (conn i s) = 0" "c_request (conn i s) \<noteq> []"
    and "writeables e i fd n s = Some s'"
  shows "\<exists>k. wire (w_os (fst s')) = wire (w_os (fst s)) @ concat (replicate k (c_request (conn i s))) @
      take (c_written (conn i s')) (c_request (conn i s)) \<and>
    c_written (conn i s') < length (c_request (conn i s)) \<and>
    c_sent (conn i s') = c_sent (conn i s) + of_nat k + (if c_written (conn i s') = 0 then 0 else 1)"
proof -
  have "delivered wire i (c_request (conn i s)) (wire (w_os (fst s))) 0 (c_sent (conn i s)) s"
    using assms(3-5) by (simp add: delivered_def)
  from writeables_delivered [OF assms(1,2) this assms(6)] show ?thesis by (auto simp: delivered_def)
qed

text \<open>A kernel that takes two bytes at a time.\<close>

definition two_bytes :: "string syscalls" where
  "two_bytes = \<lparr>sys_read = (\<lambda>fd n ow. ((0, []), ow)), sys_write = (\<lambda>fd d ow. (int (min 2 (length d)), ow @ take 2 d)),
     again = (\<lambda>ow. False), fionread = (\<lambda>fd ow. ((0, 0), ow))\<rparr>"

definition two_bytes_setup :: "(string, epoll_state) wrk_setup" where
  "two_bytes_setup =
     \<lparr>cfg = demo_config, sock = plain_sock two_bytes, time_us = (\<lambda>ow. (900, ow)), new_socket = (\<lambda>ow. (5, ow)),
      start_connect = (\<lambda>fd ow. (0 \<le> fd, ow)), close_fd = (\<lambda>fd ow. ow), script_request = (\<lambda>ow. (''GET'', ow)),
      call_response = (\<lambda>code hs b ow. ow), want_response = False, gen_exp = (\<lambda>v ow. (v, ow)), gen_zipf = (\<lambda>v ow. (v, ow)),
      api_add_event = epoll_ApiAddEvent, api_del_event = epoll_ApiDelEvent\<rparr>"

definition two_bytes_state :: "(string, epoll_state) wrk_state" where
  "two_bytes_state =
     (let (w, l) = demo_state (demo_waiting 500)
      in (\<lparr>w_thread = w_thread w, w_os = [], statistics_requests = statistics_requests w, raw_latency = raw_latency w,
           stop_signal = False, printed = []\<rparr>, l))"

lemma two_bytes_ok: "wire_ok two_bytes_setup 0 id"
  by (auto simp: wire_ok_def two_bytes_setup_def two_bytes_def plain_sock_def sock_write_def min_def)

lemma two_bytes_run: "\<exists>s'. writeables two_bytes_setup 0 0 1 two_bytes_state = Some s' \<and> w_os (fst s') = ''GE''"
  by (simp add: two_bytes_state_def two_bytes_setup_def two_bytes_def plain_sock_def sock_write_def
    demo_state_def demo_waiting_def zero_connection_def demo_config_def
    socket_writeable_def usec_to_next_send_def gen_next_def on_os_def on_conn_def on_thread_def conn_def Let_def
    send_request_def request_written_def request_started_def note_start_def)

theorem requests_delivered_witness:
  "\<exists>s'. writeables two_bytes_setup 0 0 1 two_bytes_state = Some s' \<and> w_os (fst s') = ''GE'' \<and> c_written (conn 0 s') = 2"
proof -
  obtain s' where s': "writeables two_bytes_setup 0 0 1 two_bytes_state = Some s'" "w_os (fst s') = ''GE''"
    using two_bytes_run by blast
  have d: "valid_conn two_bytes_state 0" "c_written (conn 0 two_bytes_state) = 0" "c_request (conn 0 two_bytes_state) = ''GET''"
    "w_os (fst two_bytes_state) = []" "\<not> cfg_dynamic (cfg two_bytes_setup)"
    by (simp_all add: two_bytes_state_def two_bytes_setup_def demo_state_def demo_waiting_def zero_connection_def valid_conn_def
      conn_def demo_config_def)
  obtain k where k: "''GE'' = concat (replicate k ''GET'') @ take (c_written (conn 0 s')) ''GET''" "c_written (conn 0 s') < 3"
    using requests_delivered [OF two_bytes_ok d(5,1,2) _ s'(1)] d s'(2) by auto
  from arg_cong [OF k(1), of length] have "2 = 3 * k + c_written (conn 0 s')"
    using k(2) by (simp add: length_concat sum_list_replicate map_replicate)
  then have "c_written (conn 0 s') = 2" by presburger
  then show ?thesis using s' by blast
qed

end
