(* ===== verification/Wrk_Zipf.thy ===== *)
theory Wrk_Zipf
  imports Wrk_Main
begin

text \<open>
  \<open>gen_zipf\<close> and \<open>gen_exp\<close> of \<open>wrk.c\<close>: the gaps of the distributions \<open>zipf\<close> and \<open>exp\<close>. The doubles are exact rationals, and a
  real number where a logarithm is taken; \<open>rand\<close> is a parameter that gives the number divided by \<open>RAND_MAX\<close>.
\<close>

section \<open>The generator\<close>

definition zipf_n :: nat where "zipf_n = 100"
definition zipf_alpha :: nat where "zipf_alpha = 3"

text \<open>The loops that sum, in the order of the code.\<close>

fun sum_inverse_powers :: "nat \<Rightarrow> rat \<Rightarrow> rat" where
  "sum_inverse_powers 0 c = c"
| "sum_inverse_powers (Suc n) c = sum_inverse_powers n c + 1 / of_nat (Suc n) ^ zipf_alpha"

text \<open>The variables that are \<open>static\<close>: they are computed at the first call, for all threads and connections.\<close>

record zipf =
  zipf_c :: rat
  zipf_scalar :: rat

definition zipf_prob :: "rat \<Rightarrow> nat \<Rightarrow> rat" where
  "zipf_prob c i = c / of_nat i ^ zipf_alpha"

fun zipf_mean :: "rat \<Rightarrow> nat \<Rightarrow> rat" where
  "zipf_mean c 0 = 0"
| "zipf_mean c (Suc n) = zipf_mean c n + of_nat (Suc n) * zipf_prob c (Suc n)"

definition zipf_init :: "u64 \<Rightarrow> zipf" where
  "zipf_init interval =
     (let c = 1 / sum_inverse_powers zipf_n 0
      in \<lparr>zipf_c = c, zipf_scalar = of_int (uint interval) / zipf_mean c zipf_n\<rparr>)"

text \<open>Numbers are drawn until one is strictly between 0 and 1.\<close>

partial_function (option) draw_open :: "('o \<Rightarrow> rat \<times> 'o) \<Rightarrow> 'o \<Rightarrow> (rat \<times> 'o) option" where
  "draw_open rnd ow =
     (let (z, o') = rnd ow in if z = 0 \<or> z = 1 then draw_open rnd o' else Some (z, o'))"

declare draw_open.simps [code]

text \<open>The first value whose cumulative probability reaches \<open>z\<close>; without one it has no value.\<close>

fun zipf_search :: "rat \<Rightarrow> rat \<Rightarrow> nat \<Rightarrow> nat \<Rightarrow> rat \<Rightarrow> nat option" where
  "zipf_search c z i 0 sum_prob = None"
| "zipf_search c z i (Suc n) sum_prob =
     (let sum_prob' = sum_prob + zipf_prob c i
      in if z \<le> sum_prob' then Some i else zipf_search c z (Suc i) n sum_prob')"

definition zipf_first :: "zipf option \<Rightarrow> u64 \<Rightarrow> zipf" where
  "zipf_first st interval = (case st of None \<Rightarrow> zipf_init interval | Some s \<Rightarrow> s)"

definition gen_zipf_step :: "('o \<Rightarrow> rat \<times> 'o) \<Rightarrow> zipf option \<Rightarrow> u64 \<Rightarrow> 'o \<Rightarrow> (u64 \<times> zipf option \<times> 'o) option" where
  "gen_zipf_step rnd st interval ow =
     (let s = zipf_first st interval
      in case draw_open rnd ow of
           None \<Rightarrow> None
         | Some (z, o') \<Rightarrow>
             map_option (\<lambda>v. (word_of_int \<lfloor>of_nat v * zipf_scalar s\<rfloor>, Some s, o')) (zipf_search (zipf_c s) z 1 zipf_n 0))"

section \<open>The distribution\<close>

fun zipf_cumulative :: "rat \<Rightarrow> nat \<Rightarrow> rat" where
  "zipf_cumulative c 0 = 0"
| "zipf_cumulative c (Suc n) = zipf_cumulative c n + zipf_prob c (Suc n)"

lemma succ_pos: "0 < 1 + rat_of_nat n"
  by (metis of_nat_0_less_iff of_nat_Suc zero_less_Suc)

lemma sum_inverse_pos: "0 < n \<Longrightarrow> 0 < sum_inverse_powers n 0"
proof (induction n)
  case (Suc n)
  have "0 < 1 / (1 + rat_of_nat n) ^ zipf_alpha" using succ_pos [of n] by simp
  then show ?case using Suc.IH by (cases n) (auto intro: add_pos_pos)
qed simp

lemma cumulative_eq: "zipf_cumulative c n = c * sum_inverse_powers n 0"
  by (induction n) (simp_all add: zipf_prob_def algebra_simps)

lemma cumulative_total: "0 < n \<Longrightarrow> zipf_cumulative (1 / sum_inverse_powers n 0) n = 1"
  using sum_inverse_pos [of n] by (simp add: cumulative_eq)

lemma zipf_search_spec:
  assumes "zipf_cumulative c i < z" "z \<le> zipf_cumulative c (i + n)"
  shows "\<exists>v. zipf_search c z (Suc i) n (zipf_cumulative c i) = Some v \<and> i < v \<and> v \<le> i + n \<and>
    zipf_cumulative c (v - 1) < z \<and> z \<le> zipf_cumulative c v"
  using assms
proof (induction n arbitrary: i)
  case (Suc n)
  show ?case
  proof (cases "z \<le> zipf_cumulative c (Suc i)")
    case False
    then obtain v where "zipf_search c z (Suc (Suc i)) n (zipf_cumulative c (Suc i)) = Some v" "Suc i < v" "v \<le> Suc i + n"
      "zipf_cumulative c (v - 1) < z" "z \<le> zipf_cumulative c v"
      using Suc.IH [of "Suc i"] Suc.prems by auto
    then show ?thesis using False by (intro exI [of _ v]) auto
  qed (use Suc.prems in auto)
qed simp

lemma zipf_mean_pos: "0 < c \<Longrightarrow> 0 < n \<Longrightarrow> 0 < zipf_mean c n"
proof (induction n)
  case (Suc n)
  have "0 < (1 + rat_of_nat n) * (c / (1 + rat_of_nat n) ^ zipf_alpha)"
    using succ_pos [of n] Suc.prems(1) by (intro mult_pos_pos divide_pos_pos zero_less_power) auto
  then show ?case using Suc by (cases n) (auto simp: zipf_prob_def intro: add_pos_pos)
qed simp



section \<open>Exponential gaps\<close>

text \<open>A gap that is not less than \<open>2^64\<close> microseconds has no conversion to \<open>uint64_t\<close>.\<close>

definition gen_exp_step :: "('o \<Rightarrow> rat \<times> 'o) \<Rightarrow> u64 \<Rightarrow> 'o \<Rightarrow> (u64 \<times> 'o) option" where
  "gen_exp_step rnd interval ow =
     (case draw_open rnd ow of
        None \<Rightarrow> None
      | Some (z, o') \<Rightarrow>
          (let v = - ln (of_rat z) * real_of_int (uint interval)
           in if v < 2 ^ 64 then Some (word_of_int \<lfloor>v\<rfloor>, o') else None))"

text \<open>
  The numbers that are drawn turn into gaps by the inverse of the distribution: the gap is below \<open>k\<close> exactly when the number is
  above \<open>exp (- k / interval)\<close>, so the gaps of numbers drawn evenly are distributed exponentially, with the interval as their mean.
  Numbers that are multiples of \<open>1 / RAND_MAX\<close> give a gap for every interval below \<open>2^59\<close>.
\<close>

lemma exponential_gap:
  assumes "draw_open rnd ow = Some (z, o')" "1 / 2 ^ 31 \<le> z" "z < 1" "0 < uint interval" "uint interval < 2 ^ 59"
  shows "\<exists>gap. gen_exp_step rnd interval ow = Some (gap, o') \<and>
    (\<forall>k::nat. unat gap < k \<longleftrightarrow> exp (- (real k / real_of_int (uint interval))) < of_rat z)"
proof -
  define i where "i = real_of_int (uint interval)"
  define x :: real where "x = of_rat z"
  define v where "v = - ln x * i"
  have i: "0 < i" "i < 2 ^ 59" unfolding i_def using assms(4,5) by (metis of_int_0_less_iff, metis of_int_less_iff of_int_numeral of_int_power)
  have "of_rat (1 / 2 ^ 31) \<le> x" unfolding x_def using assms(2) by (simp only: of_rat_less_eq)
  then have x: "1 / 2 ^ 31 \<le> x" by (simp add: of_rat_divide of_rat_power)
  have "x < of_rat 1" unfolding x_def using assms(3) by (simp only: of_rat_less)
  then have x1: "x < 1" by simp
  have x0: "0 < x" using x by (rule less_le_trans [rotated]) simp
  have "ln (1 / x) < 32"
  proof -
    have "(2::real) ^ 31 \<le> exp 1 ^ 31" by (rule power_mono) (use exp_ge_add_one_self [of 1] in simp_all)
    also have "exp 1 ^ 31 = exp (31 :: real)" by (simp add: exp_of_nat_mult [symmetric])
    finally have e: "(2::real) ^ 31 \<le> exp 31" .
    have "1 / x \<le> 2 ^ 31" using x x0 by (simp add: field_simps)
    then have "1 / x \<le> exp 31" using e by (rule order_trans)
    then have "ln (1 / x) \<le> ln (exp 31)" using x0 by (subst ln_le_cancel_iff) simp_all
    then show ?thesis by simp
  qed
  then have l: "0 < - ln x" "- ln x < 32" using x0 x1 by (simp_all add: ln_div)
  have v0: "0 < v" unfolding v_def using l(1) i(1) by (rule mult_pos_pos)
  have "v < 32 * 2 ^ 59" unfolding v_def by (rule mult_strict_mono) (use l i in auto)
  then have v: "v < 2 ^ 64" by simp
  have f: "0 \<le> \<lfloor>v\<rfloor>" "\<lfloor>v\<rfloor> < 2 ^ 64" using v0 v by (simp_all add: floor_less_iff)
  have "unat (word_of_int \<lfloor>v\<rfloor> :: u64) < k \<longleftrightarrow> exp (- (real k / i)) < x" for k
  proof -
    have "unat (word_of_int \<lfloor>v\<rfloor> :: u64) = nat \<lfloor>v\<rfloor>"
      using f by (simp add: unat_eq_nat_uint uint_word_of_int_eq take_bit_int_eq_self)
    then have "unat (word_of_int \<lfloor>v\<rfloor> :: u64) < k \<longleftrightarrow> v < real k"
      using f(1) by (simp add: nat_less_iff floor_less_iff)
    also have "\<dots> \<longleftrightarrow> - (real k / i) < ln x" unfolding v_def using i(1) by (simp add: field_simps) linarith
    also have "\<dots> \<longleftrightarrow> exp (- (real k / i)) < x" using x0 by (metis exp_less_cancel_iff exp_ln)
    finally show ?thesis .
  qed
  moreover have "gen_exp_step rnd interval ow = Some (word_of_int \<lfloor>v\<rfloor>, o')"
    unfolding gen_exp_step_def Let_def assms(1) option.case prod.case v_def [unfolded x_def i_def, symmetric] using v by (simp only: if_True)
  ultimately show ?thesis unfolding x_def i_def by blast
qed

end
