(* ===== verification/Wrk_Print.thy ===== *)
theory Wrk_Print
  imports Wrk_Main Hdr_Print
begin

text \<open>
  The report that \<open>wrk.c\<close> prints: amounts with their units in columns, the statistics, the latencies and the totals. The
  conversions of \<open>printf\<close> that it uses are definitions; a \<open>long double\<close> is an exact rational, and \<open>ld\<close> is its value for a root.
\<close>

section \<open>The conversions of \<open>printf\<close>\<close>

definition round_even :: "rat \<Rightarrow> int" where
  "round_even q =
     (let f = \<lfloor>q\<rfloor>; d = q - of_int f
      in if d < 1 / 2 then f else if 1 / 2 < d then f + 1 else if even f then f else f + 1)"

text \<open>\<open>%.*Lf\<close>: rounded to \<open>k\<close> decimals, with at least one digit before the point.\<close>

definition digits_text :: "nat \<Rightarrow> nat \<Rightarrow> string" where
  "digits_text k n = (let ds = decimal n in replicate (Suc k - length ds) (CHR ''0'') @ ds)"

definition fixed_text :: "nat \<Rightarrow> rat \<Rightarrow> string" where
  "fixed_text k q =
     (let ds = digits_text k (nat (round_even (\<bar>q\<bar> * 10 ^ k))); m = length ds - k
      in (if q < 0 then ''-'' else []) @ take m ds @ (if k = 0 then [] else CHR ''.'' # drop m ds))"

definition int_text :: "int \<Rightarrow> string" where
  "int_text n = (if n < 0 then CHR ''-'' # decimal (nat (- n)) else decimal (nat n))"

definition right_in :: "nat \<Rightarrow> string \<Rightarrow> string" where
  "right_in w s = replicate (w - length s) SP @ s"

definition left_in :: "nat \<Rightarrow> string \<Rightarrow> string" where
  "left_in w s = s @ replicate (w - length s) SP"

section \<open>Amounts in columns\<close>

text \<open>The text that \<open>format_units\<close> makes of an amount and its unit: two decimals, none for times of the command line.\<close>

definition units_text :: "nat \<Rightarrow> rat \<times> string \<Rightarrow> string" where
  "units_text k a = fixed_text k (fst a) @ snd a"

definition metric_text :: "rat \<Rightarrow> string" where "metric_text n = units_text 2 (format_metric n)"
definition binary_text :: "rat \<Rightarrow> string" where "binary_text n = units_text 2 (format_binary n)"
definition time_us_text :: "rat \<Rightarrow> string" where "time_us_text n = units_text 2 (format_time_us n)"
definition time_s_text :: "rat \<Rightarrow> string" where "time_s_text n = units_text 0 (format_time_s n)"

text \<open>The column is narrowed by one for each of the last two characters that is not a letter; reading before the text is undefined.\<close>

definition print_units :: "rat \<Rightarrow> (rat \<Rightarrow> string) \<Rightarrow> nat \<Rightarrow> string option" where
  "print_units n fmt width =
     (let msg = fmt n; len = length msg
      in if len < 2 then None
         else (let pad = 2 - (if IS_ALPHA (msg ! (len - 1)) then 1 else 0) - (if IS_ALPHA (msg ! (len - 2)) then 1 else 0);
                   w = width - pad
               in Some (right_in w (take w msg) @ take pad [SP, SP])))"

definition newline :: string where "newline = [CHR 0x0A]"

definition print_stats_header :: string where
  "print_stats_header =
     ''  Thread Stats'' @ right_in 6 ''Avg'' @ right_in 11 ''Stdev'' @ right_in 8 ''99%'' @ right_in 12 ''+/- Stdev'' @ newline"

definition print_stats ::
  "(real \<Rightarrow> rat) \<Rightarrow> ((u64 \<Rightarrow> u64 \<Rightarrow> int) \<Rightarrow> u64 list \<Rightarrow> u64 list) \<Rightarrow> string \<Rightarrow> stats \<Rightarrow> (rat \<Rightarrow> string) \<Rightarrow> (string \<times> stats) option" where
  "print_stats ld qsort name s fmt = do {
     (mean, s1) \<leftarrow> stats_summarize qsort s;
     dev \<leftarrow> stats_stdev s1 mean;
     a \<leftarrow> print_units mean fmt 8;
     b \<leftarrow> print_units (ld dev) fmt 10;
     v \<leftarrow> stats_percentile s1 99;
     c \<leftarrow> print_units (of_int (uint v)) fmt 9;
     w \<leftarrow> stats_within_stdev s1 mean (ld dev) 1;
     Some (''    '' @ left_in 10 name @ a @ b @ c @ right_in 8 (fixed_text 2 w) @ ''%'' @ newline, s1)
   }"

definition shown_percentiles :: "rat list" where
  "shown_percentiles = [50, 75, 90, 99, 999 / 10, 9999 / 100, 99999 / 1000, 100]"

fun percentile_lines :: "(rat \<Rightarrow> int option) \<Rightarrow> rat list \<Rightarrow> string option" where
  "percentile_lines value_at [] = Some []"
| "percentile_lines value_at (q # qs) = do {
     n \<leftarrow> value_at q;
     cell \<leftarrow> print_units (of_int n) time_us_text 10;
     rest \<leftarrow> percentile_lines value_at qs;
     Some (right_in 7 (fixed_text 3 q) @ ''%'' @ cell @ newline @ rest)
   }"

text \<open>The text before the table of \<open>hdr_percentiles_print\<close>, and the lines of that table.\<close>

definition print_hdr_latency :: "hdr_histogram \<Rightarrow> string \<Rightarrow> (string \<times> out_line list) option" where
  "print_hdr_latency h description = do {
     ls \<leftarrow> percentile_lines (hdr_value_at_percentile h) shown_percentiles;
     (_, tab) \<leftarrow> hdr_percentiles_print to_list h 5 1000 CLASSIC [];
     Some (''  Latency Distribution (HdrHistogram - '' @ description @ '')'' @ newline @ ls
       @ newline @ ''  Detailed Percentile spectrum:'' @ newline, tab)
   }"

definition print_stats_latency :: "stats \<Rightarrow> string option" where
  "print_stats_latency s = do {
     ls \<leftarrow> percentile_lines (\<lambda>q. map_option uint (stats_percentile s q)) shown_percentiles;
     Some (''  Latency Distribution'' @ newline @ ls)
   }"

section \<open>The lines of \<open>main\<close>\<close>

definition print_start :: "config \<Rightarrow> string \<Rightarrow> string" where
  "print_start c url =
     ''Running '' @ time_s_text (of_int (uint (cfg_duration c))) @ '' test @ '' @ url @ newline @
     ''  '' @ decimal (unat (cfg_threads c)) @ '' threads and '' @ decimal (unat (cfg_connections c)) @ '' connections'' @ newline"

text \<open>The counts of errors are 32-bit numbers printed with \<open>%d\<close>. Without run time the rates are not numbers.\<close>

definition error_text :: "u32 \<Rightarrow> string" where
  "error_text n = int_text (as_int32 (uint n))"

definition print_totals :: "u64 \<Rightarrow> totals \<Rightarrow> string option" where
  "print_totals runtime_us tot =
     (if runtime_us = 0 then None
      else let runtime_s = of_int (uint runtime_us) / 1000000;
               req_per_s = of_int (uint (tot_complete tot)) / runtime_s;
               bytes_per_s = of_int (uint (tot_bytes tot)) / runtime_s;
               e = tot_errors tot
           in Some (''  '' @ decimal (unat (tot_complete tot)) @ '' requests in '' @ time_us_text (of_int (uint runtime_us)) @ '', '' @
             binary_text (of_int (uint (tot_bytes tot))) @ ''B read'' @ newline @
             (if err_connect e \<noteq> 0 \<or> err_read e \<noteq> 0 \<or> err_write e \<noteq> 0 \<or> err_timeout e \<noteq> 0
              then ''  Socket errors: connect '' @ error_text (err_connect e) @ '', read '' @ error_text (err_read e) @
                '', write '' @ error_text (err_write e) @ '', timeout '' @ error_text (err_timeout e) @ newline else []) @
             (if err_status e \<noteq> 0 then ''  Non-2xx or 3xx responses: '' @ error_text (err_status e) @ newline else []) @
             ''Requests/sec: '' @ right_in 9 (fixed_text 2 req_per_s) @ newline @
             ''Transfer/sec: '' @ right_in 10 (binary_text bytes_per_s) @ ''B'' @ newline))"

text \<open>The whole report: the latencies are those of the histogram of all threads.\<close>

definition latency_stats :: "hdr_histogram \<Rightarrow> stats option" where
  "latency_stats h = do {
     lo \<leftarrow> hdr_min h;
     hi \<leftarrow> hdr_max h;
     Some ((stats_alloc 10)\<lparr>smin := word_of_int lo, smax := word_of_int hi, histogram := Some h\<rparr>)
   }"

definition print_report ::
  "(real \<Rightarrow> rat) \<Rightarrow> ((u64 \<Rightarrow> u64 \<Rightarrow> int) \<Rightarrow> u64 list \<Rightarrow> u64 list) \<Rightarrow> config \<Rightarrow> u64 \<Rightarrow> totals \<Rightarrow> stats
    \<Rightarrow> (string \<times> out_line list \<times> string) option" where
  "print_report ld qsort c runtime_us tot reqs = do {
     lat \<leftarrow> latency_stats (tot_latency tot);
     (a, _) \<leftarrow> print_stats ld qsort ''Latency'' lat time_us_text;
     (b, _) \<leftarrow> print_stats ld qsort ''Req/Sec'' reqs metric_text;
     (l, tab) \<leftarrow> (if cfg_latency c then print_hdr_latency (tot_latency tot) ''Recorded Latency'' else Some ([], []));
     t \<leftarrow> print_totals runtime_us tot;
     Some (print_stats_header @ a @ b @ l, tab,
       (if cfg_latency c then replicate 58 (CHR ''-'') @ newline else []) @ t)
   }"

text \<open>
  The file of a thread with the latencies of its responses, which are stored from number 1 on (\<open>row\<close> is the thread's row of
  \<open>raw_latency\<close>, 0 where nothing was stored). \<open>filename\<close> has 10 bytes and the rows are those of \<open>MAXTHREADS\<close> threads.
\<close>

definition raw_file :: "u64 \<Rightarrow> (nat \<rightharpoonup> u64) \<Rightarrow> u64 \<Rightarrow> (string \<times> string) option" where
  "raw_file tid row complete_responses =
     (let filename = decimal (unat tid) @ ''.txt'';
          nnum = (if complete_responses < MAXL then complete_responses else MAXL)
      in if 10 \<le> length filename \<or> MAXTHREADS \<le> tid \<and> 1 < nnum then None
         else Some (filename, concat (map (\<lambda>j. decimal (case row j of None \<Rightarrow> 0 | Some v \<Rightarrow> unat v) @ newline) [1..<unat nnum])))"

text \<open>The latency of the last response of a thread is not printed.\<close>

lemma last_response_not_printed: "raw_file tid (row(unat n := v)) n = raw_file tid row n"
proof -
  have "unat (if n < MAXL then n else MAXL) \<le> unat n" by (auto simp: word_le_nat_alt [symmetric] not_less)
  then have "map (\<lambda>j. decimal (case (row(unat n := v)) j of None \<Rightarrow> 0 | Some v \<Rightarrow> unat v) @ newline) [1..<unat (if n < MAXL then n else MAXL)] =
      map (\<lambda>j. decimal (case row j of None \<Rightarrow> 0 | Some v \<Rightarrow> unat v) @ newline) [1..<unat (if n < MAXL then n else MAXL)]"
    by (intro map_cong) auto
  then show ?thesis unfolding raw_file_def Let_def by (simp only:)
qed


section \<open>Nothing is cut off\<close>

lemma decimal_length: "n < 10 ^ Suc k \<Longrightarrow> length (decimal n) \<le> Suc k"
proof (induction k arbitrary: n)
  case (Suc k)
  then have "n div 10 < 10 ^ Suc k" by (simp add: div_less_iff_less_mult mult.commute)
  then show ?case using Suc.IH [of "n div 10"] by (subst decimal.simps) simp
qed (subst decimal.simps, simp)

lemma digit_not_alpha: "k < 10 \<Longrightarrow> \<not> IS_ALPHA (char_of (48 + k :: nat))"
proof -
  have "\<forall>k \<in> set [0..<10]. \<not> IS_ALPHA (char_of (48 + k :: nat))" by code_simp
  then show "k < 10 \<Longrightarrow> \<not> IS_ALPHA (char_of (48 + k :: nat))" by simp
qed

lemma decimal_not_alpha: "\<forall>c \<in> set (decimal n). \<not> IS_ALPHA c"
proof (induction n rule: decimal.induct)
  case (1 n)
  then show ?case using digit_not_alpha [of n] digit_not_alpha [of "n mod 10"] by (subst decimal.simps) auto
qed

lemma round_even_le:
  assumes "0 \<le> q" "q < of_int m + 1 / 2"
  shows "0 \<le> round_even q" "round_even q \<le> m"
proof -
  have f: "of_int \<lfloor>q\<rfloor> \<le> q" "0 \<le> \<lfloor>q\<rfloor>" using assms(1) by simp_all
  show "0 \<le> round_even q" using f(2) by (simp add: round_even_def Let_def)
  show "round_even q \<le> m"
  proof (cases "\<lfloor>q\<rfloor> < m")
    case False
    moreover have "q < of_int (m + 1)" using assms(2) by simp
    then have "\<lfloor>q\<rfloor> < m + 1" by (simp only: floor_less_iff)
    ultimately have "\<lfloor>q\<rfloor> = m" by simp
    then show ?thesis using assms(2) by (simp add: round_even_def)
  qed (simp add: round_even_def Let_def)
qed

lemma two_elements: "length xs = 2 \<Longrightarrow> \<exists>a b. xs = [a, b]"
  by (cases xs; cases "tl xs") auto

text \<open>An amount below a thousand takes at most six characters, the last two of them digits.\<close>

lemma fixed_shape:
  assumes "0 \<le> q" "q < 1000 - 1 / 200"
  obtains xs d1 d2 where "fixed_text 2 q = xs @ [CHR ''.'', d1, d2]" "\<not> IS_ALPHA d1" "\<not> IS_ALPHA d2" "length xs \<le> 3"
proof -
  let ?n = "nat (round_even (q * 10 ^ 2))"
  have "round_even (q * 10 ^ 2) \<le> 99999" by (rule round_even_le) (use assms in simp_all)
  then have "?n < 10 ^ Suc 4" by simp
  then have len: "length (decimal ?n) \<le> 5" using decimal_length [of ?n 4] by simp
  let ?ds = "digits_text 2 ?n"
  have l: "3 \<le> length ?ds" "length ?ds \<le> 5" using len by (simp_all add: digits_text_def Let_def)
  have "\<not> IS_ALPHA (CHR ''0'')" by code_simp
  then have na: "\<forall>c \<in> set ?ds. \<not> IS_ALPHA c" using decimal_not_alpha [of ?n] by (auto simp: digits_text_def Let_def)
  have "length (drop (length ?ds - 2) ?ds) = 2" using l(1) by simp
  then obtain d1 d2 where d: "drop (length ?ds - 2) ?ds = [d1, d2]" using two_elements by metis
  then have "d1 \<in> set ?ds" "d2 \<in> set ?ds" using set_drop_subset [of "length ?ds - 2" ?ds] by auto
  then show thesis
    using that [of "take (length ?ds - 2) ?ds" d1 d2] d l na assms(1) by (simp add: fixed_text_def Let_def)
qed

text \<open>A column of at least eight characters shows the whole amount with its unit.\<close>

lemma cell:
  assumes "fmt n = fixed_text 2 q @ un" "0 \<le> q" "q < 1000 - 1 / 200" "list_all IS_ALPHA un" "length un \<le> 2" "8 \<le> width"
  shows "print_units n fmt width = Some (right_in (width - (2 - length un)) (fmt n) @ replicate (2 - length un) SP)"
proof -
  obtain xs d1 d2 where x: "fixed_text 2 q = xs @ [CHR ''.'', d1, d2]" "\<not> IS_ALPHA d1" "\<not> IS_ALPHA d2" "length xs \<le> 3"
    by (rule fixed_shape [OF assms(2,3)])
  consider "un = []" | c where "un = [c]" "IS_ALPHA c" | c c' where "un = [c, c']" "IS_ALPHA c" "IS_ALPHA c'"
    using assms(4,5) by (cases un; cases "tl un"; cases "tl (tl un)") auto
  then show ?thesis
    using x assms(1,6) by cases (simp_all add: print_units_def Let_def nth_append numeral_2_eq_2)
qed

lemma cell_length:
  assumes "print_units n fmt width = Some t" "2 \<le> width"
  shows "length t = width"
  using assms by (auto simp: print_units_def Let_def right_in_def split: if_splits)

lemma letters: "IS_ALPHA (CHR ''k'')" "IS_ALPHA (CHR ''M'')" "IS_ALPHA (CHR ''G'')" "IS_ALPHA (CHR ''T'')"
  "IS_ALPHA (CHR ''m'')" "IS_ALPHA (CHR ''s'')" "IS_ALPHA (CHR ''u'')"
  by code_simp+

definition short_amount :: "rat \<times> string \<Rightarrow> bool" where
  "short_amount a \<longleftrightarrow> 0 \<le> fst a \<and> fst a < 1000 - 1 / 200 \<and> list_all IS_ALPHA (snd a) \<and> length (snd a) \<le> 2"

lemma metric_small:
  assumes "0 \<le> n" "n < 85 * 10 ^ 13"
  shows "short_amount (format_metric n)"
  using assms letters by (auto simp: short_amount_def format_metric_def format_units_def metric_units_def)

lemma time_small:
  assumes "0 \<le> n" "n < 999995 \<or> 10 ^ 6 \<le> n \<and> n < 59 * 10 ^ 9"
  shows "short_amount (format_time_us n)"
  using assms letters by (auto simp: short_amount_def format_time_us_def format_units_def time_units_s_def time_units_us_def)

lemma thousand:
  assumes "0 \<le> q" "round_even (q * 10 ^ 2) = 100000"
  shows "fixed_text 2 q = ''1000.00''"
proof -
  have c: "char_of (48 :: nat) = CHR ''0''" "char_of (49 :: nat) = CHR ''1''" by code_simp+
  have d: "digits_text 2 100000 = ''100000''" by (simp add: digits_text_def Let_def decimal.simps c)
  have "nat (round_even (\<bar>q\<bar> * 10 ^ 2)) = 100000" using assms by (simp only: abs_of_nonneg)
  then show ?thesis unfolding fixed_text_def by (simp only: d Let_def) (use assms(1) in simp)
qed

text \<open>C31: Every column that \<open>print_units\<close> writes has exactly its width. In the columns of the report (of eight characters or more)
  a number below 850 T and a time below 16 hours is shown whole, right-justified so that the digits of the column stand below
  each other, with its unit; the exception are the times from 999996 us up to a second, which are rounded up to a thousand
  milliseconds: in a column of eight characters the last letter of the unit is cut off, and they read as a thousand minutes.\<close>

theorem columns_show_amounts:
  assumes "8 \<le> width"
  shows "(\<forall>n fmt t. print_units n fmt width = Some t \<longrightarrow> length t = width) \<and>
    (0 \<le> n \<and> n < 85 * 10 ^ 13 \<longrightarrow> (let un = snd (format_metric n)
       in print_units n metric_text width = Some (right_in (width - (2 - length un)) (metric_text n) @ replicate (2 - length un) SP))) \<and>
    (0 \<le> n \<and> (n < 999995 \<or> 10 ^ 6 \<le> n \<and> n < 59 * 10 ^ 9) \<longrightarrow> (let un = snd (format_time_us n)
       in print_units n time_us_text width = Some (right_in (width - (2 - length un)) (time_us_text n) @ replicate (2 - length un) SP))) \<and>
    (999996 \<le> n \<and> n < 10 ^ 6 \<longrightarrow> time_us_text n = ''1000.00ms'' \<and> print_units n time_us_text 8 = Some ''1000.00m'')"
proof -
  have short: "print_units n fmt width = Some (right_in (width - (2 - length (snd a))) (fmt n) @ replicate (2 - length (snd a)) SP)"
    if "short_amount a" "fmt n = units_text 2 a" for fmt a
    using cell [of fmt n "fst a" "snd a" width] that assms by (simp add: units_text_def short_amount_def)
  have "time_us_text n = ''1000.00ms'' \<and> print_units n time_us_text 8 = Some ''1000.00m''" if n: "999996 \<le> n" "n < 10 ^ 6"
  proof -
    have f: "format_time_us n = (n / 1000, ''ms'')"
      using n by (simp add: format_time_us_def format_units_def time_units_us_def)
    have "\<lfloor>n / 1000 * 10 ^ 2\<rfloor> = 99999" using n by (simp add: floor_eq_iff)
    then have "round_even (n / 1000 * 10 ^ 2) = 100000" using n by (simp add: round_even_def Let_def)
    then have "fixed_text 2 (n / 1000) = ''1000.00''" using n by (intro thousand) simp_all
    then have "time_us_text n = ''1000.00ms''" by (simp add: time_us_text_def units_text_def f)
    then show ?thesis using letters by (simp add: print_units_def Let_def right_in_def)
  qed
  moreover have "\<forall>n fmt t. print_units n fmt width = Some t \<longrightarrow> length t = width"
    using cell_length assms by force
  ultimately show ?thesis
    using short [OF metric_small, of n metric_text] short [OF time_small, of n time_us_text]
    by (simp add: metric_text_def time_us_text_def Let_def)
qed

theorem columns_show_amounts_witness:
  "print_units 1234567 metric_text 8 = Some ''  1.23M '' \<and> print_units 999996 time_us_text 8 = Some ''1000.00m''"
proof -
  have "print_units 999996 time_us_text 8 = Some ''1000.00m''" using columns_show_amounts [of 8 999996] by simp
  moreover have "print_units 1234567 metric_text 8 = Some ''  1.23M ''" by code_simp
  ultimately show ?thesis by simp
qed

end
