(* ===== verification/Url_Parts.thy ===== *)
theory Url_Parts
  imports Wrk_Main
begin

text \<open>
  What \<open>http_parser_parse_url\<close> makes of a URL: the parts that \<open>main\<close> and the script take out of it are the ones it was
  put together from. The loops are followed segment by segment.
\<close>

section \<open>Fields\<close>

definition put_field :: "http_parser_url_fields \<Rightarrow> nat \<Rightarrow> nat \<Rightarrow> http_parser_url \<Rightarrow> http_parser_url" where
  "put_field f k n u = u\<lparr>field_set := field_set u OR uf_bit f, field_off := (field_off u)(f := of_nat k),
     field_len := (field_len u)(f := of_nat n)\<rparr>"

lemma has_field_bit: "has_field u f \<longleftrightarrow> bit (field_set u) (uf_num f)"
  by (simp add: has_field_def uf_bit_def bit_iff_and_push_bit_not_eq_0)

lemma uf_num_eq [simp]: "uf_num f = uf_num g \<longleftrightarrow> f = g" "uf_num f < 16"
  by (cases f; cases g; simp) (cases f; simp)

lemma has_field_put [simp]: "has_field (put_field f k n u) g \<longleftrightarrow> g = f \<or> has_field u g"
  by (auto simp: has_field_bit put_field_def bit_or_iff uf_bit_def bit_exp_iff)

lemma put_field_sel [simp]:
  "field_off (put_field f k n u) g = (if g = f then of_nat k else field_off u g)"
  "field_len (put_field f k n u) g = (if g = f then of_nat n else field_len u g)"
  by (simp_all add: put_field_def)

lemma put_field_extend: "extend_field f (put_field f k n u) = put_field f k (Suc n) u"
  by (simp add: put_field_def extend_field_def add.commute)

lemma put_field_start: "mark_field f (start_field f k 1 u) = put_field f k 1 u"
  by (simp add: put_field_def mark_field_def start_field_def)

section \<open>The URL automaton on a segment\<close>

lemma url_loop_stays:
  assumes "url_field_of s = Some (Some f)" "s \<noteq> s_req_server_with_at" "\<forall>c \<in> set xs. parse_url_char s c = s"
  shows "url_loop (xs @ ys) k s f fa (put_field f q n u) = url_loop ys (k + length xs) s f fa (put_field f q (n + length xs) u)"
  using assms(3)
proof (induction xs arbitrary: k n)
  case (Cons x xs)
  then show ?case using assms(1,2) Cons.IH [of "Suc k" "Suc n"] by (simp add: put_field_extend)
qed simp

lemma url_segment:
  assumes "url_field_of s' = Some (Some f)" "s' \<noteq> s_req_server_with_at" "f \<noteq> old"
    and "parse_url_char s x = s'" "\<forall>c \<in> set xs. parse_url_char s' c = s'"
  shows "url_loop (x # xs @ ys) k s old fa u = url_loop ys (k + Suc (length xs)) s' f fa (put_field f k (Suc (length xs)) u)"
  using assms url_loop_stays [OF assms(1,2,5), of ys "Suc k" fa k 1 u] by (simp add: put_field_start)

text \<open>The classes of characters, as the segments need them.\<close>

definition plain :: "char \<Rightarrow> bool" where
  "plain c \<longleftrightarrow> c \<noteq> SP \<and> c \<noteq> CR \<and> c \<noteq> LF \<and> c \<noteq> TAB \<and> c \<noteq> FF"

lemma alpha_plain: "IS_ALPHA c \<Longrightarrow> plain c \<and> c \<noteq> CHR ''/'' \<and> c \<noteq> CHR ''*''"
  by (auto simp: IS_ALPHA_def plain_def char_le_def LOWER_def char_defs)

lemma num_plain: "IS_NUM c \<Longrightarrow> plain c \<and> c \<noteq> CHR ''/'' \<and> c \<noteq> CHR ''?'' \<and> c \<noteq> CHR ''@''"
  by (auto simp: IS_NUM_def plain_def char_le_def char_defs)

lemma alpha_delims: "IS_ALPHA c \<Longrightarrow> c \<noteq> CHR ''?'' \<and> c \<noteq> CHR ''@'' \<and> c \<noteq> CHR '':'' \<and> c \<noteq> CHR ''[''"
  by (auto simp: IS_ALPHA_def char_le_def LOWER_def)

lemma num_delims: "IS_NUM c \<Longrightarrow> c \<noteq> CHR '':'' \<and> c \<noteq> CHR ''[''"
  by (auto simp: IS_NUM_def char_le_def)

lemma host_plain:
  assumes "IS_HOST_CHAR c \<or> IS_NUM c \<or> c = CHR '':''"
  shows "plain c" "c \<noteq> CHR ''/''" "c \<noteq> CHR ''?''" "c \<noteq> CHR ''@''" "IS_USERINFO_CHAR c"
proof -
  consider "IS_ALPHA c" | "IS_NUM c" | "c = CHR ''.''" | "c = CHR ''-''" | "c = CHR '':''"
    using assms unfolding IS_HOST_CHAR_def IS_ALPHANUM_def by blast
  then have "plain c \<and> c \<noteq> CHR ''/'' \<and> c \<noteq> CHR ''?'' \<and> c \<noteq> CHR ''@'' \<and> IS_USERINFO_CHAR c"
  proof cases
    case 1
    then show ?thesis using alpha_plain alpha_delims by (simp add: IS_USERINFO_CHAR_def IS_ALPHANUM_def)
  next
    case 2
    then show ?thesis using num_plain by (simp add: IS_USERINFO_CHAR_def IS_ALPHANUM_def)
  qed (simp_all add: plain_def char_defs IS_USERINFO_CHAR_def IS_MARK_def)
  then show "plain c" "c \<noteq> CHR ''/''" "c \<noteq> CHR ''?''" "c \<noteq> CHR ''@''" "IS_USERINFO_CHAR c" by simp_all
qed

lemma url_plain: "IS_URL_CHAR c \<Longrightarrow> plain c"
  by (auto simp: url_char_eq plain_def char_defs Let_def)


section \<open>The host automaton on a segment\<close>

lemma host_loop_stays:
  assumes "\<forall>c \<in> set xs. http_parse_host_char s c = s" "s \<noteq> s_http_host_dead" "drop k buf = xs @ ys"
    and "\<And>k n u. host_field_step s s k (put_field f q n u) = put_field f q (Suc n) u"
  shows "host_loop buf (length xs + m) k s (put_field f q n u) = host_loop buf m (k + length xs) s (put_field f q (n + length xs) u)"
  using assms(1,3)
proof (induction xs arbitrary: k n)
  case (Cons x xs)
  have k: "k < length buf" using Cons.prems(2) by (cases "k < length buf") auto
  then have "buf ! k = x" "drop (Suc k) buf = xs @ ys"
    using Cons.prems(2) by (metis Cons_nth_drop_Suc append_Cons list.inject)+
  then show ?case
    using Cons.IH [of "Suc k" "Suc n"] Cons.prems(1) k assms(2,4) by (simp add: Let_def)
qed simp

lemma host_segment:
  assumes "http_parse_host_char s x = s'" "\<forall>c \<in> set xs. http_parse_host_char s' c = s'" "s' \<noteq> s_http_host_dead"
    and "drop k buf = x # xs @ ys"
    and "host_field_step s s' k u = put_field f k 1 u" "\<And>k q n u. host_field_step s' s' k (put_field f q n u) = put_field f q (Suc n) u"
  shows "host_loop buf (Suc (length xs) + m) k s u = host_loop buf m (k + Suc (length xs)) s' (put_field f k (Suc (length xs)) u)"
proof -
  have k: "k < length buf" using assms(4) by (cases "k < length buf") auto
  then have "buf ! k = x" and d: "drop (Suc k) buf = xs @ ys"
    using assms(4) by (metis Cons_nth_drop_Suc append_Cons list.inject)+
  then have "host_loop buf (Suc (length xs) + m) k s u = host_loop buf (length xs + m) (Suc k) s' (put_field f k 1 u)"
    using assms(1,3,5) k by (simp add: Let_def)
  also have "\<dots> = host_loop buf m (k + Suc (length xs)) s' (put_field f k (Suc (length xs)) u)"
    using host_loop_stays [OF assms(2,3) d, of f k m 1 u] assms(6) by simp
  finally show ?thesis .
qed

section \<open>The text of a URL\<close>

definition port_text :: "string option \<Rightarrow> string" where
  "port_text pt = (case pt of None \<Rightarrow> [] | Some ds \<Rightarrow> CHR '':'' # ds)"

definition query_text :: "string option \<Rightarrow> string" where
  "query_text q = (case q of None \<Rightarrow> [] | Some xs \<Rightarrow> CHR ''?'' # xs)"

definition url_text :: "string \<Rightarrow> string \<Rightarrow> string option \<Rightarrow> string \<Rightarrow> string option \<Rightarrow> string" where
  "url_text scheme host pt path q = scheme @ ''://'' @ host @ port_text pt @ path @ query_text q"

lemma drop_url: "drop (length scheme + 3 + n) (url_text scheme host pt path q) = drop n (host @ port_text pt @ path @ query_text q)"
proof -
  have "drop (length scheme + 3) (url_text scheme host pt path q) = host @ port_text pt @ path @ query_text q"
    by (simp add: url_text_def)
  then show ?thesis by (metis drop_drop add.commute)
qed

text \<open>The parts that \<open>url_text\<close> may be given: the classes are those of the two automata, and the offsets have 16 bits.\<close>

definition scheme_ok :: "string \<Rightarrow> bool" where
  "scheme_ok scheme \<longleftrightarrow> scheme \<noteq> [] \<and> list_all IS_ALPHA scheme"

definition host_ok :: "string \<Rightarrow> bool" where
  "host_ok host \<longleftrightarrow> host \<noteq> [] \<and> list_all IS_HOST_CHAR host"

definition port_ok :: "string option \<Rightarrow> bool" where
  "port_ok pt \<longleftrightarrow> (case pt of None \<Rightarrow> True | Some ds \<Rightarrow> ds \<noteq> [] \<and> list_all IS_NUM ds \<and> decimal_value 0 ds < 2 ^ 16)"

definition path_ok :: "string \<Rightarrow> bool" where
  "path_ok path \<longleftrightarrow> path = [] \<or> hd path = CHR ''/'' \<and> list_all IS_URL_CHAR path"

definition query_ok :: "string option \<Rightarrow> bool" where
  "query_ok q \<longleftrightarrow> (case q of None \<Rightarrow> True | Some xs \<Rightarrow> list_all (\<lambda>c. IS_URL_CHAR c \<or> c = CHR ''?'') xs)"

definition url_ok :: "string \<Rightarrow> string \<Rightarrow> string option \<Rightarrow> string \<Rightarrow> string option \<Rightarrow> bool" where
  "url_ok scheme host pt path q \<longleftrightarrow>
     scheme_ok scheme \<and> host_ok host \<and> port_ok pt \<and> path_ok path \<and> query_ok q \<and>
     length (url_text scheme host pt path q) < 2 ^ 16"

text \<open>A part that is empty leaves no field.\<close>

definition put_part :: "http_parser_url_fields \<Rightarrow> nat \<Rightarrow> string \<Rightarrow> http_parser_url \<Rightarrow> http_parser_url" where
  "put_part f k xs u = (if xs = [] then u else put_field f k (length xs) u)"

definition part :: "string \<Rightarrow> string option" where
  "part xs = (if xs = [] then None else Some xs)"

section \<open>The loop over the URL\<close>

lemma server_step:
  assumes "plain c" "c \<noteq> CHR ''/''" "c \<noteq> CHR ''?''" "c \<noteq> CHR ''@''" "IS_USERINFO_CHAR c"
  shows "parse_url_char s_req_server_start c = s_req_server" "parse_url_char s_req_server c = s_req_server"
  using assms by (simp_all add: parse_url_char_def plain_def)

lemma scheme_step:
  assumes "IS_ALPHA c"
  shows "parse_url_char s_req_spaces_before_url c = s_req_schema" "parse_url_char s_req_schema c = s_req_schema"
  using alpha_plain [OF assms] assms by (simp_all add: parse_url_char_def plain_def)

lemma delimiter_step:
  "parse_url_char s_req_schema (CHR '':'') = s_req_schema_slash"
  "parse_url_char s_req_schema_slash (CHR ''/'') = s_req_schema_slash_slash"
  "parse_url_char s_req_schema_slash_slash (CHR ''/'') = s_req_server_start"
  "parse_url_char s_req_server (CHR ''/'') = s_req_path"
  "parse_url_char s_req_server (CHR ''?'') = s_req_query_string_start"
  "parse_url_char s_req_path (CHR ''?'') = s_req_query_string_start"
  by code_simp+

lemma path_step: "IS_URL_CHAR c \<Longrightarrow> parse_url_char s_req_path c = s_req_path"
  using url_plain by (simp add: parse_url_char_def plain_def)

lemma query_step:
  assumes "IS_URL_CHAR c \<or> c = CHR ''?''"
  shows "parse_url_char s_req_query_string_start c = s_req_query_string" "parse_url_char s_req_query_string c = s_req_query_string"
proof -
  have "plain c" using assms url_plain by (auto simp: plain_def char_defs)
  then show "parse_url_char s_req_query_string_start c = s_req_query_string" "parse_url_char s_req_query_string c = s_req_query_string"
    using assms by (auto simp: parse_url_char_def plain_def)
qed

lemma url_field_states [simp]:
  "url_field_of s_req_schema = Some (Some UF_SCHEMA)" "url_field_of s_req_server = Some (Some UF_HOST)"
  "url_field_of s_req_path = Some (Some UF_PATH)" "url_field_of s_req_query_string = Some (Some UF_QUERY)"
  "url_field_of s_req_schema_slash = Some None" "url_field_of s_req_schema_slash_slash = Some None"
  "url_field_of s_req_server_start = Some None" "url_field_of s_req_query_string_start = Some None"
  by (simp_all add: url_field_of_def)

lemma query_loop:
  assumes "query_ok q" "s = s_req_server \<or> s = s_req_path" "old \<noteq> UF_QUERY"
  shows "url_loop (query_text q) k s old fa u = (Some fa, put_part UF_QUERY (Suc k) (case_option [] id q) u)"
proof (cases "case_option [] id q")
  case Nil
  then show ?thesis
    using assms by (cases q) (auto simp: query_text_def put_part_def delimiter_step)
next
  case (Cons x xs)
  then have q: "q = Some (x # xs)" by (cases q) simp_all
  then have c: "\<forall>c \<in> set (x # xs). IS_URL_CHAR c \<or> c = CHR ''?''"
    using assms(1) by (simp add: query_ok_def list_all_iff)
  have "url_loop (query_text q) k s old fa u = url_loop (x # xs @ []) (Suc k) s_req_query_string_start old fa u"
    using assms(2) by (auto simp: q query_text_def delimiter_step)
  also have "\<dots> = url_loop [] (Suc k + Suc (length xs)) s_req_query_string UF_QUERY fa (put_field UF_QUERY (Suc k) (Suc (length xs)) u)"
    by (rule url_segment) (use assms(3) c query_step in \<open>auto\<close>)
  finally show ?thesis by (simp add: q put_part_def)
qed

lemma path_loop:
  assumes "path_ok path"
  shows "url_loop (path @ ys) k s_req_server UF_HOST fa u =
    url_loop ys (k + length path) (if path = [] then s_req_server else s_req_path) (if path = [] then UF_HOST else UF_PATH) fa
      (put_part UF_PATH k path u)"
proof (cases path)
  case (Cons x xs)
  then have c: "x = CHR ''/''" "\<forall>c \<in> set xs. IS_URL_CHAR c"
    using assms by (auto simp: path_ok_def list_all_iff)
  have "url_loop (x # xs @ ys) k s_req_server UF_HOST fa u =
      url_loop ys (k + Suc (length xs)) s_req_path UF_PATH fa (put_field UF_PATH k (Suc (length xs)) u)"
    by (rule url_segment) (use c path_step delimiter_step in \<open>auto\<close>)
  then show ?thesis by (simp add: Cons put_part_def)
qed (simp add: put_part_def)

lemma server_loop:
  assumes "host_ok host" "port_ok pt"
  shows "url_loop (host @ port_text pt @ ys) k s_req_server_start UF_SCHEMA fa u =
    url_loop ys (k + length (host @ port_text pt)) s_req_server UF_HOST fa (put_field UF_HOST k (length (host @ port_text pt)) u)"
proof -
  obtain x xs where x: "host @ port_text pt = x # xs" using assms(1) by (cases host) (auto simp: host_ok_def)
  have h: "\<forall>c \<in> set (x # xs). IS_HOST_CHAR c \<or> IS_NUM c \<or> c = CHR '':''"
    using assms unfolding x [symmetric] by (auto simp: host_ok_def port_ok_def port_text_def list_all_iff split: option.splits)
  have c: "\<forall>c \<in> set (x # xs). parse_url_char s_req_server_start c = s_req_server \<and> parse_url_char s_req_server c = s_req_server"
    by (rule ballI) (use h in \<open>intro conjI server_step host_plain; blast\<close>)
  have "url_loop (x # xs @ ys) k s_req_server_start UF_SCHEMA fa u =
      url_loop ys (k + Suc (length xs)) s_req_server UF_HOST fa (put_field UF_HOST k (Suc (length xs)) u)"
    by (rule url_segment) (use c in \<open>auto\<close>)
  then show ?thesis using x by (metis append.assoc append_Cons length_Cons)
qed

lemma scheme_loop:
  assumes "scheme_ok scheme"
  shows "url_loop (scheme @ ''://'' @ ys) 0 s_req_spaces_before_url UF_MAX fa u =
    url_loop ys (length scheme + 3) s_req_server_start UF_SCHEMA fa (put_field UF_SCHEMA 0 (length scheme) u)"
proof -
  obtain x xs where x: "scheme = x # xs" using assms by (cases scheme) (auto simp: scheme_ok_def)
  have c: "\<forall>c \<in> set (x # xs). IS_ALPHA c" using assms unfolding scheme_ok_def x list_all_iff by blast
  have "url_loop (x # xs @ (''://'' @ ys)) 0 s_req_spaces_before_url UF_MAX fa u =
      url_loop (''://'' @ ys) (0 + Suc (length xs)) s_req_schema UF_SCHEMA fa (put_field UF_SCHEMA 0 (Suc (length xs)) u)"
    by (rule url_segment) (use c scheme_step in \<open>auto\<close>)
  also have "\<dots> = url_loop ys (length scheme + 3) s_req_server_start UF_SCHEMA fa (put_field UF_SCHEMA 0 (length scheme) u)"
    by (simp add: x delimiter_step numeral_3_eq_3)
  finally show ?thesis by (simp add: x)
qed

text \<open>What the loop over a whole URL leaves in the structure.\<close>

definition url_fields :: "string \<Rightarrow> string \<Rightarrow> string option \<Rightarrow> string \<Rightarrow> string option \<Rightarrow> http_parser_url \<Rightarrow> http_parser_url" where
  "url_fields scheme host pt path q u =
     (let k = length scheme + 3; j = k + length (host @ port_text pt)
      in put_part UF_QUERY (Suc (j + length path)) (case_option [] id q) (put_part UF_PATH j path
           (put_field UF_HOST k (length (host @ port_text pt)) (put_field UF_SCHEMA 0 (length scheme) u))))"

lemma url_loop_fields:
  assumes "url_ok scheme host pt path q"
  shows "url_loop (url_text scheme host pt path q) 0 s_req_spaces_before_url UF_MAX False u = (Some False, url_fields scheme host pt path q u)"
proof -
  have ok: "scheme_ok scheme" "host_ok host" "port_ok pt" "path_ok path" "query_ok q"
    using assms by (simp_all add: url_ok_def)
  show ?thesis
    unfolding url_text_def scheme_loop [OF ok(1)] server_loop [OF ok(2,3)] path_loop [OF ok(4)]
    by (subst query_loop [OF ok(5)]) (simp_all add: url_fields_def Let_def)
qed

section \<open>The host and the port\<close>

lemma mark_marked:
  assumes "has_field u f"
  shows "field_set u OR uf_bit f = field_set u"
  by (rule bit_eqI) (use assms in \<open>auto simp: has_field_bit bit_or_iff uf_bit_def bit_exp_iff\<close>)

lemma host_start:
  assumes "has_field u UF_HOST" "field_len u UF_HOST = 0"
  shows "host_field_step s_http_host_start s_http_host k u = put_field UF_HOST k 1 u"
  using assms by (simp add: host_field_step_def put_field_def start_field_def extend_field_def mark_marked)

lemma host_stays: "host_field_step s_http_host s_http_host k (put_field UF_HOST q n u) = put_field UF_HOST q (Suc n) u"
  by (simp add: host_field_step_def put_field_extend)

lemma port_start:
  "host_field_step s_http_host_port_start s_http_host_port k u = put_field UF_PORT k 1 u"
  by (simp add: host_field_step_def put_field_def start_field_def extend_field_def mark_field_def)

lemma host_colon: "http_parse_host_char s_http_host (CHR '':'') = s_http_host_port_start"
  by code_simp

lemma host_first: "IS_HOST_CHAR c \<Longrightarrow> http_parse_host_char s_http_host_start c = s_http_host"
  by (cases "c = CHR ''[''") (auto simp: http_parse_host_char_def IS_HOST_CHAR_def IS_ALPHANUM_def dest: alpha_delims num_delims)

lemma host_loop_host:
  assumes "host_ok host" "drop k buf = host @ ys" "has_field u UF_HOST" "field_len u UF_HOST = 0"
  shows "host_loop buf (length host + m) k s_http_host_start u = host_loop buf m (k + length host) s_http_host (put_field UF_HOST k (length host) u)"
proof -
  obtain x xs where x: "host = x # xs" using assms(1) by (cases host) (auto simp: host_ok_def)
  have "\<forall>c \<in> set host. IS_HOST_CHAR c" using assms(1) by (simp add: host_ok_def list_all_iff)
  then have "host_loop buf (Suc (length xs) + m) k s_http_host_start u =
      host_loop buf m (k + Suc (length xs)) s_http_host (put_field UF_HOST k (Suc (length xs)) u)"
    using assms(2) host_first [of x]
    by (intro host_segment [where x = x and xs = xs and ys = ys] host_start [OF assms(3,4)] host_stays)
      (auto simp: x http_parse_host_char_def)
  then show ?thesis by (simp add: x)
qed

lemma host_loop_port:
  assumes "port_ok pt" "drop k buf = port_text pt @ ys"
  shows "host_loop buf (length (port_text pt)) k s_http_host u =
    Some (Some (if pt = None then s_http_host else s_http_host_port), put_part UF_PORT (Suc k) (case_option [] id pt) u)"
proof (cases pt)
  case (Some ds)
  then obtain x xs where x: "ds = x # xs" "\<forall>c \<in> set (x # xs). IS_NUM c"
    using assms(1) by (cases ds) (auto simp: port_ok_def list_all_iff)
  have d: "drop k buf = CHR '':'' # x # xs @ ys" using assms(2) Some x by (simp add: port_text_def)
  then have k: "k < length buf" by (cases "k < length buf") auto
  then have "buf ! k = CHR '':''" and d': "drop (Suc k) buf = x # xs @ ys"
    using d by (metis Cons_nth_drop_Suc list.inject)+
  then have "host_loop buf (length (port_text pt)) k s_http_host u = host_loop buf (Suc (length xs) + 0) (Suc k) s_http_host_port_start u"
    using k by (simp add: Some x port_text_def host_colon host_field_step_def Let_def)
  also have "\<dots> = host_loop buf 0 (Suc k + Suc (length xs)) s_http_host_port (put_field UF_PORT (Suc k) (Suc (length xs)) u)"
    using x(2)
    by (intro host_segment [OF _ _ _ d'])
      (auto simp: http_parse_host_char_def port_start, simp add: host_field_step_def put_field_extend)
  finally show ?thesis by (simp add: Some x put_part_def)
qed (simp add: port_text_def put_part_def)

lemma decimal_value_app:
  assumes "\<forall>c \<in> set ds. IS_NUM c" "ys = [] \<or> \<not> IS_NUM (hd ys)"
  shows "decimal_value acc (ds @ ys) = decimal_value acc ds"
  using assms(1)
proof (induction ds arbitrary: acc)
  case Nil
  then show ?case using assms(2) by (cases ys) auto
qed simp

text \<open>What \<open>http_parse_host\<close> then leaves: the length of the host is that of the host alone.\<close>

definition host_fields :: "string \<Rightarrow> string \<Rightarrow> string option \<Rightarrow> http_parser_url \<Rightarrow> http_parser_url" where
  "host_fields scheme host pt u =
     (let k = length scheme + 3
      in put_part UF_PORT (Suc (k + length host)) (case_option [] id pt)
           (put_field UF_HOST k (length host) (u\<lparr>field_len := (field_len u)(UF_HOST := 0)\<rparr>)))"

lemma u16_of_nat: "n < 2 ^ 16 \<Longrightarrow> unat (of_nat n :: u16) = n"
  by (simp add: unat_of_nat take_bit_nat_eq_self)

lemma url_fields_host:
  assumes "url_ok scheme host pt path q"
  shows "has_field (url_fields scheme host pt path q u) UF_HOST"
    "field_off (url_fields scheme host pt path q u) UF_HOST = of_nat (length scheme + 3)"
    "field_len (url_fields scheme host pt path q u) UF_HOST = of_nat (length (host @ port_text pt))"
  by (simp_all add: url_fields_def put_part_def Let_def)

lemma parse_host_fields:
  assumes "url_ok scheme host pt path q" "u = url_fields scheme host pt path q v"
  shows "http_parse_host (url_text scheme host pt path q) u False = Some (0, host_fields scheme host pt u)"
proof -
  let ?buf = "url_text scheme host pt path q" and ?k = "length scheme + 3"
  have ok: "host_ok host" "port_ok pt" "length ?buf < 2 ^ 16" using assms(1) by (simp_all add: url_ok_def)
  have n: "unat (field_off u UF_HOST) = ?k" "unat (field_len u UF_HOST) = length (host @ port_text pt)"
    unfolding assms(2) url_fields_host [OF assms(1)] by (rule u16_of_nat, use ok(3) in \<open>simp add: url_text_def\<close>)+
  have d: "drop ?k ?buf = host @ port_text pt @ path @ query_text q" by (simp add: url_text_def)
  have "drop (?k + length host) ?buf = port_text pt @ path @ query_text q" unfolding drop_url by simp
  note loops = host_loop_host [OF ok(1) d, of "u\<lparr>field_len := (field_len u)(UF_HOST := 0)\<rparr>" "length (port_text pt)"]
    host_loop_port [OF ok(2) this]
  have "has_field (u\<lparr>field_len := (field_len u)(UF_HOST := 0)\<rparr>) UF_HOST"
    using url_fields_host [OF assms(1)] by (simp add: assms(2) has_field_def)
  with loops have "host_loop ?buf (length (host @ port_text pt)) ?k s_http_host_start (u\<lparr>field_len := (field_len u)(UF_HOST := 0)\<rparr>) =
      Some (Some (if pt = None then s_http_host else s_http_host_port), host_fields scheme host pt u)"
    by (simp add: host_fields_def Let_def)
  then show ?thesis by (simp add: http_parse_host_def n Let_def)
qed

section \<open>The whole URL\<close>

lemma port_value:
  assumes "url_ok scheme host (Some ds) path q"
  shows "strtoul10 (drop (Suc (length scheme + 3 + length host)) (url_text scheme host (Some ds) path q)) = decimal_value 0 ds"
proof -
  have ds: "\<forall>c \<in> set ds. IS_NUM c" "decimal_value 0 ds < 2 ^ 16"
    using assms by (simp_all add: url_ok_def port_ok_def list_all_iff)
  have "path @ query_text q = [] \<or> \<not> IS_NUM (hd (path @ query_text q))"
    using assms by (cases path; cases q) (auto simp: url_ok_def path_ok_def query_text_def IS_NUM_def char_le_def)
  moreover have "drop (Suc (length scheme + 3 + length host)) (url_text scheme host (Some ds) path q) = ds @ path @ query_text q"
    using drop_url [of scheme "Suc (length host)"] by (simp add: port_text_def)
  ultimately show ?thesis using decimal_value_app [OF ds(1)] ds(2) by (simp add: strtoul10_def)
qed


definition parsed_url :: "string \<Rightarrow> string \<Rightarrow> string option \<Rightarrow> string \<Rightarrow> string option \<Rightarrow> http_parser_url" where
  "parsed_url scheme host pt path q =
     (host_fields scheme host pt (url_fields scheme host pt path q no_parts))
       \<lparr>port := case_option 0 (\<lambda>ds. of_int (decimal_value 0 ds)) pt\<rparr>"

lemmas parsed_defs = parsed_url_def host_fields_def url_fields_def put_part_def Let_def

lemma parsed_has_field:
  assumes "url_ok scheme host pt path q"
  shows "has_field (parsed_url scheme host pt path q) f \<longleftrightarrow>
    (case f of UF_SCHEMA \<Rightarrow> True | UF_HOST \<Rightarrow> True | UF_PORT \<Rightarrow> pt \<noteq> None | UF_PATH \<Rightarrow> path \<noteq> []
       | UF_QUERY \<Rightarrow> case_option [] id q \<noteq> [] | _ \<Rightarrow> False)"
proof -
  have pt: "case_option [] id pt = [] \<longleftrightarrow> pt = None" using assms by (cases pt) (simp_all add: url_ok_def port_ok_def)
  have "has_field (u\<lparr>field_len := l\<rparr>) f = has_field u f" "has_field (u\<lparr>port := n\<rparr>) f = has_field u f"
    "\<not> has_field no_parts f" for u l n
    by (simp_all add: has_field_def no_parts_def)
  then show ?thesis
    using pt by (cases f) (simp_all add: parsed_url_def host_fields_def url_fields_def put_part_def Let_def)
qed

lemma script_parse_url_text:
  assumes "url_ok scheme host pt path q"
  shows "script_parse_url (url_text scheme host pt path q) no_parts = Some (True, parsed_url scheme host pt path q)"
proof -
  let ?url = "url_text scheme host pt path q" and ?u = "url_fields scheme host pt path q no_parts"
  let ?v = "host_fields scheme host pt ?u"
  have "no_parts\<lparr>port := 0, field_set := 0\<rparr> = no_parts" by (simp add: no_parts_def)
  then have loop: "url_loop ?url 0 s_req_spaces_before_url UF_MAX False (no_parts\<lparr>port := 0, field_set := 0\<rparr>) = (Some False, ?u)"
    by (simp add: url_loop_fields [OF assms])
  have "field_set ?u AND (uf_bit UF_SCHEMA OR uf_bit UF_HOST) \<noteq> 0"
    using url_fields_host(1) [OF assms, of no_parts]
    by (metis has_field_def bit.conj_disj_distrib or_eq_0_iff)
  then have parsed: "http_parser_parse_url ?url False no_parts =
      (if has_field ?v UF_PORT
       then (let v = strtoul10 (drop (unat (field_off ?v UF_PORT)) ?url)
             in if 0xffff < v then Some (1, ?v) else Some (0, ?v\<lparr>port := of_int v\<rparr>))
       else Some (0, ?v))"
    using parse_host_fields [OF assms refl, of no_parts] by (simp add: http_parser_parse_url_def loop)
  have has: "has_field ?v f = has_field (parsed_url scheme host pt path q) f" for f
    by (simp add: parsed_url_def has_field_def)
  have "http_parser_parse_url ?url False no_parts = Some (0, parsed_url scheme host pt path q)"
  proof (cases pt)
    case None
    then have "parsed_url scheme host pt path q = ?v"
      by (simp add: parsed_url_def host_fields_def url_fields_def put_part_def put_field_def Let_def no_parts_def)
    then show ?thesis using parsed_has_field [OF assms, of UF_PORT] None parsed by simp
  next
    case (Some ds)
    have "ds \<noteq> []" "decimal_value 0 ds < 2 ^ 16" "length ?url < 2 ^ 16"
      using assms Some by (simp_all add: url_ok_def port_ok_def)
    then have "field_off ?v UF_PORT = of_nat (Suc (length scheme + 3 + length host))"
      "Suc (length scheme + 3 + length host) < 2 ^ 16"
      by (simp_all add: Some host_fields_def put_part_def Let_def url_text_def port_text_def)
    then have "unat (field_off ?v UF_PORT) = Suc (length scheme + 3 + length host)" by (simp only: u16_of_nat)
    then have "strtoul10 (drop (unat (field_off ?v UF_PORT)) ?url) = decimal_value 0 ds"
      using port_value [of scheme host ds path q] assms Some by simp
    moreover have "has_field ?v UF_PORT" using parsed_has_field [OF assms, of UF_PORT] has [of UF_PORT] Some by simp
    ultimately show ?thesis
      using parsed \<open>decimal_value 0 ds < 2 ^ 16\<close> by (simp add: parsed_url_def Some Let_def)
  qed
  then show ?thesis using parsed_has_field [OF assms] by (simp add: script_parse_url_def)
qed

lemma copied_part:
  assumes "url_ok scheme host pt path q" "has_field u f" "field_off u f = of_nat k" "field_len u f = of_nat (length xs)"
    "drop k (url_text scheme host pt path q) = xs @ ys" "k + length xs \<le> length (url_text scheme host pt path q)"
  shows "copy_url_part (url_text scheme host pt path q) u f = Some xs"
proof -
  have "length (url_text scheme host pt path q) < 2 ^ 16" using assms(1) by (simp add: url_ok_def)
  then have "unat (field_off u f) = k" "unat (field_len u f) = length xs"
    unfolding assms(3,4) using assms(6) by (simp_all only: u16_of_nat)
  then show ?thesis using assms(2,5) by (simp add: copy_url_part_def)
qed


text \<open>Each part that is there lies where its field says.\<close>

lemma whole_parts:
  assumes "url_ok scheme host pt path q"
  shows "copy_url_part (url_text scheme host pt path q) (parsed_url scheme host pt path q) UF_SCHEMA = Some scheme"
    "copy_url_part (url_text scheme host pt path q) (parsed_url scheme host pt path q) UF_HOST = Some host"
proof -
  note copied = copied_part [OF assms parsed_has_field [OF assms, THEN iffD2]]
  show "copy_url_part (url_text scheme host pt path q) (parsed_url scheme host pt path q) UF_SCHEMA = Some scheme"
    by (rule copied [where k = 0]) (simp_all add: parsed_defs url_text_def)
  show "copy_url_part (url_text scheme host pt path q) (parsed_url scheme host pt path q) UF_HOST = Some host"
    by (rule copied [where k = "length scheme + 3"]) (simp_all add: parsed_defs drop_url [of _ 0, simplified], simp add: url_text_def)
qed

lemma port_part:
  assumes "url_ok scheme host pt path q"
  shows "copy_url_part (url_text scheme host pt path q) (parsed_url scheme host pt path q) UF_PORT = pt"
proof (cases pt)
  case None
  then show ?thesis using parsed_has_field [OF assms, of UF_PORT] by (simp add: copy_url_part_def)
next
  case (Some ds)
  then have ok: "url_ok scheme host (Some ds) path q" "ds \<noteq> []" using assms by (simp_all add: url_ok_def port_ok_def)
  show ?thesis
    unfolding Some using drop_url [of scheme "Suc (length host)" host "Some ds" path q] ok(2)
    by (intro copied_part [OF ok(1) parsed_has_field [OF ok(1), THEN iffD2], where k = "length scheme + 3 + Suc (length host)"])
      (simp_all add: parsed_defs port_text_def, simp add: url_text_def port_text_def)
qed

lemma path_part:
  assumes "url_ok scheme host pt path q"
  shows "copy_url_part (url_text scheme host pt path q) (parsed_url scheme host pt path q) UF_PATH = part path"
    "path \<noteq> [] \<Longrightarrow> unat (field_off (parsed_url scheme host pt path q) UF_PATH) = length scheme + 3 + length (host @ port_text pt)"
proof -
  let ?j = "length scheme + 3 + length (host @ port_text pt)"
  have len: "length (url_text scheme host pt path q) = ?j + length path + length (query_text q)" by (simp add: url_text_def)
  then have j: "?j < 2 ^ 16" using assms by (simp add: url_ok_def)
  have off: "path \<noteq> [] \<Longrightarrow> field_off (parsed_url scheme host pt path q) UF_PATH = of_nat ?j" by (simp add: parsed_defs)
  show "unat (field_off (parsed_url scheme host pt path q) UF_PATH) = ?j" if "path \<noteq> []"
    unfolding off [OF that] by (rule u16_of_nat [OF j])
  show "copy_url_part (url_text scheme host pt path q) (parsed_url scheme host pt path q) UF_PATH = part path"
  proof (cases "path = []")
    case True
    then show ?thesis using parsed_has_field [OF assms, of UF_PATH] by (simp add: copy_url_part_def part_def)
  next
    case False
    then show ?thesis
      using drop_url [of scheme "length (host @ port_text pt)" host pt path q] len
      by (simp only: part_def if_False, intro copied_part [OF assms parsed_has_field [OF assms, THEN iffD2], where k = ?j])
        (simp_all add: parsed_defs)
  qed
qed

lemma query_part:
  assumes "url_ok scheme host pt path q"
  shows "copy_url_part (url_text scheme host pt path q) (parsed_url scheme host pt path q) UF_QUERY = Option.bind q part"
proof (cases "case_option [] id q = []")
  case True
  then have "\<not> has_field (parsed_url scheme host pt path q) UF_QUERY" using parsed_has_field [OF assms, of UF_QUERY] by simp
  with True show ?thesis by (cases q) (simp_all add: part_def copy_url_part_def)
next
  case False
  then obtain xs where q: "q = Some xs" "xs \<noteq> []" by (cases q) simp_all
  let ?j = "Suc (length scheme + 3 + length (host @ port_text pt) + length path)"
  have "drop ?j (url_text scheme host pt path q) = xs @ []"
    using drop_url [of scheme "Suc (length (host @ port_text pt) + length path)" host pt path q] by (simp add: q query_text_def)
  then have "copy_url_part (url_text scheme host pt path q) (parsed_url scheme host pt path q) UF_QUERY = Some xs"
    using q by (intro copied_part [OF assms parsed_has_field [OF assms, THEN iffD2], where k = ?j])
      (simp_all add: parsed_defs, simp add: url_text_def query_text_def)
  then show ?thesis using q by (simp add: part_def)
qed

text \<open>C13: A URL put together from a scheme of letters, a host name, perhaps a port below 65536, a path and perhaps a query is
  accepted by \<open>script_parse_url\<close>, and the parts that \<open>main\<close> then copies out of it are the ones it was put together from:
  the host without its port, the port as text and as a number, the path without the query; an empty path or query is no part.
  The path that the script's requests ask for is the path with the query, but ''/'' alone, without the query, when the path is empty.\<close>

theorem url_roundtrip:
  assumes "url_ok scheme host pt path q"
  shows "\<exists>u. script_parse_url (url_text scheme host pt path q) no_parts = Some (True, u) \<and>
    copy_url_part (url_text scheme host pt path q) u UF_SCHEMA = Some scheme \<and>
    copy_url_part (url_text scheme host pt path q) u UF_HOST = Some host \<and>
    copy_url_part (url_text scheme host pt path q) u UF_PORT = pt \<and>
    copy_url_part (url_text scheme host pt path q) u UF_PATH = part path \<and>
    copy_url_part (url_text scheme host pt path q) u UF_QUERY = Option.bind q part \<and>
    port u = case_option 0 (\<lambda>ds. of_int (decimal_value 0 ds)) pt \<and>
    map_option wrk_path (script_create (url_text scheme host pt path q) hs) =
      Some (if path = [] then ''/'' else path @ query_text q)"
proof -
  let ?url = "url_text scheme host pt path q" and ?u = "parsed_url scheme host pt path q"
  have "path \<noteq> [] \<Longrightarrow> drop (unat (field_off ?u UF_PATH)) ?url = path @ query_text q"
    using drop_url [of scheme "length (host @ port_text pt)" host pt path q] by (simp add: path_part(2) [OF assms])
  then have "map_option wrk_path (script_create ?url hs) = Some (if path = [] then ''/'' else path @ query_text q)"
    using script_parse_url_text [OF assms] parsed_has_field [OF assms, of UF_PATH] by (simp add: script_create_def)
  then show ?thesis
    using script_parse_url_text [OF assms] whole_parts [OF assms] port_part [OF assms] path_part(1) [OF assms] query_part [OF assms]
    by (intro exI [of _ ?u]) (simp add: parsed_url_def)
qed

theorem url_roundtrip_witness:
  "\<exists>u. script_parse_url ''http://ngx:8080/a?x=1'' no_parts = Some (True, u) \<and>
    copy_url_part ''http://ngx:8080/a?x=1'' u UF_HOST = Some ''ngx'' \<and>
    copy_url_part ''http://ngx:8080/a?x=1'' u UF_PATH = Some ''/a'' \<and> port u = 8080 \<and>
    map_option wrk_path (script_create ''http://ngx:8080/a?x=1'' []) = Some ''/a?x=1''"
proof -
  have "scheme_ok ''http''" "host_ok ''ngx''" "port_ok (Some ''8080'')" "path_ok ''/a''" "query_ok (Some ''x=1'')"
    by code_simp+
  then have ok: "url_ok ''http'' ''ngx'' (Some ''8080'') ''/a'' (Some ''x=1'')"
    by (simp add: url_ok_def url_text_def port_text_def query_text_def)
  have "url_text ''http'' ''ngx'' (Some ''8080'') ''/a'' (Some ''x=1'') = ''http://ngx:8080/a?x=1''"
    "decimal_value 0 ''8080'' = 8080" by code_simp+
  then show ?thesis using url_roundtrip [OF ok, of "[]"] by (auto simp: part_def query_text_def)
qed

end
