(* ===== verification/Ae_Kqueue.thy ===== *)
theory Ae_Kqueue
  imports Ae
begin

text \<open>
  \<open>wrk2/src/ae_kqueue.c\<close>: the polling module for BSD systems, a third implementation of the interface. The kernel keeps
  pairs of a descriptor and a filter; descriptors in \<open>bad\<close> it refuses.
\<close>

datatype kfilter = EVFILT_READ | EVFILT_WRITE

datatype kflag = EV_ADD | EV_DELETE

record kqueue_state =
  filters :: "(int \<times> kfilter) list"
  bad :: "int list"

text \<open>One change of the queue: deleting what is not there is an error without effect.\<close>

fun kevent :: "kqueue_state \<Rightarrow> int \<Rightarrow> kfilter \<Rightarrow> kflag \<Rightarrow> int \<times> kqueue_state" where
  "kevent s fd f EV_ADD =
     (if fd \<in> set (bad s) then (-1, s) else (0, s\<lparr>filters := List.insert (fd, f) (filters s)\<rparr>))"
| "kevent s fd f EV_DELETE =
     (if (fd, f) \<in> set (filters s) then (0, s\<lparr>filters := removeAll (fd, f) (filters s)\<rparr>) else (-1, s))"

definition kqueue_ApiAddEvent :: "('p, 'd, kqueue_state) api_add" where
  "kqueue_ApiAddEvent l fd m =
     (let (rc, s) = (if has_event m AE_READABLE then kevent (apidata l) fd EVFILT_READ EV_ADD else (0, apidata l))
      in if rc = -1 then Some (-1, s)
         else (let (rc', s') = (if has_event m AE_WRITABLE then kevent s fd EVFILT_WRITE EV_ADD else (0, s))
               in if rc' = -1 then Some (-1, s') else Some (0, s')))"

definition kqueue_ApiDelEvent :: "('p, 'd, kqueue_state) api_del" where
  "kqueue_ApiDelEvent l fd m =
     (let s = (if has_event m AE_READABLE then snd (kevent (apidata l) fd EVFILT_READ EV_DELETE) else apidata l)
      in Some (if has_event m AE_WRITABLE then snd (kevent s fd EVFILT_WRITE EV_DELETE) else s))"

text \<open>\<open>ready\<close> is what \<open>kevent\<close> reports: a descriptor that is ready for both is reported twice.\<close>

definition kqueue_mask :: "kfilter \<Rightarrow> int" where
  "kqueue_mask f = (case f of EVFILT_READ \<Rightarrow> AE_READABLE | EVFILT_WRITE \<Rightarrow> AE_WRITABLE)"

definition kqueue_ApiPoll ::
  "(int \<times> kfilter) list \<Rightarrow> ('p, 'd, 'a) aeEventLoop \<Rightarrow> (nat \<times> ('p, 'd, 'a) aeEventLoop) option" where
  "kqueue_ApiPoll ready l =
     (let fs = map (\<lambda>(fd, f). \<lparr>fired_fd = fd, fired_mask = kqueue_mask f\<rparr>) ready
      in if length (fired l) < length fs then None
         else Some (length fs, l\<lparr>fired := fs @ drop (length fs) (fired l)\<rparr>))"

section \<open>The interface\<close>

definition kqueue_registered :: "kqueue_state \<Rightarrow> int \<Rightarrow> int" where
  "kqueue_registered s fd =
     (if (fd, EVFILT_READ) \<in> set (filters s) then AE_READABLE else 0) OR
     (if (fd, EVFILT_WRITE) \<in> set (filters s) then AE_WRITABLE else 0)"

lemma has_event_kqueue:
  "has_event (kqueue_registered s fd) 1 \<longleftrightarrow> (fd, EVFILT_READ) \<in> set (filters s)"
  "has_event (kqueue_registered s fd) 2 \<longleftrightarrow> (fd, EVFILT_WRITE) \<in> set (filters s)"
  by (simp_all add: kqueue_registered_def has_event_def ae_defs)

lemma kqueue_add:
  assumes "kqueue_ApiAddEvent l fd m = Some (rc, a)" "m \<in> masks"
  shows "rc = -1 \<and> a = apidata l \<or> rc = 0 \<and> set (filters a) = set (filters (apidata l)) \<union>
      (if has_event m 1 then {(fd, EVFILT_READ)} else {}) \<union> (if has_event m 2 then {(fd, EVFILT_WRITE)} else {})"
  using assms
  by (auto simp: kqueue_ApiAddEvent_def masks_eq has_event_def ae_defs Let_def split: if_splits)

lemma kqueue_del:
  assumes "kqueue_ApiDelEvent l fd m = Some a" "m \<in> masks"
  shows "set (filters a) = set (filters (apidata l)) -
      (if has_event m 1 then {(fd, EVFILT_READ)} else {}) - (if has_event m 2 then {(fd, EVFILT_WRITE)} else {})"
  using assms
  by (auto simp: kqueue_ApiDelEvent_def masks_eq has_event_def ae_defs Let_def split: if_splits)

interpretation kq: poll_api kqueue_ApiAddEvent kqueue_ApiDelEvent kqueue_registered "\<lambda>_. True"
proof unfold_locales
  fix l :: "('p, 'd, kqueue_state) aeEventLoop" and m fd rc a
  assume m: "m \<in> masks" and reg: "kqueue_registered (apidata l) fd = event_mask l fd"
    and old: "event_mask l fd \<in> insert 0 masks" and c: "kqueue_ApiAddEvent l fd m = Some (rc, a)"
  consider "rc = -1" "a = apidata l" | (added) "rc = 0"
    "set (filters a) = set (filters (apidata l)) \<union>
      (if has_event m 1 then {(fd, EVFILT_READ)} else {}) \<union> (if has_event m 2 then {(fd, EVFILT_WRITE)} else {})"
    using kqueue_add [OF c m] by blast
  then show "True \<and> (rc = -1 \<and> kqueue_registered a = kqueue_registered (apidata l) \<or>
      rc = 0 \<and> kqueue_registered a = (kqueue_registered (apidata l))(fd := event_mask l fd OR m))"
  proof cases
    case added
    have "kqueue_registered a fd = event_mask l fd OR m"
      using mask_by_events [of "event_mask l fd OR m"] mask_cases [OF m old] added has_event_kqueue [of "apidata l" fd] reg
      by (auto simp: kqueue_registered_def ae_defs split: if_splits)
    moreover have "kqueue_registered a g = kqueue_registered (apidata l) g" if "g \<noteq> fd" for g
      using added that by (auto simp: kqueue_registered_def)
    ultimately show ?thesis using added(1) by (auto simp: fun_eq_iff)
  qed simp
next
  fix l :: "('p, 'd, kqueue_state) aeEventLoop" and m fd a
  assume m: "m \<in> masks" and reg: "kqueue_registered (apidata l) fd \<in> masks"
    and em: "event_mask l fd = kqueue_registered (apidata l) fd AND NOT m"
    and c: "kqueue_ApiDelEvent l fd m = Some a"
  note st = kqueue_del [OF c m]
  have old: "kqueue_registered (apidata l) fd \<in> insert 0 masks" using reg by simp
  have "kqueue_registered a fd = event_mask l fd"
    using mask_by_events [of "event_mask l fd"] mask_cases [OF m old] st has_event_kqueue [of "apidata l" fd] em
    by (auto simp: kqueue_registered_def ae_defs split: if_splits)
  moreover have "kqueue_registered a g = kqueue_registered (apidata l) g" if "g \<noteq> fd" for g
    using st that by (auto simp: kqueue_registered_def)
  ultimately show "True \<and> kqueue_registered a = (kqueue_registered (apidata l))(fd := event_mask l fd)"
    by (auto simp: fun_eq_iff)
qed

end
