(* ===== verification/Ae_Evport.thy ===== *)
theory Ae_Evport
  imports Ae
begin

text \<open>
  \<open>wrk2/src/ae_evport.c\<close>: the polling module for event ports, a fourth implementation of the interface. A port forgets a
  descriptor when it reports an event of it; the module keeps what it was told of such descriptors aside
  (\<open>pending_fds\<close>, \<open>pending_masks\<close>) and associates them again before it polls the next time.
\<close>

section \<open>The port\<close>

text \<open>
  The associations of the port: a descriptor with its events and the value \<open>portev_user\<close>. \<open>port_associate\<close> replaces the
  association of a descriptor and fails for the descriptors that it cannot watch; \<open>port_dissociate\<close> fails for one that has none.
\<close>

definition POLLIN :: int where "POLLIN = 1"
definition POLLOUT :: int where "POLLOUT = 4"
definition MAX_EVENT_BATCHSZ :: nat where "MAX_EVENT_BATCHSZ = 512"

record evport_state =
  associated :: "(int \<times> int \<times> int) list"
  unusable :: "int \<Rightarrow> bool"
  npending :: int
  pending_fds :: "int list"
  pending_masks :: "int list"

definition port_associate :: "evport_state \<Rightarrow> int \<Rightarrow> int \<Rightarrow> int \<Rightarrow> int \<times> evport_state" where
  "port_associate s fd ev user =
     (if fd < 0 \<or> unusable s fd then (-1, s)
      else (0, s\<lparr>associated := (fd, ev, user) # filter (\<lambda>x. fst x \<noteq> fd) (associated s)\<rparr>))"

definition port_dissociate :: "evport_state \<Rightarrow> int \<Rightarrow> int \<times> evport_state" where
  "port_dissociate s fd =
     (if map_of (associated s) fd = None then (-1, s)
      else (0, s\<lparr>associated := filter (\<lambda>x. fst x \<noteq> fd) (associated s)\<rparr>))"

text \<open>The reports of \<open>port_getn\<close>: each one ends the association that it reports, and carries its user value.\<close>

fun port_reports :: "(int \<times> int) list \<Rightarrow> (int \<times> int \<times> int) list \<Rightarrow> (int \<times> int \<times> int) list \<times> (int \<times> int \<times> int) list" where
  "port_reports [] as = ([], as)"
| "port_reports ((fd, ev) # rs) as =
     (case map_of as fd of
        None \<Rightarrow> port_reports rs as
      | Some (_, user) \<Rightarrow>
          (let (es, as') = port_reports rs (filter (\<lambda>x. fst x \<noteq> fd) as) in ((fd, ev, user) # es, as')))"

section \<open>The module\<close>

definition evport_create :: "(int \<Rightarrow> bool) \<Rightarrow> evport_state" where
  "evport_create bad =
     \<lparr>associated = [], unusable = bad, npending = 0,
      pending_fds = replicate MAX_EVENT_BATCHSZ (-1), pending_masks = replicate MAX_EVENT_BATCHSZ AE_NONE\<rparr>"

fun lookup_loop :: "int list \<Rightarrow> int \<Rightarrow> nat \<Rightarrow> nat \<Rightarrow> int" where
  "lookup_loop fds fd i 0 = -1"
| "lookup_loop fds fd i (Suc n) = (if fds ! i = fd then int i else lookup_loop fds fd (Suc i) n)"

definition aeApiLookupPending :: "evport_state \<Rightarrow> int \<Rightarrow> int" where
  "aeApiLookupPending s fd = lookup_loop (pending_fds s) fd 0 (nat (npending s))"

definition evport_events :: "int \<Rightarrow> int" where
  "evport_events m =
     (if has_event m AE_READABLE then POLLIN else 0) OR (if has_event m AE_WRITABLE then POLLOUT else 0)"

definition aeApiAssociate :: "evport_state \<Rightarrow> int \<Rightarrow> int \<Rightarrow> int \<times> evport_state" where
  "aeApiAssociate s fd m = port_associate s fd (evport_events m) m"

definition evport_ApiAddEvent :: "('p, 'd, evport_state) api_add" where
  "evport_ApiAddEvent l fd m =
     (let s = apidata l; fullmask = m OR event_mask l fd; pfd = aeApiLookupPending s fd
      in if pfd \<noteq> -1
         then Some (0, s\<lparr>pending_masks := (pending_masks s)[nat pfd := pending_masks s ! nat pfd OR fullmask]\<rparr>)
         else Some (aeApiAssociate s fd fullmask))"

text \<open>\<open>abort\<close> ends the program: no result.\<close>

definition evport_ApiDelEvent :: "('p, 'd, evport_state) api_del" where
  "evport_ApiDelEvent l fd m =
     (let s = apidata l; pfd = aeApiLookupPending s fd
      in if pfd \<noteq> -1
         then (let m' = pending_masks s ! nat pfd AND NOT m;
                   s1 = s\<lparr>pending_masks := (pending_masks s)[nat pfd := m']\<rparr>
               in Some (if m' = AE_NONE then s1\<lparr>pending_fds := (pending_fds s1)[nat pfd := -1]\<rparr> else s1))
         else (let fullmask = event_mask l fd;
                   (rc, s1) = (if fullmask = AE_NONE then port_dissociate s fd else aeApiAssociate s fd fullmask)
               in if rc \<noteq> 0 then None else Some s1))"

text \<open>The first loop of \<open>aeApiPoll\<close>: the pending descriptors are associated again.\<close>

fun restore_pending :: "nat \<Rightarrow> nat \<Rightarrow> evport_state \<Rightarrow> evport_state option" where
  "restore_pending i 0 s = Some s"
| "restore_pending i (Suc n) s =
     (if pending_fds s ! i = -1 then restore_pending (Suc i) n s
      else (let (rc, s1) = aeApiAssociate s (pending_fds s ! i) (pending_masks s ! i)
            in if rc \<noteq> 0 then None
               else restore_pending (Suc i) n
                 (s1\<lparr>pending_masks := (pending_masks s1)[i := AE_NONE], pending_fds := (pending_fds s1)[i := -1]\<rparr>)))"

text \<open>What \<open>port_getn\<close> does: it may report events with a success or with \<open>ETIME\<close>, or be interrupted, or fail otherwise.\<close>

datatype port_answer = Retrieved "(int \<times> int) list" | TimedOut "(int \<times> int) list" | Interrupted | Failed

definition evport_mask :: "int \<Rightarrow> int" where
  "evport_mask ev =
     (if has_event ev POLLIN then AE_READABLE else 0) OR (if has_event ev POLLOUT then AE_WRITABLE else 0)"

text \<open>The second loop of \<open>aeApiPoll\<close>: the reports are handed to the loop and kept as pending.\<close>

definition deliver_reports ::
  "(int \<times> int \<times> int) list \<Rightarrow> ('p, 'd, evport_state) aeEventLoop \<Rightarrow> (nat \<times> ('p, 'd, evport_state) aeEventLoop) option" where
  "deliver_reports es l =
     (let s = apidata l; n = length es
      in if length (fired l) < n \<or> MAX_EVENT_BATCHSZ < n then None
         else Some (n, l\<lparr>fired := map (\<lambda>(fd, ev, user). \<lparr>fired_fd = fd, fired_mask = evport_mask ev\<rparr>) es @ drop n (fired l),
           apidata := s\<lparr>npending := int n, pending_fds := map fst es @ drop n (pending_fds s),
             pending_masks := map (snd \<circ> snd) es @ drop n (pending_masks s)\<rparr>\<rparr>))"

definition evport_ApiPoll ::
  "port_answer \<Rightarrow> ('p, 'd, evport_state) aeEventLoop \<Rightarrow> (nat \<times> ('p, 'd, evport_state) aeEventLoop) option" where
  "evport_ApiPoll ans l = do {
     s \<leftarrow> restore_pending 0 (nat (npending (apidata l))) (apidata l);
     let s0 = s\<lparr>npending := 0\<rparr>;
     let port = (\<lambda>ready. let (es, as) = port_reports (take MAX_EVENT_BATCHSZ ready) (associated s0)
                         in (es, l\<lparr>apidata := s0\<lparr>associated := as\<rparr>\<rparr>));
     (case ans of
        Failed \<Rightarrow> None
      | Interrupted \<Rightarrow> Some (0, l\<lparr>apidata := s0\<rparr>)
      | TimedOut ready \<Rightarrow>
          (let (es, l1) = port ready in if es = [] then Some (0, l1) else deliver_reports es l1)
      | Retrieved ready \<Rightarrow> (let (es, l1) = port ready in deliver_reports es l1))
   }"

section \<open>The interface\<close>

text \<open>What the port watches, and what the module has it watch, or will from the next poll on.\<close>

definition port_watches :: "evport_state \<Rightarrow> int \<Rightarrow> int" where
  "port_watches s fd = (case map_of (associated s) fd of None \<Rightarrow> 0 | Some (ev, _) \<Rightarrow> evport_mask ev)"

definition evport_registered :: "evport_state \<Rightarrow> int \<Rightarrow> int" where
  "evport_registered s fd =
     (let pfd = aeApiLookupPending s fd
      in if pfd \<noteq> -1 then pending_masks s ! nat pfd
         else port_watches s fd)"

text \<open>A descriptor is either associated with the port or pending, with the events of its mask; a pending one that was
  deleted is -1.\<close>

definition pending_ok :: "evport_state \<Rightarrow> nat \<Rightarrow> bool" where
  "pending_ok s i \<longleftrightarrow>
     pending_fds s ! i = -1 \<and> pending_masks s ! i = AE_NONE \<or>
     0 \<le> pending_fds s ! i \<and> pending_masks s ! i \<in> masks \<and> map_of (associated s) (pending_fds s ! i) = None \<and>
     \<not> unusable s (pending_fds s ! i)"

definition evport_ok :: "evport_state \<Rightarrow> bool" where
  "evport_ok s \<longleftrightarrow>
     length (pending_fds s) = MAX_EVENT_BATCHSZ \<and> length (pending_masks s) = MAX_EVENT_BATCHSZ \<and>
     0 \<le> npending s \<and> nat (npending s) \<le> MAX_EVENT_BATCHSZ \<and>
     (\<forall>i < nat (npending s). pending_ok s i) \<and>
     (\<forall>i < nat (npending s). \<forall>j < nat (npending s). pending_fds s ! i = pending_fds s ! j \<longrightarrow> i = j \<or> pending_fds s ! i = -1) \<and>
     (\<forall>(fd, ev, user) \<in> set (associated s). 0 \<le> fd \<and> user \<in> masks \<and> ev = evport_events user \<and> \<not> unusable s fd)"

lemma lookup_loop_spec:
  "lookup_loop fds fd i n = -1 \<and> (\<forall>j. i \<le> j \<longrightarrow> j < i + n \<longrightarrow> fds ! j \<noteq> fd) \<or>
   (\<exists>j. i \<le> j \<and> j < i + n \<and> lookup_loop fds fd i n = int j \<and> fds ! j = fd)"
proof (induction n arbitrary: i)
  case (Suc n)
  then show ?case using Suc.IH [of "Suc i"] by (auto simp: Suc_le_eq) (metis Suc_leI le_neq_implies_less)
qed simp

text \<open>Looking a descriptor up gives the only place where it is pending.\<close>

lemma lookup_none:
  "aeApiLookupPending s fd = -1 \<longleftrightarrow> (\<forall>j < nat (npending s). pending_fds s ! j \<noteq> fd)"
  using lookup_loop_spec [of "pending_fds s" fd 0 "nat (npending s)"] by (auto simp: aeApiLookupPending_def)

lemma lookup_some:
  assumes "evport_ok s" "0 \<le> fd" "i < nat (npending s)" "pending_fds s ! i = fd"
  shows "aeApiLookupPending s fd = int i"
  using lookup_loop_spec [of "pending_fds s" fd 0 "nat (npending s)"] assms
  by (fastforce simp: aeApiLookupPending_def evport_ok_def)

lemma lookup_cases:
  obtains (none) "aeApiLookupPending s fd = -1" "\<forall>j < nat (npending s). pending_fds s ! j \<noteq> fd"
  | (pending) i where "aeApiLookupPending s fd = int i" "i < nat (npending s)" "pending_fds s ! i = fd"
  using lookup_loop_spec [of "pending_fds s" fd 0 "nat (npending s)"] by (auto simp: aeApiLookupPending_def)

lemma evport_mask_events: "m \<in> insert 0 masks \<Longrightarrow> evport_mask (evport_events m) = m"
  by (auto simp: masks_eq evport_mask_def evport_events_def has_event_def POLLIN_def POLLOUT_def ae_defs)

lemma registered_pending:
  assumes "evport_ok s" "0 \<le> fd" "i < nat (npending s)" "pending_fds s ! i = fd"
  shows "evport_registered s fd = pending_masks s ! i"
  using lookup_some [OF assms] by (simp add: evport_registered_def)

lemma registered_associated:
  assumes "\<forall>j < nat (npending s). pending_fds s ! j \<noteq> fd"
  shows "evport_registered s fd = (case map_of (associated s) fd of None \<Rightarrow> 0 | Some (ev, _) \<Rightarrow> evport_mask ev)"
  using assms lookup_none [of s fd] by (simp add: evport_registered_def port_watches_def)

lemma evport_okD:
  assumes "evport_ok s"
  shows "length (pending_fds s) = MAX_EVENT_BATCHSZ" "length (pending_masks s) = MAX_EVENT_BATCHSZ"
    "nat (npending s) \<le> MAX_EVENT_BATCHSZ" "\<And>i. i < nat (npending s) \<Longrightarrow> pending_ok s i"
    "\<And>i j. i < nat (npending s) \<Longrightarrow> j < nat (npending s) \<Longrightarrow> pending_fds s ! i = pending_fds s ! j \<Longrightarrow> i = j \<or> pending_fds s ! i = -1"
    "\<And>fd ev user. (fd, ev, user) \<in> set (associated s) \<Longrightarrow>
      0 \<le> fd \<and> user \<in> masks \<and> ev = evport_events user \<and> \<not> unusable s fd"
  using assms by (auto simp: evport_ok_def)

text \<open>The mask of an association.\<close>

lemma associated_mask:
  assumes "evport_ok s" "map_of (associated s) fd = Some (ev, user)"
  shows "0 \<le> fd" "user \<in> masks" "evport_mask ev = user" "ev = evport_events user" "\<not> unusable s fd"
  using evport_okD(6) [OF assms(1) map_of_SomeD [OF assms(2)]] evport_mask_events [of user] by auto

lemma registered_neg:
  assumes "evport_ok s" "fd < 0"
  shows "evport_registered s fd = 0"
proof (cases rule: lookup_cases [of s fd])
  case none
  moreover have "map_of (associated s) fd = None"
    using associated_mask(1) [OF assms(1)] assms(2) by (cases "map_of (associated s) fd") fastforce+
  ultimately show ?thesis using registered_associated by simp
next
  case (pending i)
  then have "pending_ok s i" using evport_okD(4) [OF assms(1)] by blast
  then show ?thesis using pending assms(2) by (auto simp: evport_registered_def pending_ok_def ae_defs)
qed

subsection \<open>A descriptor that is not pending\<close>

lemma associate_ok:
  assumes ok: "evport_ok s" and m: "m \<in> masks" and free: "\<forall>j < nat (npending s). pending_fds s ! j \<noteq> fd"
    and c: "aeApiAssociate s fd m = (rc, s')"
  shows "evport_ok s' \<and> (rc = -1 \<and> evport_registered s' = evport_registered s \<or>
    rc = 0 \<and> evport_registered s' = (evport_registered s)(fd := m))"
proof (cases "fd < 0 \<or> unusable s fd")
  case True
  then have "rc = -1" "s' = s" using c by (simp_all add: aeApiAssociate_def port_associate_def)
  then show ?thesis using ok by simp
next
  case False
  then have s': "rc = 0" "s' = s\<lparr>associated := (fd, evport_events m, m) # filter (\<lambda>x. fst x \<noteq> fd) (associated s)\<rparr>"
    using c by (simp_all add: aeApiAssociate_def port_associate_def)
  have keep: "pending_ok s' i" if "i < nat (npending s)" for i
    using evport_okD(4) [OF ok that] free that by (auto simp: pending_ok_def s' map_of_filter_key)
  have "evport_ok s'" using ok False m keep by (auto simp: evport_ok_def s')
  moreover have "evport_registered s' g = ((evport_registered s)(fd := m)) g" for g
    using free lookup_none [of s fd] evport_mask_events [of m] m
    by (auto simp: evport_registered_def port_watches_def aeApiLookupPending_def s' map_of_filter_key Let_def)
  ultimately show ?thesis using s'(1) by (simp add: fun_eq_iff)
qed

lemma dissociate_ok:
  assumes ok: "evport_ok s" and free: "\<forall>j < nat (npending s). pending_fds s ! j \<noteq> fd" and c: "port_dissociate s fd = (0, s')"
  shows "evport_ok s' \<and> evport_registered s' = (evport_registered s)(fd := 0)"
proof -
  have s': "s' = s\<lparr>associated := filter (\<lambda>x. fst x \<noteq> fd) (associated s)\<rparr>"
    using c by (auto simp: port_dissociate_def split: if_splits)
  have keep: "pending_ok s' i" if "i < nat (npending s)" for i
    using evport_okD(4) [OF ok that] free that by (auto simp: pending_ok_def s' map_of_filter_key)
  have "evport_ok s'" using ok keep by (auto simp: evport_ok_def s')
  moreover have "evport_registered s' g = ((evport_registered s)(fd := 0)) g" for g
    using free lookup_none [of s fd] by (auto simp: evport_registered_def port_watches_def aeApiLookupPending_def s' map_of_filter_key Let_def)
  ultimately show ?thesis by (simp add: fun_eq_iff)
qed

subsection \<open>A pending descriptor\<close>

definition set_pending :: "nat \<Rightarrow> int \<Rightarrow> int \<Rightarrow> evport_state \<Rightarrow> evport_state" where
  "set_pending i fd m s = s\<lparr>pending_fds := (pending_fds s)[i := fd], pending_masks := (pending_masks s)[i := m]\<rparr>"

lemma set_pending_ok:
  assumes ok: "evport_ok s" and i: "i < nat (npending s)" "pending_fds s ! i = fd" "0 \<le> fd"
    and new: "g = fd \<and> m \<in> masks \<or> g = -1 \<and> m = 0"
  shows "evport_ok (set_pending i g m s) \<and> evport_registered (set_pending i g m s) = (evport_registered s)(fd := m)"
proof -
  let ?t = "set_pending i g m s" and ?n = "nat (npending s)"
  note d = evport_okD [OF ok]
  have len: "i < length (pending_fds s)" "i < length (pending_masks s)" using i(1) d(1-3) by auto
  have nth: "pending_fds ?t ! j = (if j = i then g else pending_fds s ! j)"
    "pending_masks ?t ! j = (if j = i then m else pending_masks s ! j)" for j
    using len by (auto simp: set_pending_def nth_list_update)
  have same: "npending ?t = npending s" "associated ?t = associated s" "unusable ?t = unusable s"
    by (simp_all add: set_pending_def)
  have none: "map_of (associated s) fd = None" "\<not> unusable s fd" using d(4) [OF i(1)] i(2,3) by (auto simp: pending_ok_def)
  have pend: "pending_ok ?t j" if "j < ?n" for j
    using d(4) [OF that] new i(2,3) none by (auto simp: pending_ok_def nth same ae_defs)
  have dist: "j = k \<or> pending_fds ?t ! j = -1" if "j < ?n" "k < ?n" "pending_fds ?t ! j = pending_fds ?t ! k" for j k
    using d(5) [OF that(1,2)] d(5) [OF i(1) that(1)] d(5) [OF i(1) that(2)] that(3) [unfolded nth] new i(2,3) unfolding nth
    by (cases "j = i"; cases "k = i") auto
  have t: "evport_ok ?t"
    using d(1,2,3,6) pend dist ok by (auto simp: evport_ok_def same set_pending_def)
  have "evport_registered ?t h = ((evport_registered s)(fd := m)) h" for h
  proof (cases "h < 0")
    case True
    then show ?thesis using registered_neg [OF t True] registered_neg [OF ok True] i(3) by simp
  next
    case False
    consider (kept) "h = fd" "g = fd" | (gone) "h = fd" "g = -1" "m = 0"
      | (other) j where "j < ?n" "pending_fds s ! j = h" "h \<noteq> fd"
      | (free) "\<forall>j < ?n. pending_fds s ! j \<noteq> h" "h \<noteq> fd"
      using new by blast
    then show ?thesis
    proof cases
      case kept
      then show ?thesis using registered_pending [OF t i(3), of i] i nth [of i] same by simp
    next
      case gone
      have "pending_fds ?t ! j \<noteq> fd" if "j < ?n" for j
        using d(5) [OF i(1) that] i gone unfolding nth by auto
      then show ?thesis using registered_associated [of ?t fd] same none gone(1,3) by simp
    next
      case other
      then have "j \<noteq> i" using i(2) by auto
      then show ?thesis
        using registered_pending [OF t, of h j] registered_pending [OF ok, of h j] other False by (simp add: same nth)
    next
      case free
      then have "\<forall>j < ?n. pending_fds ?t ! j \<noteq> h" using new False by (auto simp: nth)
      then show ?thesis using registered_associated [of ?t h] registered_associated [of s h] free by (simp add: same)
    qed
  qed
  with t show ?thesis by (simp add: fun_eq_iff)
qed

section \<open>The contract\<close>

interpretation evp: poll_api evport_ApiAddEvent evport_ApiDelEvent evport_registered evport_ok
proof unfold_locales
  fix l :: "('p, 'd, evport_state) aeEventLoop" and m fd rc a
  assume ok: "evport_ok (apidata l)" and fd: "0 \<le> fd" and m: "m \<in> masks"
    and reg: "evport_registered (apidata l) fd = event_mask l fd" and old: "event_mask l fd \<in> insert 0 masks"
    and c: "evport_ApiAddEvent l fd m = Some (rc, a)"
  have new: "event_mask l fd OR m \<in> masks" by (rule mask_cases(1) [OF m old])
  have com: "m OR event_mask l fd = event_mask l fd OR m" by (simp add: or.commute)
  show "evport_ok a \<and> (rc = -1 \<and> evport_registered a = evport_registered (apidata l) \<or>
      rc = 0 \<and> evport_registered a = (evport_registered (apidata l))(fd := event_mask l fd OR m))"
  proof (cases rule: lookup_cases [of "apidata l" fd])
    case none
    then have "aeApiAssociate (apidata l) fd (event_mask l fd OR m) = (rc, a)"
      using c by (simp add: evport_ApiAddEvent_def com)
    then show ?thesis using associate_ok [OF ok new none(2)] by blast
  next
    case (pending i)
    have "pending_masks (apidata l) ! i = event_mask l fd"
      using registered_pending [OF ok fd pending(2,3)] reg by simp
    then have "rc = 0" "a = set_pending i fd (event_mask l fd OR m) (apidata l)"
      using c pending by (auto simp: evport_ApiAddEvent_def Let_def set_pending_def com or.assoc [symmetric])
    then show ?thesis using set_pending_ok [OF ok pending(2,3) fd] new by simp
  qed
next
  fix l :: "('p, 'd, evport_state) aeEventLoop" and m fd a
  assume ok: "evport_ok (apidata l)" and fd: "0 \<le> fd" and m: "m \<in> masks"
    and reg: "evport_registered (apidata l) fd \<in> masks"
    and em: "event_mask l fd = evport_registered (apidata l) fd AND NOT m"
    and c: "evport_ApiDelEvent l fd m = Some a"
  have new: "event_mask l fd \<in> insert 0 masks" using mask_cases(2) [OF m] reg em by simp
  show "evport_ok a \<and> evport_registered a = (evport_registered (apidata l))(fd := event_mask l fd)"
  proof (cases rule: lookup_cases [of "apidata l" fd])
    case none
    show ?thesis
    proof (cases "event_mask l fd = 0")
      case True
      then have "port_dissociate (apidata l) fd = (0, a)"
        using c none(1) by (auto simp: evport_ApiDelEvent_def Let_def ae_defs split: prod.splits if_splits)
      then show ?thesis using dissociate_ok [OF ok none(2)] True by simp
    next
      case False
      then have "aeApiAssociate (apidata l) fd (event_mask l fd) = (0, a)"
        using c none(1) by (auto simp: evport_ApiDelEvent_def Let_def ae_defs split: prod.splits if_splits)
      then show ?thesis using associate_ok [OF ok _ none(2), of "event_mask l fd" 0 a] False new by auto
    qed
  next
    case (pending i)
    have "pending_masks (apidata l) ! i AND NOT m = event_mask l fd"
      using registered_pending [OF ok fd pending(2,3)] em by simp
    then have "a = set_pending i (if event_mask l fd = 0 then -1 else fd) (event_mask l fd) (apidata l)"
      using c pending by (auto simp: evport_ApiDelEvent_def Let_def set_pending_def ae_defs)
    then show ?thesis using set_pending_ok [OF ok pending(2,3) fd] new by auto
  qed
qed


section \<open>Polling\<close>

text \<open>Restoring one pending descriptor: the order of clearing the entry and associating does not matter.\<close>

lemma restore_one:
  assumes ok: "evport_ok s" and i: "i < nat (npending s)" "pending_fds s ! i \<noteq> -1"
    and c: "aeApiAssociate s (pending_fds s ! i) (pending_masks s ! i) = (0, s1)"
  defines "s2 \<equiv> s1\<lparr>pending_masks := (pending_masks s1)[i := AE_NONE], pending_fds := (pending_fds s1)[i := -1]\<rparr>"
  shows "evport_ok s2 \<and> evport_registered s2 = evport_registered s \<and> npending s2 = npending s \<and>
    unusable s2 = unusable s \<and> pending_fds s2 = (pending_fds s)[i := -1]"
proof -
  let ?fd = "pending_fds s ! i" and ?m = "pending_masks s ! i" and ?t = "set_pending i (-1) 0 s"
  have p: "0 \<le> ?fd" "?m \<in> masks" using evport_okD(4) [OF ok i(1)] i(2) by (auto simp: pending_ok_def)
  have t: "evport_ok ?t" "evport_registered ?t = (evport_registered s)(?fd := 0)"
    using set_pending_ok [OF ok i(1) refl p(1), of "-1" 0] by simp_all
  have s1: "s1 = s\<lparr>associated := (?fd, evport_events ?m, ?m) # filter (\<lambda>x. fst x \<noteq> ?fd) (associated s)\<rparr>"
    and usable: "\<not> (?fd < 0 \<or> unusable s ?fd)"
    using c by (auto simp: aeApiAssociate_def port_associate_def split: if_splits)
  have a: "aeApiAssociate ?t ?fd ?m = (0, s2)"
    using usable by (simp add: aeApiAssociate_def port_associate_def s2_def s1 set_pending_def ae_defs)
  have "i < length (pending_fds s)" using i(1) evport_okD(1,3) [OF ok] by simp
  then have "\<forall>j < nat (npending ?t). pending_fds ?t ! j \<noteq> ?fd"
    using evport_okD(5) [OF ok i(1)] i(2) by (auto simp: set_pending_def nth_list_update)
  from associate_ok [OF t(1) p(2) this a] t(2) show ?thesis
    using registered_pending [OF ok p(1) i(1) refl] by (auto simp: s2_def s1)
qed

lemma restore_pending_ok:
  assumes "evport_ok s" "i + n = nat (npending s)" "\<forall>j < i. pending_fds s ! j = -1" "restore_pending i n s = Some s'"
  shows "evport_ok s' \<and> evport_registered s' = evport_registered s \<and> npending s' = npending s \<and>
    unusable s' = unusable s \<and> (\<forall>j < nat (npending s). pending_fds s' ! j = -1)"
  using assms
proof (induction n arbitrary: i s)
  case (Suc n)
  show ?case
  proof (cases "pending_fds s ! i = -1")
    case True
    then have "\<forall>j < Suc i. pending_fds s ! j = -1" using Suc.prems(3) by (simp add: less_Suc_eq)
    then show ?thesis using Suc.IH [of s "Suc i"] Suc.prems True by simp
  next
    case False
    obtain rc s1 where a: "aeApiAssociate s (pending_fds s ! i) (pending_masks s ! i) = (rc, s1)" by force
    define s2 where "s2 = s1\<lparr>pending_masks := (pending_masks s1)[i := AE_NONE], pending_fds := (pending_fds s1)[i := -1]\<rparr>"
    have r: "rc = 0" "restore_pending (Suc i) n s2 = Some s'"
      using Suc.prems(4) False a by (auto simp: s2_def split: if_splits)
    have i: "i < nat (npending s)" using Suc.prems(2) by simp
    note one = restore_one [OF Suc.prems(1) i False a [unfolded r(1)], folded s2_def]
    have "\<forall>j < Suc i. pending_fds s2 ! j = -1"
      using one Suc.prems(3) i evport_okD(1,3) [OF Suc.prems(1)] by (auto simp: nth_list_update less_Suc_eq)
    then show ?thesis using Suc.IH [of s2 "Suc i"] one r Suc.prems(2) by simp
  qed
qed simp

text \<open>After the first loop every descriptor is associated with what the module was told.\<close>

lemma restored:
  assumes "evport_ok s" "restore_pending 0 (nat (npending s)) s = Some s'"
  defines "s0 \<equiv> s'\<lparr>npending := 0\<rparr>"
  shows "evport_ok s0" "evport_registered s0 = evport_registered s" "unusable s0 = unusable s"
proof -
  have r: "evport_ok s'" "evport_registered s' = evport_registered s" "npending s' = npending s" "unusable s' = unusable s"
    "\<forall>j < nat (npending s). pending_fds s' ! j = -1"
    using restore_pending_ok [of s 0 "nat (npending s)" s'] assms by simp_all
  show ok: "evport_ok s0" using r(1) by (simp add: evport_ok_def s0_def)
  have "evport_registered s0 h = evport_registered s' h" for h
  proof (cases "h < 0")
    case False
    then have "\<forall>j < nat (npending s'). pending_fds s' ! j \<noteq> h" using r(3,5) by auto
    then show ?thesis using registered_associated [of s' h] registered_associated [of s0 h] by (simp add: s0_def)
  qed (use registered_neg [OF ok] registered_neg [OF r(1)] in simp)
  with r(2) show "evport_registered s0 = evport_registered s" by (simp add: fun_eq_iff)
  show "unusable s0 = unusable s" using r(4) by (simp add: s0_def)
qed

lemma port_reports_spec:
  assumes "port_reports rs as = (es, as')"
  shows "distinct (map fst es) \<and> length es \<le> length rs \<and> set as' \<subseteq> set as \<and>
    (\<forall>(fd, ev, user) \<in> set es. \<exists>ev'. map_of as fd = Some (ev', user)) \<and>
    map_of as' = (\<lambda>fd. if fd \<in> fst ` set es then None else map_of as fd)"
  using assms
proof (induction rs as arbitrary: es as' rule: port_reports.induct)
  case (2 fd ev rs as)
  show ?case
  proof (cases "map_of as fd")
    case None
    then have "port_reports rs as = (es, as')" using 2(3) by simp
    from 2(1) [OF None this] show ?thesis by auto
  next
    case (Some x)
    obtain es1 as1 where r: "port_reports rs (filter (\<lambda>x. fst x \<noteq> fd) as) = (es1, as1)" by force
    then have es: "es = (fd, ev, snd x) # es1" "as' = as1" using 2(3) Some by (auto split: prod.splits)
    have "(fst x, snd x) = x" by simp
    note ih = 2(2) [OF Some this r]
    have found: "\<exists>ev'. map_of (filter (\<lambda>x. fst x \<noteq> fd) as) (fst e) = Some (ev', snd (snd e))" if "e \<in> set es1" for e
      using ih that by (auto simp: case_prod_beta)
    then have known: "fst e \<noteq> fd \<and> (\<exists>ev'. map_of as (fst e) = Some (ev', snd (snd e)))" if "e \<in> set es1" for e
      using that by (fastforce simp: map_of_filter_key split: if_splits)
    then have "fd \<notin> fst ` set es1" by auto
    then have "distinct (map fst es)" using ih by (simp add: es)
    moreover have "\<forall>(g, e, user) \<in> set es. \<exists>ev'. map_of as g = Some (ev', user)"
      using known Some \<open>(fst x, snd x) = x\<close> by (auto simp: es case_prod_beta intro: exI [of _ "fst x"])
    moreover have "map_of as' = (\<lambda>g. if g \<in> fst ` set es then None else map_of as g)"
      using ih by (auto simp: es map_of_filter_key fun_eq_iff)
    ultimately show ?thesis using ih by (auto simp: es)
  qed
qed simp


text \<open>The state after a delivery: what was reported moves from the port to the pending descriptors.\<close>

lemma deliver_ok:
  assumes ok: "evport_ok s" "npending s = 0" and r: "port_reports rs (associated s) = (es, as)"
    and l: "apidata l = s\<lparr>associated := as\<rparr>" and d: "deliver_reports es l = Some (n, l')"
  shows "evport_ok (apidata l')" "evport_registered (apidata l') = evport_registered s"
    "\<forall>i < n. evport_registered s (fired_fd (fired l' ! i)) \<in> masks" "unusable (apidata l') = unusable s"
proof -
  let ?s = "apidata l'"
  note sp = port_reports_spec [OF r]
  have n: "n = length es" "n \<le> MAX_EVENT_BATCHSZ" "n \<le> length (fired l)"
    using d by (auto simp: deliver_reports_def Let_def split: if_splits)
  have s: "npending ?s = int n" "associated ?s = as" "unusable ?s = unusable s" "pending_fds ?s = map fst es @ drop n (pending_fds s)"
    "pending_masks ?s = map (snd \<circ> snd) es @ drop n (pending_masks s)"
    "fired l' = map (\<lambda>(fd, ev, user). \<lparr>fired_fd = fd, fired_mask = evport_mask ev\<rparr>) es @ drop n (fired l)"
    using d by (auto simp: deliver_reports_def Let_def l split: if_splits)
  have nth: "pending_fds ?s ! i = fst (es ! i)" "pending_masks ?s ! i = snd (snd (es ! i))"
    "fired_fd (fired l' ! i) = fst (es ! i)" if "i < n" for i
    using that n(1) by (simp_all add: s nth_append case_prod_beta)
  have known: "\<exists>ev'. map_of (associated s) (fst (es ! i)) = Some (ev', snd (snd (es ! i)))" if "i < n" for i
    using sp that n(1) nth_mem [of i es] by (auto simp: case_prod_beta)
  have mask: "0 \<le> fst (es ! i) \<and> snd (snd (es ! i)) \<in> masks \<and> map_of as (fst (es ! i)) = None \<and> \<not> unusable s (fst (es ! i)) \<and>
      evport_registered s (fst (es ! i)) = snd (snd (es ! i))" if i: "i < n" for i
  proof -
    obtain ev' where e: "map_of (associated s) (fst (es ! i)) = Some (ev', snd (snd (es ! i)))" using known [OF i] by blast
    have "es ! i \<in> set es" using i n(1) by simp
    then have "map_of as (fst (es ! i)) = None" using sp by simp
    then show ?thesis
      using associated_mask [OF ok(1) e] registered_associated [of s "fst (es ! i)"] ok(2) e by simp
  qed
  have pend: "\<forall>i < n. pending_ok ?s i" using mask by (simp add: pending_ok_def nth s(2,3))
  have dist: "i = j" if "i < n" "j < n" "fst (es ! i) = fst (es ! j)" for i j
    using sp that n(1) nth_eq_iff_index_eq [of "map fst es" i j] by simp
  have len: "length (pending_fds ?s) = MAX_EVENT_BATCHSZ" "length (pending_masks ?s) = MAX_EVENT_BATCHSZ"
    using evport_okD(1,2) [OF ok(1)] n by (simp_all add: s)
  have sub: "\<forall>(fd, ev, user) \<in> set as. 0 \<le> fd \<and> user \<in> masks \<and> ev = evport_events user \<and> \<not> unusable s fd"
    using evport_okD(6) [OF ok(1)] sp by fastforce
  show ok': "evport_ok ?s"
    unfolding evport_ok_def using pend dist len sub n(2) by (auto simp: s(1-3) nth)
  show "\<forall>i < n. evport_registered s (fired_fd (fired l' ! i)) \<in> masks" using mask by (simp add: nth)
  have "evport_registered ?s h = evport_registered s h" for h
  proof (cases "\<exists>i < n. fst (es ! i) = h")
    case True
    then obtain i where "i < n" "fst (es ! i) = h" by blast
    then show ?thesis using registered_pending [OF ok', of h i] mask [of i] s(1) nth [of i] by simp
  next
    case False
    then have "h \<notin> fst ` set es" using n(1) by (metis imageE in_set_conv_nth)
    then have "map_of as h = map_of (associated s) h" using sp by simp
    moreover have "\<forall>j < nat (npending ?s). pending_fds ?s ! j \<noteq> h" using False nth s(1) by simp
    ultimately show ?thesis using registered_associated [of ?s h] registered_associated [of s h] ok(2) s(2) by simp
  qed
  then show "evport_registered ?s = evport_registered s" by (simp add: fun_eq_iff)
  show "unusable ?s = unusable s" by (rule s(3))
qed


lemma deliver_frame:
  assumes "deliver_reports es l = Some (n, l')"
  shows "events l' = events l" "maxfd l' = maxfd l" "setsize l' = setsize l" "length (fired l') = length (fired l)"
  using assms by (auto simp: deliver_reports_def Let_def split: if_splits)

text \<open>One call of \<open>aeApiPoll\<close>: what is watched stays the same, and only watched descriptors are reported.\<close>

lemma deliver_nothing:
  assumes "npending (apidata l) = 0"
  shows "deliver_reports [] l = Some (0, l)"
  using assms by (simp add: deliver_reports_def Let_def)

lemma poll_delivers:
  assumes "evport_ApiPoll ans l = Some (n, l')"
  obtains s0 es as rs where "restore_pending 0 (nat (npending (apidata l))) (apidata l) = Some s0"
    "port_reports rs (associated s0) = (es, as)" "length rs \<le> MAX_EVENT_BATCHSZ"
    "deliver_reports es (l\<lparr>apidata := s0\<lparr>npending := 0, associated := as\<rparr>\<rparr>) = Some (n, l')"
proof -
  obtain s0 where s0: "restore_pending 0 (nat (npending (apidata l))) (apidata l) = Some s0"
    using assms by (auto simp: evport_ApiPoll_def split: bind_splits)
  show thesis
  proof (cases ans)
    case (Retrieved rs)
    then show thesis using that [OF s0, of "take MAX_EVENT_BATCHSZ rs"] assms s0
      by (auto simp: evport_ApiPoll_def Let_def split: prod.splits)
  next
    case (TimedOut rs)
    then show thesis using that [OF s0, of "take MAX_EVENT_BATCHSZ rs"] assms s0
      by (auto simp: evport_ApiPoll_def Let_def deliver_nothing split: prod.splits if_splits)
  next
    case Interrupted
    then show thesis using that [OF s0, of "[]"] assms s0 by (simp add: evport_ApiPoll_def Let_def deliver_nothing)
  qed (use assms s0 in \<open>simp add: evport_ApiPoll_def Let_def\<close>)
qed

lemma evport_poll_ok:
  assumes ok: "evport_ok (apidata l)" and c: "evport_ApiPoll ans l = Some (n, l')"
  shows "evport_ok (apidata l') \<and> evport_registered (apidata l') = evport_registered (apidata l) \<and>
    unusable (apidata l') = unusable (apidata l) \<and>
    events l' = events l \<and> maxfd l' = maxfd l \<and> setsize l' = setsize l \<and> length (fired l') = length (fired l) \<and>
    (\<forall>i < n. evport_registered (apidata l) (fired_fd (fired l' ! i)) \<in> masks)"
proof -
  obtain s0 es as rs where s0: "restore_pending 0 (nat (npending (apidata l))) (apidata l) = Some s0"
    and r: "port_reports rs (associated s0) = (es, as)"
    and d: "deliver_reports es (l\<lparr>apidata := s0\<lparr>npending := 0, associated := as\<rparr>\<rparr>) = Some (n, l')"
    by (rule poll_delivers [OF c])
  note re = restored [OF ok s0]
  have "deliver_reports es (l\<lparr>apidata := s0\<lparr>npending := 0\<rparr>\<lparr>associated := as\<rparr>\<rparr>) = Some (n, l')" using d by simp
  from deliver_ok [OF re(1) _ _ _ this, of rs] r re deliver_frame [OF d] show ?thesis by simp
qed

text \<open>The call returns unless \<open>port_getn\<close> itself fails: restoring cannot fail, and there is room for all reports.\<close>

lemma restore_pending_returns:
  assumes "evport_ok s" "i + n = nat (npending s)"
  shows "\<exists>s'. restore_pending i n s = Some s'"
  using assms
proof (induction n arbitrary: i s)
  case (Suc n)
  show ?case
  proof (cases "pending_fds s ! i = -1")
    case False
    have i: "i < nat (npending s)" using Suc.prems(2) by simp
    have "0 \<le> pending_fds s ! i" "\<not> unusable s (pending_fds s ! i)"
      using evport_okD(4) [OF Suc.prems(1) i] False by (auto simp: pending_ok_def)
    then obtain s1 where a: "aeApiAssociate s (pending_fds s ! i) (pending_masks s ! i) = (0, s1)"
      by (simp add: aeApiAssociate_def port_associate_def)
    define s2 where "s2 = s1\<lparr>pending_masks := (pending_masks s1)[i := AE_NONE], pending_fds := (pending_fds s1)[i := -1]\<rparr>"
    have "evport_ok s2" "npending s2 = npending s" using restore_one [OF Suc.prems(1) i False a, folded s2_def] by simp_all
    then show ?thesis using Suc.IH [of s2 "Suc i"] Suc.prems(2) False a by (simp add: s2_def)
  qed (use Suc.IH [of s "Suc i"] Suc.prems in simp)
qed simp


lemma poll_returns:
  assumes ok: "file_ok evport_registered evport_ok l" and room: "length (fired l) = nat (setsize l)" and a: "ans \<noteq> Failed"
  shows "\<exists>n l'. evport_ApiPoll ans l = Some (n, l')"
proof -
  have e: "evport_ok (apidata l)" using ok by (simp add: file_ok_def)
  then obtain s where s: "restore_pending 0 (nat (npending (apidata l))) (apidata l) = Some s"
    using restore_pending_returns [of "apidata l" 0] by auto
  note re = restored [OF e s]
  have fits: "length es \<le> nat (setsize l)" "length es \<le> MAX_EVENT_BATCHSZ"
    if r: "port_reports (take MAX_EVENT_BATCHSZ rs) (associated s) = (es, as)" for rs es as
  proof -
    note sp = port_reports_spec [OF r]
    have "in_set l fd" if fd: "fd \<in> fst ` set es" for fd
    proof -
      obtain e where e: "e \<in> set es" "fst e = fd" using fd by (metis imageE)
      have "\<forall>(fd, ev, user) \<in> set es. \<exists>ev'. map_of (associated s) fd = Some (ev', user)" using sp by blast
      from bspec [OF this e(1)] obtain ev user where u: "map_of (associated (s\<lparr>npending := 0\<rparr>)) fd = Some (ev, user)"
        using e(2) by (auto simp: case_prod_beta)
      then have "evport_registered (s\<lparr>npending := 0\<rparr>) fd = user" "user \<in> masks"
        using associated_mask [OF re(1) u] registered_associated [of "s\<lparr>npending := 0\<rparr>" fd] by simp_all
      then have "evport_registered (apidata l) fd \<noteq> 0" using re(2) by (auto simp: masks_eq)
      then show ?thesis using ok by (auto simp: file_ok_def split: if_splits)
    qed
    then have "set (map fst es) \<subseteq> {0..<setsize l}" unfolding set_map in_set_def atLeastLessThan_iff subset_iff by blast
    then have "card (set (map fst es)) \<le> nat (setsize l)" using card_mono [of "{0..<setsize l}"] by simp
    moreover have "card (set (map fst es)) = length es" using sp distinct_card [of "map fst es"] by simp
    ultimately show "length es \<le> nat (setsize l)" by simp
    show "length es \<le> MAX_EVENT_BATCHSZ" using sp by simp
  qed
  have "\<exists>x. deliver_reports es (l\<lparr>apidata := s\<lparr>npending := 0, associated := as\<rparr>\<rparr>) = Some x"
    if "port_reports (take MAX_EVENT_BATCHSZ rs) (associated s) = (es, as)" for rs es as
    using fits [OF that] room by (simp add: deliver_reports_def Let_def)
  then show ?thesis using a s
    by (cases ans) (fastforce simp: evport_ApiPoll_def Let_def split: prod.splits)+
qed

section \<open>Sequences of calls\<close>

datatype ('p, 'd) evport_call = File "('p, 'd) file_call" | Poll port_answer

fun evport_run ::
  "('p, 'd) evport_call list \<Rightarrow> ('p, 'd, evport_state) aeEventLoop \<Rightarrow> ('p, 'd, evport_state) aeEventLoop option" where
  "evport_run [] l = Some l"
| "evport_run (File c # cs) l =
     (case file_run evport_ApiAddEvent evport_ApiDelEvent [c] l of None \<Rightarrow> None | Some l' \<Rightarrow> evport_run cs l')"
| "evport_run (Poll a # cs) l = (case evport_ApiPoll a l of None \<Rightarrow> None | Some (_, l') \<Rightarrow> evport_run cs l')"

fun evport_call_ok :: "('p, 'd) evport_call \<Rightarrow> bool" where
  "evport_call_ok (File c) \<longleftrightarrow> file_call_ok c"
| "evport_call_ok (Poll a) \<longleftrightarrow> a \<noteq> Failed"

definition loop_ok :: "('p, 'd, evport_state) aeEventLoop \<Rightarrow> bool" where
  "loop_ok l \<longleftrightarrow> file_ok evport_registered evport_ok l \<and> length (fired l) = nat (setsize l)"

lemma evport_del_returns:
  assumes "evport_ok (apidata l)" "0 \<le> fd" "m \<in> masks" "evport_registered (apidata l) fd \<in> masks"
    "event_mask l fd = evport_registered (apidata l) fd AND NOT m"
  shows "\<exists>a. evport_ApiDelEvent l fd m = Some a"
proof (cases rule: lookup_cases [of "apidata l" fd])
  case none
  then obtain ev user where u: "map_of (associated (apidata l)) fd = Some (ev, user)"
    using assms(4) registered_associated [of "apidata l" fd] by (auto simp: masks_eq split: option.splits)
  then have "port_dissociate (apidata l) fd = (0, snd (port_dissociate (apidata l) fd))"
    "aeApiAssociate (apidata l) fd k = (0, snd (aeApiAssociate (apidata l) fd k))" for k
    using associated_mask [OF assms(1) u] by (simp_all add: port_dissociate_def aeApiAssociate_def port_associate_def)
  then have "fst (port_dissociate (apidata l) fd) = 0" "fst (aeApiAssociate (apidata l) fd k) = 0" for k
    by (metis fst_conv)+
  then show ?thesis using none(1) by (simp add: evport_ApiDelEvent_def Let_def case_prod_beta)
next
  case pending
  then show ?thesis by (simp add: evport_ApiDelEvent_def Let_def)
qed


lemma evport_file_call:
  assumes l: "loop_ok l" and c: "file_call_ok c"
  shows "\<exists>l'. file_run evport_ApiAddEvent evport_ApiDelEvent [c] l = Some l' \<and> loop_ok l' \<and> setsize l' = setsize l"
proof -
  have f: "file_ok evport_registered evport_ok l" using l by (simp add: loop_ok_def)
  have len: "length (events l) = nat (setsize l)" "evport_ok (apidata l)" using f by (simp_all add: file_ok_def)
  have "\<exists>l'. file_run evport_ApiAddEvent evport_ApiDelEvent [c] l = Some l' \<and> fired l' = fired l"
  proof (cases c)
    case (CreateFile fd m proc d)
    have "\<exists>rc a. evport_ApiAddEvent l fd m = Some (rc, a)" by (simp add: evport_ApiAddEvent_def Let_def)
    then show ?thesis using len(1) c
      by (cases "setsize l \<le> fd") (auto simp: CreateFile aeCreateFileEvent_def Let_def set_event_def)
  next
    case (DeleteFile fd m)
    show ?thesis
    proof (cases "in_set l fd \<and> event_mask l fd \<noteq> 0")
      case True
      have reg: "evport_registered (apidata l) fd = event_mask l fd" "event_mask l fd \<in> masks"
        using f True by (auto simp: file_ok_def)
      have "event_mask (events_without l fd m) fd = event_mask l fd AND NOT m"
        using events_without_mask [of l fd fd m] True len(1) by simp
      then obtain a where "evport_ApiDelEvent (events_without l fd m) fd m = Some a"
        using evport_del_returns [of "events_without l fd m" fd m] len(2) c reg by (auto simp: DeleteFile)
      moreover have "array_get (events l) fd = Some (events l ! nat fd)" using True len(1) by (simp add: in_set_def)
      ultimately show ?thesis using True
        by (auto simp: DeleteFile aeDeleteFileEvent_def in_set_def event_mask_def ae_defs Let_def events_without_def set_event_def)
    next
      case False
      then show ?thesis using len(1) c
        by (cases "setsize l \<le> fd") (auto simp: DeleteFile aeDeleteFileEvent_def in_set_def event_mask_def ae_defs)
    qed
  qed
  then obtain l' where l': "file_run evport_ApiAddEvent evport_ApiDelEvent [c] l = Some l'" "fired l' = fired l" by blast
  have "\<forall>x \<in> set [c]. file_call_ok x" using c by simp
  from evp.file_run_ok [OF f this l'(1)] show ?thesis using l l' by (auto simp: loop_ok_def)
qed

lemma evport_poll_call:
  assumes l: "loop_ok l" and a: "a \<noteq> Failed"
  shows "\<exists>n l'. evport_ApiPoll a l = Some (n, l') \<and> loop_ok l' \<and> setsize l' = setsize l"
proof -
  obtain n l' where c: "evport_ApiPoll a l = Some (n, l')" using poll_returns [of l a] l a by (auto simp: loop_ok_def)
  have f: "file_ok evport_registered evport_ok l" using l by (simp add: loop_ok_def)
  then have "evport_ok (apidata l)" by (simp add: file_ok_def)
  note ok = evport_poll_ok [OF this c]
  then have "event_mask l' = event_mask l" "in_set l' = in_set l" by (auto simp: event_mask_def in_set_def fun_eq_iff)
  then have "loop_ok l'" using f ok l by (simp add: loop_ok_def file_ok_def)
  then show ?thesis using c ok by blast
qed

lemma evport_run_ok:
  assumes "loop_ok l" "\<forall>c \<in> set cs. evport_call_ok c"
  shows "\<exists>l'. evport_run cs l = Some l' \<and> loop_ok l' \<and> setsize l' = setsize l"
  using assms
proof (induction cs arbitrary: l)
  case (Cons c cs)
  show ?case
  proof (cases c)
    case (File x)
    then obtain l1 where "file_run evport_ApiAddEvent evport_ApiDelEvent [x] l = Some l1" "loop_ok l1" "setsize l1 = setsize l"
      using evport_file_call [OF Cons.prems(1), of x] Cons.prems(2) by auto
    then show ?thesis using Cons.IH [of l1] Cons.prems(2) File by simp
  next
    case (Poll a)
    then obtain n l1 where "evport_ApiPoll a l = Some (n, l1)" "loop_ok l1" "setsize l1 = setsize l"
      using evport_poll_call [OF Cons.prems(1), of a] Cons.prems(2) by auto
    then show ?thesis using Cons.IH [of l1] Cons.prems(2) Poll by simp
  qed
qed simp

text \<open>C17: An event port forgets a descriptor each time it reports one. Still, after any sequence of file event calls and
  polls on a new loop, of any size and with any descriptors that the port refuses, every call having returned (nothing
  aborts, and no report is written past the \<open>fired\<close> array), the first loop of the next poll restores the associations: it
  returns, and the port then watches every descriptor with exactly the events of the \<open>events\<close> array, and no other.\<close>

theorem evport_restores_events:
  assumes "\<forall>c \<in> set cs. evport_call_ok c" "aeCreateEventLoop (Some (evport_create bad)) now n = Some l"
  shows "\<exists>l' s. evport_run cs l = Some l' \<and>
    restore_pending 0 (nat (npending (apidata l'))) (apidata l') = Some s \<and>
    (\<forall>fd. port_watches s fd = (if 0 \<le> fd \<and> fd < n then event_mask l' fd else 0))"
proof -
  have new: "evport_registered (evport_create bad) = (\<lambda>_. 0)" "evport_ok (evport_create bad)"
    by (simp_all add: fun_eq_iff evport_registered_def port_watches_def aeApiLookupPending_def evport_create_def evport_ok_def)
  have "loop_ok l"
    using evp.create_loop_ok [OF assms(2) new(2,1)] assms(2) by (auto simp: loop_ok_def aeCreateEventLoop_def)
  then obtain l' where l': "evport_run cs l = Some l'" "loop_ok l'" "setsize l' = setsize l"
    using evport_run_ok assms(1) by blast
  have f: "file_ok evport_registered evport_ok l'" using l'(2) by (simp add: loop_ok_def)
  then have ok: "evport_ok (apidata l')" by (simp add: file_ok_def)
  then obtain s where s: "restore_pending 0 (nat (npending (apidata l'))) (apidata l') = Some s"
    using restore_pending_returns [of "apidata l'" 0] by auto
  have "port_watches s fd = evport_registered (apidata l') fd" for fd
    using restored(2) [OF ok s] registered_associated [of "s\<lparr>npending := 0\<rparr>" fd] by (simp add: fun_eq_iff port_watches_def)
  then show ?thesis using f l' s assms(2) by (auto simp: file_ok_def in_set_def aeCreateEventLoop_def)
qed

theorem evport_restores_events_witness:
  "\<exists>l' s. evport_run [File (CreateFile 5 3 ''connected'' ()), Poll (Retrieved [(5, 4)]), File (DeleteFile 5 2)]
       (the (aeCreateEventLoop (Some (evport_create (\<lambda>fd. fd = 7))) 0 10)) = Some l' \<and>
     restore_pending 0 (nat (npending (apidata l'))) (apidata l') = Some s \<and> port_watches s 5 = event_mask l' 5"
proof -
  let ?cs = "[File (CreateFile 5 3 ''connected'' ()), Poll (Retrieved [(5, 4)]), File (DeleteFile 5 2)]"
  let ?l = "the (aeCreateEventLoop (Some (evport_create (\<lambda>fd. fd = 7))) 0 10) :: (string, unit, evport_state) aeEventLoop"
  have "\<forall>c \<in> set ?cs. evport_call_ok c" by (simp add: masks_eq)
  moreover have "aeCreateEventLoop (Some (evport_create (\<lambda>fd. fd = 7))) 0 10 = Some ?l" by (simp add: aeCreateEventLoop_def)
  ultimately show ?thesis using evport_restores_events [of ?cs "\<lambda>fd. fd = 7" 0 10 ?l] by fastforce
qed

end
