(* ===== verification/Zmalloc.thy ===== *)
theory Zmalloc
  imports Prelude
begin

text \<open>
  The accounting allocator of \<open>wrk2/src/zmalloc.c\<close> over the C library's allocator (no
  \<open>HAVE_MALLOC_SIZE\<close>): a block starts with its size in 8 bytes, and \<open>used_memory\<close> counts the bytes of
  all blocks. The state is the counter, the thread flag and the live blocks (real address and sz
  header); the bytes of the blocks are not modelled. \<open>malloc\<close> and \<open>realloc\<close> are parameters; no memory
  aborts the process (no result), as does a pointer that is no live block.
\<close>

section \<open>The allocator\<close>

type_synonym block_list = "(u64 \<times> u64) list"
type_synonym c_malloc = "block_list \<Rightarrow> u64 \<Rightarrow> u64 option"
type_synonym c_realloc = "block_list \<Rightarrow> u64 \<Rightarrow> u64 \<Rightarrow> u64 option"

record zstate =
  used_memory :: u64
  zmalloc_thread_safe :: bool
  blocks :: block_list

definition PREFIX_SIZE :: u64 where
  "PREFIX_SIZE = 8"

text \<open>The size that is counted: up to the next multiple of \<open>sizeof(long)\<close>.\<close>

definition padded :: "u64 \<Rightarrow> u64" where
  "padded n = (if n AND 7 \<noteq> 0 then n + (8 - (n AND 7)) else n)"

definition update_zmalloc_stat_alloc :: "u64 \<Rightarrow> zstate \<Rightarrow> zstate" where
  "update_zmalloc_stat_alloc n st = st\<lparr>used_memory := used_memory st + padded n\<rparr>"

definition update_zmalloc_stat_free :: "u64 \<Rightarrow> zstate \<Rightarrow> zstate" where
  "update_zmalloc_stat_free n st = st\<lparr>used_memory := used_memory st - padded n\<rparr>"

definition zmalloc :: "c_malloc \<Rightarrow> u64 \<Rightarrow> zstate \<Rightarrow> (u64 \<times> zstate) option" where
  "zmalloc malloc sz st =
     (case malloc (blocks st) (sz + PREFIX_SIZE) of
        None \<Rightarrow> None
      | Some ptr \<Rightarrow>
          Some (ptr + PREFIX_SIZE, update_zmalloc_stat_alloc (sz + PREFIX_SIZE)
            (st\<lparr>blocks := (ptr, sz) # blocks st\<rparr>)))"

text \<open>\<open>zcalloc\<close> differs from \<open>zmalloc\<close> in the bytes of the block only.\<close>

definition zcalloc :: "c_malloc \<Rightarrow> u64 \<Rightarrow> zstate \<Rightarrow> (u64 \<times> zstate) option" where
  "zcalloc calloc sz st = zmalloc calloc sz st"

definition drop_block :: "u64 \<Rightarrow> block_list \<Rightarrow> block_list" where
  "drop_block p bs = filter (\<lambda>b. fst b \<noteq> p) bs"

definition zrealloc :: "c_malloc \<Rightarrow> c_realloc \<Rightarrow> u64 \<Rightarrow> u64 \<Rightarrow> zstate \<Rightarrow> (u64 \<times> zstate) option" where
  "zrealloc malloc realloc ptr sz st =
     (if ptr = 0 then zmalloc malloc sz st
      else let realptr = ptr - PREFIX_SIZE
        in case map_of (blocks st) realptr of
             None \<Rightarrow> None
           | Some oldsize \<Rightarrow>
               (case realloc (blocks st) realptr (sz + PREFIX_SIZE) of
                  None \<Rightarrow> None
                | Some newptr \<Rightarrow>
                    Some (newptr + PREFIX_SIZE,
                      update_zmalloc_stat_alloc sz (update_zmalloc_stat_free oldsize
                        (st\<lparr>blocks := (newptr, sz) # drop_block realptr (blocks st)\<rparr>)))))"

definition zmalloc_size :: "zstate \<Rightarrow> u64 \<Rightarrow> u64 option" where
  "zmalloc_size st ptr =
     map_option (\<lambda>sz. padded sz + PREFIX_SIZE) (map_of (blocks st) (ptr - PREFIX_SIZE))"

definition zfree :: "u64 \<Rightarrow> zstate \<Rightarrow> zstate option" where
  "zfree ptr st =
     (if ptr = 0 then Some st
      else let realptr = ptr - PREFIX_SIZE
        in case map_of (blocks st) realptr of
             None \<Rightarrow> None
           | Some oldsize \<Rightarrow>
               Some ((update_zmalloc_stat_free (oldsize + PREFIX_SIZE) st)
                 \<lparr>blocks := drop_block realptr (blocks st)\<rparr>))"

definition zstrdup :: "c_malloc \<Rightarrow> string \<Rightarrow> zstate \<Rightarrow> (u64 \<times> zstate) option" where
  "zstrdup malloc s st = zmalloc malloc (of_nat (length s) + 1) st"

definition zmalloc_used_memory :: "zstate \<Rightarrow> u64" where
  "zmalloc_used_memory st = used_memory st"

definition zmalloc_enable_thread_safeness :: "zstate \<Rightarrow> zstate" where
  "zmalloc_enable_thread_safeness st = st\<lparr>zmalloc_thread_safe := True\<rparr>"

text \<open>
  Neither \<open>HAVE_PROCFS\<close> nor \<open>HAVE_TASKINFO\<close> is defined (\<open>config.h\<close>), so the resident set size is the
  counter, and the ratio of the two is 1, or not a number when the counter is 0.
\<close>

definition zmalloc_get_rss :: "zstate \<Rightarrow> u64" where
  "zmalloc_get_rss st = zmalloc_used_memory st"

definition zmalloc_get_fragmentation_ratio :: "zstate \<Rightarrow> rat option" where
  "zmalloc_get_fragmentation_ratio st =
     (if zmalloc_used_memory st = 0 then None
      else Some (of_int (uint (zmalloc_get_rss st)) / of_int (uint (zmalloc_used_memory st))))"

section \<open>The counter counts the live blocks\<close>

definition block_bytes :: "block_list \<Rightarrow> u64" where
  "block_bytes bs = sum_list (map (\<lambda>b. padded (snd b + PREFIX_SIZE)) bs)"

definition accounted :: "zstate \<Rightarrow> bool" where
  "accounted st \<longleftrightarrow> distinct (map fst (blocks st)) \<and> used_memory st = block_bytes (blocks st)"

text \<open>The C library never returns the address of a live block; \<open>realloc\<close> may return the one it was given.\<close>

definition malloc_fresh :: "c_malloc \<Rightarrow> bool" where
  "malloc_fresh malloc \<longleftrightarrow> (\<forall>bs n p. malloc bs n = Some p \<longrightarrow> p \<notin> fst ` set bs)"

definition realloc_fresh :: "c_realloc \<Rightarrow> bool" where
  "realloc_fresh realloc \<longleftrightarrow>
     (\<forall>bs p n q. realloc bs p n = Some q \<longrightarrow> q = p \<or> q \<notin> fst ` set bs)"

lemma drop_block_id: "p \<notin> fst ` set bs \<Longrightarrow> drop_block p bs = bs"
  by (induction bs) (auto simp: drop_block_def)

lemma drop_block_sum:
  "distinct (map fst bs) \<Longrightarrow> map_of bs p = Some n \<Longrightarrow>
   block_bytes bs = padded (n + PREFIX_SIZE) + block_bytes (drop_block p bs)"
proof (induction bs)
  case (Cons b bs)
  show ?case
  proof (cases "fst b = p")
    case True
    then have "drop_block p bs = bs"
      using Cons.prems(1) by (auto intro!: drop_block_id)
    then show ?thesis using True Cons.prems(2) by (simp add: block_bytes_def drop_block_def)
  next
    case False
    then show ?thesis using Cons by (simp add: block_bytes_def drop_block_def)
  qed
qed simp

lemma drop_block_keys: "fst ` set (drop_block p bs) = fst ` set bs - {p}"
  by (auto simp: drop_block_def image_iff)

lemma drop_block_distinct: "distinct (map fst bs) \<Longrightarrow> distinct (map fst (drop_block p bs))"
  by (induction bs) (auto simp: drop_block_def)

lemma zmalloc_accounted:
  assumes "malloc_fresh malloc" "accounted st" "zmalloc malloc sz st = Some (ptr, st')"
  shows "accounted st'"
  using assms by (fastforce simp: zmalloc_def accounted_def malloc_fresh_def update_zmalloc_stat_alloc_def
    block_bytes_def add.commute split: option.splits)

lemma zfree_accounted:
  assumes "accounted st" "zfree ptr st = Some st'"
  shows "accounted st'"
  using assms drop_block_sum [of "blocks st" "ptr - PREFIX_SIZE"] drop_block_distinct
  by (auto simp: zfree_def Let_def accounted_def update_zmalloc_stat_free_def split: if_splits option.splits)

text \<open>Padding before or after the header is added is the same.\<close>

lemma padded_add8: "padded (n + PREFIX_SIZE) = padded n + PREFIX_SIZE"
proof -
  have "(n + 8) AND 7 = n AND 7"
  proof -
    have m: "(x :: u64) AND 7 = take_bit 3 x" for x
    proof -
      have "(7 :: u64) = mask 3" by (simp add: mask_eq_exp_minus_1)
      then show ?thesis by (simp only: take_bit_eq_mask)
    qed
    have "uint (take_bit 3 (n + 8)) = uint (take_bit 3 n)"
      by (simp only: unsigned_take_bit_eq uint_word_ariths) (simp add: take_bit_eq_mod mod_mod_cancel)
    then have "take_bit 3 (n + 8) = take_bit 3 n" by (simp only: word_uint_eq_iff)
    then show ?thesis by (simp add: m)
  qed
  then show ?thesis by (simp add: padded_def PREFIX_SIZE_def)
qed

text \<open>\<open>zrealloc\<close> counts the old and the new size without their headers, which cancel.\<close>

lemma zrealloc_accounted:
  assumes "malloc_fresh malloc" "realloc_fresh realloc" "accounted st"
    and "zrealloc malloc realloc ptr sz st = Some (ptr', st')"
  shows "accounted st'"
proof (cases "ptr = 0")
  case True
  then show ?thesis using zmalloc_accounted [OF assms(1,3)] assms(4) by (simp add: zrealloc_def)
next
  case False
  let ?p = "ptr - PREFIX_SIZE"
  obtain old q where o: "map_of (blocks st) ?p = Some old" "realloc (blocks st) ?p (sz + PREFIX_SIZE) = Some q"
    "st' = update_zmalloc_stat_alloc sz (update_zmalloc_stat_free old
      (st\<lparr>blocks := (q, sz) # drop_block ?p (blocks st)\<rparr>))"
    using False assms(4) by (auto simp: zrealloc_def Let_def split: option.splits)
  have "q = ?p \<or> q \<notin> fst ` set (blocks st)" using o(2) assms(2) unfolding realloc_fresh_def by blast
  then have "q \<notin> fst ` set (drop_block ?p (blocks st))" unfolding drop_block_keys by blast
  then have "distinct (map fst (blocks st'))"
    using o(3) assms(3) drop_block_distinct
    by (simp add: accounted_def update_zmalloc_stat_alloc_def update_zmalloc_stat_free_def)
  moreover have "used_memory st' = block_bytes (blocks st')"
    using assms(3) o(3) drop_block_sum [OF _ o(1)] padded_add8 [of old] padded_add8 [of sz]
    by (simp add: accounted_def update_zmalloc_stat_alloc_def update_zmalloc_stat_free_def block_bytes_def)
  ultimately show ?thesis by (simp add: accounted_def)
qed

section \<open>Sequences of calls\<close>

datatype zcall = Zmalloc u64 | Zcalloc u64 | Zrealloc u64 u64 | Zstrdup string | Zfree u64

fun zstep :: "c_malloc \<Rightarrow> c_realloc \<Rightarrow> zcall \<Rightarrow> zstate \<Rightarrow> zstate option" where
  "zstep m r (Zmalloc n) st = map_option snd (zmalloc m n st)"
| "zstep m r (Zcalloc n) st = map_option snd (zcalloc m n st)"
| "zstep m r (Zrealloc ptr n) st = map_option snd (zrealloc m r ptr n st)"
| "zstep m r (Zstrdup s) st = map_option snd (zstrdup m s st)"
| "zstep m r (Zfree ptr) st = zfree ptr st"

fun zrun :: "c_malloc \<Rightarrow> c_realloc \<Rightarrow> zcall list \<Rightarrow> zstate \<Rightarrow> zstate option" where
  "zrun m r [] st = Some st"
| "zrun m r (c # cs) st = (case zstep m r c st of None \<Rightarrow> None | Some st' \<Rightarrow> zrun m r cs st')"

lemma zstep_accounted:
  assumes "malloc_fresh m" "realloc_fresh r" "accounted st" "zstep m r c st = Some st'"
  shows "accounted st'"
  using assms
  by (cases c) (auto simp: zcalloc_def zstrdup_def zfree_accounted
      dest: zmalloc_accounted [OF assms(1,3)] zrealloc_accounted [OF assms(1-3)])

lemma zrun_accounted:
  assumes "malloc_fresh m" "realloc_fresh r" "accounted st" "zrun m r cs st = Some st'"
  shows "accounted st'"
  using assms(3,4)
proof (induction cs arbitrary: st)
  case (Cons c cs)
  then show ?case using zstep_accounted [OF assms(1,2)] by (auto split: option.splits)
qed simp

definition start_memory :: zstate where
  "start_memory = \<lparr>used_memory = 0, zmalloc_thread_safe = False, blocks = []\<rparr>"

lemma start_accounted: "accounted start_memory"
  by (simp add: accounted_def start_memory_def block_bytes_def)

text \<open>An allocator with five places.\<close>

definition five_places :: c_malloc where
  "five_places bs n = find (\<lambda>p. p \<notin> fst ` set bs) [64, 128, 192, 256, 320]"

lemma five_places_fresh: "malloc_fresh five_places"
  by (auto simp: malloc_fresh_def five_places_def find_Some_iff)

definition in_place :: c_realloc where
  "in_place bs p n = Some p"

lemma in_place_fresh: "realloc_fresh in_place"
  by (simp add: realloc_fresh_def in_place_def)

text \<open>C27: After any sequence of \<open>zmalloc\<close>, \<open>zcalloc\<close>, \<open>zrealloc\<close>, \<open>zstrdup\<close> and \<open>zfree\<close> calls that returns, with any
  allocator that gives out fresh addresses, the counter is the sum of the padded sizes of the live blocks, headers
  included, and no address is live twice.\<close>

theorem used_memory_counts_blocks:
  assumes "malloc_fresh malloc" "realloc_fresh realloc" "zrun malloc realloc cs start_memory = Some st"
  shows "zmalloc_used_memory st = block_bytes (blocks st) \<and> distinct (map fst (blocks st))"
  using zrun_accounted [OF assms(1,2) start_accounted assms(3)]
  by (simp add: accounted_def zmalloc_used_memory_def)

lemma used_memory_counts_blocks_witness:
  "\<exists>st. zrun five_places in_place [Zmalloc 10, Zstrdup ''abc'', Zrealloc 136 20, Zfree 72] start_memory = Some st \<and>
    zmalloc_used_memory st = 32 \<and> zmalloc_used_memory st = block_bytes (blocks st)"
proof -
  have "map_option zmalloc_used_memory (zrun five_places in_place [Zmalloc 10, Zstrdup ''abc'', Zrealloc 136 20, Zfree 72] start_memory) = Some 32"
    by code_simp
  then obtain st where "zrun five_places in_place [Zmalloc 10, Zstrdup ''abc'', Zrealloc 136 20, Zfree 72] start_memory = Some st"
    "zmalloc_used_memory st = 32" by (auto simp del: zrun.simps)
  then show ?thesis using used_memory_counts_blocks [OF five_places_fresh in_place_fresh] by blast
qed

text \<open>A block that is freed is no longer counted: \<open>zfree\<close> of what \<open>zmalloc\<close> just returned
  restores the counter and the blocks.\<close>

theorem free_undoes_malloc:
  assumes "malloc_fresh malloc" "zmalloc malloc sz st = Some (ptr, st')" "ptr \<noteq> 0"
  shows "zfree ptr st' = Some st"
proof -
  obtain a where a: "malloc (blocks st) (sz + PREFIX_SIZE) = Some a" "ptr = a + PREFIX_SIZE"
    "st' = update_zmalloc_stat_alloc (sz + PREFIX_SIZE) (st\<lparr>blocks := (a, sz) # blocks st\<rparr>)"
    using assms(2) by (auto simp: zmalloc_def split: option.splits)
  have "a \<notin> fst ` set (blocks st)" using a(1) assms(1) by (auto simp: malloc_fresh_def)
  then have "drop_block a (blocks st) = blocks st" by (rule drop_block_id)
  moreover have "drop_block a ((a, sz) # blocks st) = drop_block a (blocks st)" by (simp add: drop_block_def)
  ultimately show ?thesis using a(2,3) assms(3)
    by (simp add: zfree_def Let_def update_zmalloc_stat_alloc_def update_zmalloc_stat_free_def)
qed

lemma free_undoes_malloc_witness: "\<exists>st. zmalloc five_places 10 start_memory = Some (72, st) \<and>
    zfree 72 st = Some start_memory"
proof -
  have "map_option fst (zmalloc five_places 10 start_memory) = Some 72" by code_simp
  then obtain st where "zmalloc five_places 10 start_memory = Some (72, st)" by auto
  with free_undoes_malloc [OF five_places_fresh this] show ?thesis by auto
qed

end
