(* ===== verification/Ae_Memory.thy ===== *)
theory Ae_Memory
  imports Ae_Loop Zmalloc "HOL-Library.Multiset"
begin

text \<open>
  The memory of an event loop (\<open>wrk2/src/ae.c\<close> with \<open>ae_epoll.c\<close>, over the allocator of \<open>zmalloc.c\<close>): the blocks that
  \<open>aeCreateEventLoop\<close> allocates, those of the timers, and what \<open>aeDeleteEventLoop\<close> frees of them. The sizes of the structures
  are those of a 64-bit system; \<open>zmalloc\<close> aborts without memory, so the tests for \<open>NULL\<close> never hold.
\<close>

section \<open>The blocks of a loop\<close>

definition sizeof_aeEventLoop :: u64 where "sizeof_aeEventLoop = 72"
definition sizeof_aeFileEvent :: u64 where "sizeof_aeFileEvent = 32"
definition sizeof_aeFiredEvent :: u64 where "sizeof_aeFiredEvent = 8"
definition sizeof_aeTimeEvent :: u64 where "sizeof_aeTimeEvent = 56"
definition sizeof_aeApiState :: u64 where "sizeof_aeApiState = 16"
definition sizeof_epoll_event :: u64 where "sizeof_epoll_event = 12"

text \<open>The pointers; a timer is known by its identifier, the newest first.\<close>

record loop_memory =
  m_loop :: u64
  m_events :: u64
  m_fired :: u64
  m_state :: u64
  m_api_events :: u64
  m_timers :: "(int \<times> u64) list"

text \<open>\<open>aeApiCreate\<close> of epoll: \<open>fails\<close> says that \<open>epoll_create\<close> returns -1.\<close>

definition epoll_ApiCreate :: "c_malloc \<Rightarrow> bool \<Rightarrow> int \<Rightarrow> zstate \<Rightarrow> ((u64 \<times> u64) option \<times> zstate) option" where
  "epoll_ApiCreate malloc fails size_of_set st = do {
     (s, st1) \<leftarrow> zmalloc malloc sizeof_aeApiState st;
     (es, st2) \<leftarrow> zmalloc malloc (sizeof_epoll_event * word_of_int size_of_set) st1;
     if fails then do {
       st3 \<leftarrow> zfree es st2;
       st4 \<leftarrow> zfree s st3;
       Some (None, st4)
     } else Some (Some (s, es), st2)
   }"

definition epoll_ApiFree :: "u64 \<times> u64 \<Rightarrow> zstate \<Rightarrow> zstate option" where
  "epoll_ApiFree api st = zfree (snd api) st \<bind> zfree (fst api)"

definition create_loop_memory :: "c_malloc \<Rightarrow> bool \<Rightarrow> int \<Rightarrow> zstate \<Rightarrow> (loop_memory option \<times> zstate) option" where
  "create_loop_memory malloc fails size_of_set st = do {
     (l, st1) \<leftarrow> zmalloc malloc sizeof_aeEventLoop st;
     (ev, st2) \<leftarrow> zmalloc malloc (sizeof_aeFileEvent * word_of_int size_of_set) st1;
     (fi, st3) \<leftarrow> zmalloc malloc (sizeof_aeFiredEvent * word_of_int size_of_set) st2;
     (api, st4) \<leftarrow> epoll_ApiCreate malloc fails size_of_set st3;
     (case api of
        None \<Rightarrow> do {
          st5 \<leftarrow> zfree ev st4;
          st6 \<leftarrow> zfree fi st5;
          st7 \<leftarrow> zfree l st6;
          Some (None, st7)
        }
      | Some (s, es) \<Rightarrow>
          Some (Some \<lparr>m_loop = l, m_events = ev, m_fired = fi, m_state = s, m_api_events = es, m_timers = []\<rparr>, st4))
   }"

definition aeDeleteEventLoop :: "loop_memory \<Rightarrow> zstate \<Rightarrow> zstate option" where
  "aeDeleteEventLoop m st =
     epoll_ApiFree (m_state m, m_api_events m) st \<bind> zfree (m_events m) \<bind> zfree (m_fired m) \<bind> zfree (m_loop m)"

section \<open>The blocks of timers\<close>

definition create_timer_memory :: "c_malloc \<Rightarrow> int \<Rightarrow> loop_memory \<times> zstate \<Rightarrow> (loop_memory \<times> zstate) option" where
  "create_timer_memory malloc i ms =
     map_option (\<lambda>(p, st). ((fst ms)\<lparr>m_timers := (i, p) # m_timers (fst ms)\<rparr>, st)) (zmalloc malloc sizeof_aeTimeEvent (snd ms))"

fun unlink_block :: "int \<Rightarrow> (int \<times> u64) list \<Rightarrow> (u64 \<times> (int \<times> u64) list) option" where
  "unlink_block i [] = None"
| "unlink_block i ((j, p) # ts) =
     (if j = i then Some (p, ts) else map_option (\<lambda>(q, ts'). (q, (j, p) # ts')) (unlink_block i ts))"

definition delete_timer_memory :: "int \<Rightarrow> loop_memory \<times> zstate \<Rightarrow> (loop_memory \<times> zstate) option" where
  "delete_timer_memory i ms =
     (case unlink_block i (m_timers (fst ms)) of
        None \<Rightarrow> Some ms
      | Some (p, ts) \<Rightarrow> map_option (Pair ((fst ms)\<lparr>m_timers := ts\<rparr>)) (zfree p (snd ms)))"

text \<open>Timers are created, without a finalizer, and deleted, on the loop and in its memory.\<close>

datatype ('p, 'd) timer_call = CreateTimer int 'p 'd | DeleteTimer int

fun timer_run ::
  "('w, 'p, 'd, 'a) ae_env \<Rightarrow> c_malloc \<Rightarrow> ('p, 'd) timer_call list \<Rightarrow> ('w \<times> ('p, 'd, 'a) aeEventLoop) \<times> loop_memory \<times> zstate
    \<Rightarrow> (('w \<times> ('p, 'd, 'a) aeEventLoop) \<times> loop_memory \<times> zstate) option" where
  "timer_run env malloc [] s = Some s"
| "timer_run env malloc (CreateTimer ms proc d # cs) s =
     (let (i, s') = aeCreateTimeEvent (clock env) ms proc d None (fst s)
      in create_timer_memory malloc i (snd s) \<bind> (\<lambda>m. timer_run env malloc cs (s', m)))"
| "timer_run env malloc (DeleteTimer i # cs) s =
     aeDeleteTimeEvent env i (fst s) \<bind> (\<lambda>(_, s'). delete_timer_memory i (snd s) \<bind> (\<lambda>m. timer_run env malloc cs (s', m)))"

section \<open>Blocks as a multiset\<close>

text \<open>The C library returns addresses that leave room for the header, and none of a live block.\<close>

definition malloc_ok :: "c_malloc \<Rightarrow> bool" where
  "malloc_ok malloc \<longleftrightarrow> malloc_fresh malloc \<and> (\<forall>bs n. malloc bs n \<noteq> Some (- PREFIX_SIZE))"

text \<open>The live blocks are \<open>bs\<close> and the others, and the counter is right.\<close>

definition holds_blocks :: "zstate \<Rightarrow> block_list \<Rightarrow> (u64 \<times> u64) multiset \<Rightarrow> bool" where
  "holds_blocks st bs M \<longleftrightarrow> accounted st \<and> mset (blocks st) = mset bs + M \<and> (\<forall>b \<in> set bs. fst b \<noteq> - PREFIX_SIZE)"

lemma used_of_blocks: "accounted st \<Longrightarrow> used_memory st = (\<Sum>b \<in># mset (blocks st). padded (snd b + PREFIX_SIZE))"
  by (simp add: accounted_def block_bytes_def sum_mset_sum_list [symmetric])

lemma zmalloc_holds:
  assumes "malloc_ok malloc" "holds_blocks st bs M" "zmalloc malloc n st = Some (p, st')"
  shows "holds_blocks st' ((p - PREFIX_SIZE, n) # bs) M"
proof -
  obtain a where a: "malloc (blocks st) (n + PREFIX_SIZE) = Some a" "p = a + PREFIX_SIZE" "blocks st' = (a, n) # blocks st"
    using assms(3) by (auto simp: zmalloc_def update_zmalloc_stat_alloc_def split: option.splits)
  moreover have "accounted st'" using zmalloc_accounted assms by (auto simp: malloc_ok_def holds_blocks_def)
  ultimately show ?thesis using assms(1,2) by (auto simp: malloc_ok_def holds_blocks_def)
qed

lemma drop_block_mset:
  "distinct (map fst bs) \<Longrightarrow> (a, n) \<in> set bs \<Longrightarrow> mset (drop_block a bs) = mset bs - {#(a, n)#}"
proof (induction bs)
  case (Cons b bs)
  show ?case
  proof (cases "fst b = a")
    case True
    then have "b = (a, n)" "a \<notin> fst ` set bs" using Cons.prems by (auto intro: rev_image_eqI)
    then show ?thesis using drop_block_id [of a bs] by (simp add: drop_block_def)
  next
    case False
    then have "b \<noteq> (a, n)" by auto
    then show ?thesis using False Cons by (auto simp: drop_block_def)
  qed
qed simp

lemma zfree_holds:
  assumes "holds_blocks st (bs @ (p - PREFIX_SIZE, n) # cs) M"
  obtains st' where "zfree p st = Some st'" "holds_blocks st' (bs @ cs) M"
proof -
  let ?a = "p - PREFIX_SIZE"
  have acc: "accounted st" and ms: "mset (blocks st) = mset (bs @ (?a, n) # cs) + M" using assms by (auto simp: holds_blocks_def)
  have d: "distinct (map fst (blocks st))" using acc by (simp add: accounted_def)
  have m: "(?a, n) \<in> set (blocks st)" by (metis ms in_multiset_in_set union_iff in_set_conv_decomp)
  have "?a \<noteq> - PREFIX_SIZE" using assms by (auto simp: holds_blocks_def)
  then have p: "p \<noteq> 0" by auto
  have "map_of (blocks st) ?a = Some n" using d m by simp
  then obtain st' where f: "zfree p st = Some st'" "blocks st' = drop_block ?a (blocks st)"
    using p by (auto simp: zfree_def Let_def)
  then have "mset (blocks st') = mset (bs @ cs) + M" using drop_block_mset [OF d m] ms by simp
  then show thesis using that f(1) zfree_accounted [OF acc f(1)] assms by (auto simp: holds_blocks_def)
qed

lemma zfree_first:
  assumes "holds_blocks st ((p - PREFIX_SIZE, n) # cs) M"
  shows "\<exists>st'. zfree p st = Some st' \<and> holds_blocks st' cs M"
  using zfree_holds [of st "[]" p n cs M] assms by auto

lemma zfree_second:
  assumes "holds_blocks st (b # (p - PREFIX_SIZE, n) # cs) M"
  shows "\<exists>st'. zfree p st = Some st' \<and> holds_blocks st' (b # cs) M"
  using zfree_holds [of st "[b]" p n cs M] assms by auto

lemma holds_perm: "mset bs = mset bs' \<Longrightarrow> holds_blocks st bs M = holds_blocks st bs' M"
  using mset_eq_setD [of bs bs'] by (auto simp: holds_blocks_def)

section \<open>A loop and its blocks\<close>

definition loop_blocks :: "loop_memory \<Rightarrow> int \<Rightarrow> block_list" where
  "loop_blocks m n =
     [(m_api_events m - PREFIX_SIZE, sizeof_epoll_event * word_of_int n), (m_state m - PREFIX_SIZE, sizeof_aeApiState),
      (m_events m - PREFIX_SIZE, sizeof_aeFileEvent * word_of_int n), (m_fired m - PREFIX_SIZE, sizeof_aeFiredEvent * word_of_int n),
      (m_loop m - PREFIX_SIZE, sizeof_aeEventLoop)]"

definition timer_blocks :: "(int \<times> u64) list \<Rightarrow> block_list" where
  "timer_blocks ts = map (\<lambda>(i, p). (p - PREFIX_SIZE, sizeof_aeTimeEvent)) ts"

text \<open>The blocks of the loop are live beside the others, and those of timers belong to the timers of its list.\<close>

definition loop_memory_ok ::
  "int \<Rightarrow> (u64 \<times> u64) multiset \<Rightarrow> ('w \<times> ('p, 'd, 'a) aeEventLoop) \<times> loop_memory \<times> zstate \<Rightarrow> bool" where
  "loop_memory_ok n M s \<longleftrightarrow>
     (case s of ((w, l), m, st) \<Rightarrow>
        holds_blocks st (loop_blocks m n @ timer_blocks (m_timers m)) M \<and> map fst (m_timers m) = map te_id (timeEventHead l) \<and>
        (\<forall>te \<in> set (timeEventHead l). finalizerProc te = None))"

lemma create_loop_holds:
  assumes "malloc_ok malloc" "accounted st" "create_loop_memory malloc fails n st = Some (r, st')"
  shows "case r of
      None \<Rightarrow> fails \<and> holds_blocks st' [] (mset (blocks st))
    | Some m \<Rightarrow> \<not> fails \<and> m_timers m = [] \<and> holds_blocks st' (loop_blocks m n) (mset (blocks st))"
proof -
  let ?M = "mset (blocks st)"
  have h0: "holds_blocks st [] ?M" using assms(2) by (simp add: holds_blocks_def)
  obtain l st1 where l: "zmalloc malloc sizeof_aeEventLoop st = Some (l, st1)"
    using assms(3) by (auto simp: create_loop_memory_def bind_eq_Some_conv)
  obtain ev st2 where ev: "zmalloc malloc (sizeof_aeFileEvent * word_of_int n) st1 = Some (ev, st2)"
    using assms(3) l by (auto simp: create_loop_memory_def bind_eq_Some_conv)
  obtain fi st3 where fi: "zmalloc malloc (sizeof_aeFiredEvent * word_of_int n) st2 = Some (fi, st3)"
    using assms(3) l ev by (auto simp: create_loop_memory_def bind_eq_Some_conv)
  obtain s st4 where s: "zmalloc malloc sizeof_aeApiState st3 = Some (s, st4)"
    using assms(3) l ev fi by (auto simp: create_loop_memory_def epoll_ApiCreate_def bind_eq_Some_conv)
  obtain es st5 where es: "zmalloc malloc (sizeof_epoll_event * word_of_int n) st4 = Some (es, st5)"
    using assms(3) l ev fi s by (auto simp: create_loop_memory_def epoll_ApiCreate_def bind_eq_Some_conv)
  note calls = l ev fi s es
  let ?L = "(l - PREFIX_SIZE, sizeof_aeEventLoop)" let ?E = "(ev - PREFIX_SIZE, sizeof_aeFileEvent * word_of_int n)"
  let ?F = "(fi - PREFIX_SIZE, sizeof_aeFiredEvent * word_of_int n)" let ?S = "(s - PREFIX_SIZE, sizeof_aeApiState)"
  let ?A = "(es - PREFIX_SIZE, sizeof_epoll_event * word_of_int n)"
  have h: "holds_blocks st5 [?A, ?S, ?F, ?E, ?L] ?M"
    using zmalloc_holds [OF assms(1) zmalloc_holds [OF assms(1) zmalloc_holds [OF assms(1) zmalloc_holds [OF assms(1)
      zmalloc_holds [OF assms(1) h0 l] ev] fi] s] es] .
  show ?thesis
  proof (cases fails)
    case False
    then have "r = Some \<lparr>m_loop = l, m_events = ev, m_fired = fi, m_state = s, m_api_events = es, m_timers = []\<rparr>" "st' = st5"
      using assms(3) calls by (auto simp: create_loop_memory_def epoll_ApiCreate_def)
    then show ?thesis
      using False h holds_perm [of "[?A, ?S, ?F, ?E, ?L]" "[?A, ?S, ?E, ?F, ?L]"] by (simp add: loop_blocks_def)
  next
    case True
    obtain st6 where f1: "zfree es st5 = Some st6" "holds_blocks st6 [?S, ?F, ?E, ?L] ?M" using zfree_first [OF h] by auto
    obtain st7 where f2: "zfree s st6 = Some st7" "holds_blocks st7 [?F, ?E, ?L] ?M" using zfree_first [OF f1(2)] by auto
    obtain st8 where f3: "zfree ev st7 = Some st8" "holds_blocks st8 [?F, ?L] ?M" using zfree_second [OF f2(2)] by auto
    obtain st9 where f4: "zfree fi st8 = Some st9" "holds_blocks st9 [?L] ?M" using zfree_first [OF f3(2)] by auto
    obtain st10 where f5: "zfree l st9 = Some st10" "holds_blocks st10 [] ?M" using zfree_first [OF f4(2)] by auto
    have "r = None" "st' = st10"
      using assms(3) calls f1(1) f2(1) f3(1) f4(1) f5(1) True by (auto simp: create_loop_memory_def epoll_ApiCreate_def)
    then show ?thesis using True f5(2) by simp
  qed
qed

lemma delete_loop_holds:
  assumes "holds_blocks st (loop_blocks m n @ ts) M"
  obtains st' where "aeDeleteEventLoop m st = Some st'" "holds_blocks st' ts M"
proof -
  note h = assms [unfolded loop_blocks_def append.simps]
  obtain st1 where f1: "zfree (m_api_events m) st = Some st1" and h1: "holds_blocks st1 (tl (loop_blocks m n @ ts)) M"
    using zfree_first [OF h] by (auto simp: loop_blocks_def)
  obtain st2 where f2: "zfree (m_state m) st1 = Some st2" and h2: "holds_blocks st2 (tl (tl (loop_blocks m n @ ts))) M"
    using zfree_first [OF h1 [unfolded loop_blocks_def append.simps list.sel]] by (auto simp: loop_blocks_def)
  obtain st3 where f3: "zfree (m_events m) st2 = Some st3" and h3: "holds_blocks st3 (tl (tl (tl (loop_blocks m n @ ts)))) M"
    using zfree_first [OF h2 [unfolded loop_blocks_def append.simps list.sel]] by (auto simp: loop_blocks_def)
  obtain st4 where f4: "zfree (m_fired m) st3 = Some st4" and h4: "holds_blocks st4 (tl (tl (tl (tl (loop_blocks m n @ ts))))) M"
    using zfree_first [OF h3 [unfolded loop_blocks_def append.simps list.sel]] by (auto simp: loop_blocks_def)
  obtain st5 where f5: "zfree (m_loop m) st4 = Some st5" "holds_blocks st5 ts M"
    using zfree_first [OF h4 [unfolded loop_blocks_def append.simps list.sel]] by auto
  show thesis using that f1 f2 f3 f4 f5 by (simp add: aeDeleteEventLoop_def epoll_ApiFree_def)
qed

lemma unlink_both:
  assumes "map fst ts = map te_id tms"
  shows "case unlink_block i ts of
      None \<Rightarrow> unlink_timer i tms = None
    | Some (p, ts') \<Rightarrow> \<exists>te tms' as bs. unlink_timer i tms = Some (te, tms') \<and> te \<in> set tms \<and> set tms' \<subseteq> set tms \<and>
        ts = as @ (i, p) # bs \<and> ts' = as @ bs \<and> map fst ts' = map te_id tms'"
  using assms
proof (induction ts arbitrary: tms)
  case (Cons t ts)
  obtain te tms1 where tms: "tms = te # tms1" "fst t = te_id te" "map fst ts = map te_id tms1" using Cons.prems by (cases tms) auto
  obtain j q where t: "t = (j, q)" by (cases t)
  show ?case
  proof (cases "j = i")
    case True
    then have "(i, q) # ts = [] @ (i, q) # ts" "ts = [] @ ts" by simp_all
    then show ?thesis using True tms t by (auto simp: tms(1) intro: exI [of _ "[]"])
  next
    case False
    show ?thesis
    proof (cases "unlink_block i ts")
      case None
      then show ?thesis using Cons.IH [OF tms(3)] False tms t by simp
    next
      case (Some x)
      obtain p ts' where x: "x = (p, ts')" by (cases x)
      obtain te' tms' as bs where *: "unlink_timer i tms1 = Some (te', tms')" "te' \<in> set tms1" "set tms' \<subseteq> set tms1"
        "ts = as @ (i, p) # bs" "ts' = as @ bs" "map fst ts' = map te_id tms'"
        using Cons.IH [OF tms(3)] Some x by auto
      have "unlink_block i (t # ts) = Some (p, t # ts')" "unlink_timer i tms = Some (te', te # tms')"
        using * Some x False tms t by simp_all
      moreover have "te' \<in> set tms \<and> set (te # tms') \<subseteq> set tms \<and> t # ts = (t # as) @ (i, p) # bs \<and> t # ts' = (t # as) @ bs \<and>
          map fst (t # ts') = map te_id (te # tms')" using * tms by auto
      ultimately show ?thesis
        by (simp only: option.case prod.case)
          (rule exI [of _ te'], rule exI [of _ "te # tms'"], rule exI [of _ "t # as"], rule exI [of _ bs], use * in auto)
    qed
  qed
qed simp

lemma timer_run_ok:
  assumes "malloc_ok malloc" "loop_memory_ok n M s" "timer_run env malloc cs s = Some s'"
  shows "loop_memory_ok n M s'"
  using assms(2,3)
proof (induction cs arbitrary: s)
  case (Cons c cs)
  obtain w l m st where s: "s = ((w, l), m, st)" by (metis prod.collapse)
  have h: "holds_blocks st (loop_blocks m n @ timer_blocks (m_timers m)) M" "map fst (m_timers m) = map te_id (timeEventHead l)"
    "\<forall>te \<in> set (timeEventHead l). finalizerProc te = None"
    using Cons.prems(1) by (auto simp: loop_memory_ok_def s)
  show ?case
  proof (cases c)
    case (CreateTimer ms proc d)
    obtain i w1 l1 where c: "aeCreateTimeEvent (clock env) ms proc d None (w, l) = (i, w1, l1)" by (metis prod.collapse)
    then obtain te where te: "timeEventHead l1 = te # timeEventHead l" "te_id te = i" "finalizerProc te = None"
      by (auto simp: aeCreateTimeEvent_def Let_def split: prod.splits)
    obtain p st1 where z: "zmalloc malloc sizeof_aeTimeEvent st = Some (p, st1)"
      "timer_run env malloc cs ((w1, l1), m\<lparr>m_timers := (i, p) # m_timers m\<rparr>, st1) = Some s'"
      using Cons.prems(2) c CreateTimer by (auto simp: s create_timer_memory_def bind_eq_Some_conv)
    have "holds_blocks st1 (loop_blocks m n @ timer_blocks ((i, p) # m_timers m)) M"
      using zmalloc_holds [OF assms(1) h(1) z(1)]
        holds_perm [of "(p - PREFIX_SIZE, sizeof_aeTimeEvent) # loop_blocks m n @ timer_blocks (m_timers m)"
          "loop_blocks m n @ timer_blocks ((i, p) # m_timers m)"] by (simp add: timer_blocks_def)
    then have "loop_memory_ok n M ((w1, l1), m\<lparr>m_timers := (i, p) # m_timers m\<rparr>, st1)"
      using h te by (simp add: loop_memory_ok_def loop_blocks_def)
    then show ?thesis using Cons.IH z(2) by blast
  next
    case (DeleteTimer i)
    show ?thesis
    proof (cases "unlink_block i (m_timers m)")
      case None
      then have "unlink_timer i (timeEventHead l) = None" using unlink_both [OF h(2), of i] by simp
      then have "timer_run env malloc cs s = Some s'"
        using Cons.prems(2) None DeleteTimer by (simp add: s aeDeleteTimeEvent_def delete_timer_memory_def)
      then show ?thesis using Cons.IH Cons.prems(1) by blast
    next
      case (Some x)
      obtain p ts' where x: "x = (p, ts')" by (cases x)
      obtain te tms' as bs where u: "unlink_timer i (timeEventHead l) = Some (te, tms')" "te \<in> set (timeEventHead l)"
        "set tms' \<subseteq> set (timeEventHead l)" "m_timers m = as @ (i, p) # bs" "ts' = as @ bs" "map fst ts' = map te_id tms'"
        using unlink_both [OF h(2), of i] Some x by auto
      obtain st1 where f: "zfree p st = Some st1" "holds_blocks st1 (loop_blocks m n @ timer_blocks ts') M"
        using zfree_holds [of st "loop_blocks m n @ timer_blocks as" p sizeof_aeTimeEvent "timer_blocks bs" M] h(1) u(4,5)
        by (auto simp: timer_blocks_def)
      have "timer_run env malloc cs ((w, l\<lparr>timeEventHead := tms'\<rparr>), m\<lparr>m_timers := ts'\<rparr>, st1) = Some s'"
        using Cons.prems(2) Some x u(1,2) f(1) h(3) DeleteTimer by (simp add: s aeDeleteTimeEvent_def delete_timer_memory_def)
      moreover have "loop_memory_ok n M ((w, l\<lparr>timeEventHead := tms'\<rparr>), m\<lparr>m_timers := ts'\<rparr>, st1)"
        using f(2) u(3,6) h(3) by (auto simp: loop_memory_ok_def loop_blocks_def)
      ultimately show ?thesis using Cons.IH by blast
    qed
  qed
qed simp

section \<open>What is freed\<close>

lemma padded_timer: "padded (sizeof_aeTimeEvent + PREFIX_SIZE) = 64"
  by (simp add: padded_def sizeof_aeTimeEvent_def PREFIX_SIZE_def)

lemma timer_bytes: "(\<Sum>b \<in># mset (timer_blocks ts). padded (snd b + PREFIX_SIZE)) = 64 * of_nat (length ts)"
  by (induction ts) (auto simp: timer_blocks_def padded_timer algebra_simps)

lemma used_beside:
  assumes "accounted st" "holds_blocks st' bs (mset (blocks st))"
  shows "used_memory st' = used_memory st + (\<Sum>b \<in># mset bs. padded (snd b + PREFIX_SIZE))"
  using assms by (simp add: holds_blocks_def used_of_blocks add.commute)

text \<open>C28: \<open>aeDeleteEventLoop\<close> frees every block of a loop once, in every run of the allocator with fresh addresses; when
  \<open>epoll_create\<close> fails, \<open>aeCreateEventLoop\<close> gives back all that it took. The timers that are still in the list are not freed:
  whatever timers were created and deleted before, the counter of \<open>zmalloc\<close> ends 64 bytes higher for each timer that is left,
  as the two periodic timers of each thread are.\<close>

theorem loop_memory_released:
  assumes "malloc_ok malloc" "accounted st" "create_loop_memory malloc fails n st = Some (r, st1)"
    and "aeCreateEventLoop (Some a) now n = Some l"
  shows "case r of
      None \<Rightarrow> fails \<and> used_memory st1 = used_memory st \<and> mset (blocks st1) = mset (blocks st)
    | Some m \<Rightarrow> \<forall>cs w' l' m' st2. timer_run env malloc cs ((w, l), m, st1) = Some ((w', l'), m', st2) \<longrightarrow>
        (\<exists>st3. aeDeleteEventLoop m' st2 = Some st3 \<and>
          used_memory st3 = used_memory st + 64 * of_nat (length (timeEventHead l')))"
proof (cases r)
  case None
  then have h: "fails" "holds_blocks st1 [] (mset (blocks st))" using create_loop_holds [OF assms(1-3)] by simp_all
  then have "mset (blocks st1) = mset (blocks st)" by (simp add: holds_blocks_def)
  then show ?thesis using None h(1) used_beside [OF assms(2) h(2)] by simp
next
  case (Some m)
  then have h: "m_timers m = []" "holds_blocks st1 (loop_blocks m n) (mset (blocks st))"
    using create_loop_holds [OF assms(1-3)] by simp_all
  have l: "timeEventHead l = []" using assms(4) by (auto simp: aeCreateEventLoop_def)
  have ok: "loop_memory_ok n (mset (blocks st)) ((w, l), m, st1)"
    using h l by (simp add: loop_memory_ok_def timer_blocks_def)
  have "\<exists>st3. aeDeleteEventLoop m' st2 = Some st3 \<and> used_memory st3 = used_memory st + 64 * of_nat (length (timeEventHead l'))"
    if r: "timer_run env malloc cs ((w, l), m, st1) = Some ((w', l'), m', st2)" for cs w' l' m' st2
  proof -
    have k: "holds_blocks st2 (loop_blocks m' n @ timer_blocks (m_timers m')) (mset (blocks st))"
      "map fst (m_timers m') = map te_id (timeEventHead l')"
      using timer_run_ok [OF assms(1) ok r] by (auto simp: loop_memory_ok_def)
    obtain st3 where d: "aeDeleteEventLoop m' st2 = Some st3" "holds_blocks st3 (timer_blocks (m_timers m')) (mset (blocks st))"
      by (rule delete_loop_holds [OF k(1)])
    have "length (m_timers m') = length (timeEventHead l')" using k(2) map_eq_imp_length_eq by blast
    then show ?thesis using d(1) used_beside [OF assms(2) d(2)] timer_bytes by simp
  qed
  then show ?thesis using Some by auto
qed

text \<open>An allocator with twenty places.\<close>

definition twenty_places :: c_malloc where
  "twenty_places bs n = find (\<lambda>p. p \<notin> fst ` set bs) (map (\<lambda>k. 64 * of_nat k) [1..<20])"

lemma find_in: "find P xs = Some x \<Longrightarrow> x \<in> set xs \<and> P x"
  by (induction xs) (auto split: if_splits)

lemma twenty_places_ok: "malloc_ok twenty_places"
proof -
  have "\<forall>p \<in> set (map (\<lambda>k. 64 * of_nat k) [1..<20]). p \<noteq> - PREFIX_SIZE" by code_simp
  then show ?thesis unfolding malloc_ok_def malloc_fresh_def twenty_places_def using find_in by fast
qed

theorem loop_memory_released_witness:
  "\<exists>m st1 w l m' st2 st3. create_loop_memory twenty_places False 4 start_memory = Some (Some m, st1) \<and>
    timer_run still_env twenty_places [CreateTimer 5 7 (), CreateTimer 6 8 (), DeleteTimer 0]
      (((0, 0), the (aeCreateEventLoop (Some ()) 0 4)), m, st1) = Some ((w, l), m', st2) \<and>
    aeDeleteEventLoop m' st2 = Some st3 \<and> used_memory st3 = 64"
proof -
  let ?C = "create_loop_memory twenty_places False 4 start_memory"
  let ?R = "\<lambda>r st. timer_run still_env twenty_places [CreateTimer 5 7 (), CreateTimer 6 8 (), DeleteTimer 0]
    (((0, 0), the (aeCreateEventLoop (Some ()) 0 4)), the r, st)"
  have "map_option (\<lambda>(r, _). case r of None \<Rightarrow> False | Some _ \<Rightarrow> True) ?C = Some True" by code_simp
  then obtain m st1 where c: "?C = Some (Some m, st1)" by (auto split: option.splits)
  have "map_option (\<lambda>x. length (timeEventHead (snd (fst x)))) (?C \<bind> (\<lambda>(r, st). ?R r st)) = Some 1" by code_simp
  then obtain w l m' st2 where r: "?R (Some m) st1 = Some ((w, l), m', st2)" "length (timeEventHead l) = 1"
    by (auto simp: c simp del: timer_run.simps)
  have n: "aeCreateEventLoop (Some ()) 0 4 = Some (the (aeCreateEventLoop (Some ()) 0 4))" by (simp add: aeCreateEventLoop_def)
  have "used_memory start_memory = 0" by (simp add: start_memory_def)
  then obtain st3 where "aeDeleteEventLoop m' st2 = Some st3" "used_memory st3 = 64"
    using loop_memory_released [OF twenty_places_ok start_accounted c n, of still_env "(0, 0)", unfolded option.case,
      rule_format, OF r(1) [unfolded option.sel]] r(2) by auto
  then show ?thesis using c r(1) by (auto simp del: timer_run.simps)
qed

end
