(* ===== verification/Script_Lua.thy ===== *)
theory Script_Lua
  imports Script
begin

text \<open>
  The parts of \<open>wrk2/src/script.c\<close> that talk to the script through the stack of a Lua state: the setup of a state, the
  calls of the script's functions, and the report at the end. The documented operations of the C interface of Lua 5.1 are
  definitions on a state with a stack, global variables and a heap of tables; what a called function does is an argument.
  A Lua error outside a protected call, and an access outside the stack, have no result. Tables have no metatables here.
\<close>

section \<open>A Lua state\<close>

datatype lval = VNil | VBool bool | VNum real | VStr string | VTab nat | VFun nat | VCFun string | VUser nat

text \<open>What the userdata of \<open>script.c\<close> point to.\<close>

datatype userdata = UStats nat | UThread nat

text \<open>The stack has its top first. Tables and userdata are numbered in the order of their creation.\<close>

record lua =
  stk :: "lval list"
  globals :: "string \<Rightarrow> lval"
  registry :: "string \<Rightarrow> lval"
  tables :: "nat \<Rightarrow> lval \<Rightarrow> lval"
  users :: "nat \<Rightarrow> (userdata \<times> lval) option"
  fresh :: nat

text \<open>A positive index counts from the bottom of the stack, a negative one from the top.\<close>

definition lua_slot :: "lua \<Rightarrow> int \<Rightarrow> nat option" where
  "lua_slot L i =
     (let n = length (stk L)
      in if 0 < i \<and> nat i \<le> n then Some (n - nat i)
         else if i < 0 \<and> nat (- i) \<le> n then Some (nat (- i) - 1) else None)"

definition lua_value_at :: "lua \<Rightarrow> int \<Rightarrow> lval option" where
  "lua_value_at L i = map_option (\<lambda>k. stk L ! k) (lua_slot L i)"

definition lua_push :: "lval \<Rightarrow> lua \<Rightarrow> lua option" where
  "lua_push v L = Some (L\<lparr>stk := v # stk L\<rparr>)"

definition lua_pop :: "nat \<Rightarrow> lua \<Rightarrow> lua option" where
  "lua_pop n L = (if length (stk L) < n then None else Some (L\<lparr>stk := drop n (stk L)\<rparr>))"

definition lua_getglobal :: "string \<Rightarrow> lua \<Rightarrow> lua option" where
  "lua_getglobal k L = lua_push (globals L k) L"

definition lua_pushvalue :: "int \<Rightarrow> lua \<Rightarrow> lua option" where
  "lua_pushvalue i L = Option.bind (lua_value_at L i) (\<lambda>v. lua_push v L)"

definition lua_newtable :: "lua \<Rightarrow> lua option" where
  "lua_newtable L =
     Some (L\<lparr>stk := VTab (fresh L) # stk L, tables := (tables L)(fresh L := (\<lambda>_. VNil)), fresh := Suc (fresh L)\<rparr>)"

definition lua_newuserdata :: "userdata \<Rightarrow> lua \<Rightarrow> lua option" where
  "lua_newuserdata u L =
     Some (L\<lparr>stk := VUser (fresh L) # stk L, users := (users L)(fresh L \<mapsto> (u, VNil)), fresh := Suc (fresh L)\<rparr>)"

text \<open>The table at an index; anything else cannot be indexed.\<close>

definition lua_table_at :: "lua \<Rightarrow> int \<Rightarrow> nat option" where
  "lua_table_at L i = (case lua_value_at L i of Some (VTab t) \<Rightarrow> Some t | _ \<Rightarrow> None)"

definition set_table :: "nat \<Rightarrow> lval \<Rightarrow> lval \<Rightarrow> lua \<Rightarrow> lua" where
  "set_table t k v L = L\<lparr>tables := (tables L)(t := (tables L t)(k := v))\<rparr>"

definition lua_getfield :: "int \<Rightarrow> string \<Rightarrow> lua \<Rightarrow> lua option" where
  "lua_getfield i k L = Option.bind (lua_table_at L i) (\<lambda>t. lua_push (tables L t (VStr k)) L)"

definition lua_setfield :: "int \<Rightarrow> string \<Rightarrow> lua \<Rightarrow> lua option" where
  "lua_setfield i k L = do {
     t \<leftarrow> lua_table_at L i;
     v \<leftarrow> lua_value_at L (-1);
     lua_pop 1 (set_table t (VStr k) v L)
   }"

text \<open>\<open>lua_settable\<close> and \<open>lua_rawset\<close>: the value on the top, the key below it. \<open>lua_rawseti\<close>: only the value.\<close>

definition lua_rawset :: "int \<Rightarrow> lua \<Rightarrow> lua option" where
  "lua_rawset i L = do {
     t \<leftarrow> lua_table_at L i;
     v \<leftarrow> lua_value_at L (-1);
     k \<leftarrow> lua_value_at L (-2);
     if k = VNil then None else lua_pop 2 (set_table t k v L)
   }"

definition lua_rawseti :: "int \<Rightarrow> int \<Rightarrow> lua \<Rightarrow> lua option" where
  "lua_rawseti i n L = do {
     t \<leftarrow> lua_table_at L i;
     v \<leftarrow> lua_value_at L (-1);
     lua_pop 1 (set_table t (VNum (of_int n)) v L)
   }"

definition luaL_getmetatable :: "string \<Rightarrow> lua \<Rightarrow> lua option" where
  "luaL_getmetatable name L = lua_push (registry L name) L"

text \<open>The metatable of the userdata at an index; it is taken from the top.\<close>

definition lua_setmetatable :: "int \<Rightarrow> lua \<Rightarrow> lua option" where
  "lua_setmetatable i L = do {
     mt \<leftarrow> lua_value_at L (-1);
     (case lua_value_at L i of
        Some (VUser n) \<Rightarrow> lua_pop 1 (L\<lparr>users := (users L)(n := map_option (\<lambda>(u, _). (u, mt)) (users L n))\<rparr>)
      | _ \<Rightarrow> None)
   }"

definition lua_isfunction :: "lua \<Rightarrow> int \<Rightarrow> bool" where
  "lua_isfunction L i = (case lua_value_at L i of Some (VFun _) \<Rightarrow> True | Some (VCFun _) \<Rightarrow> True | _ \<Rightarrow> False)"

text \<open>
  A call: the function lies below its arguments; all are taken from the stack, and the results are put there, cut or filled
  with nil to the number asked for. The called function has a stack of its own and cannot reach that of its caller.
\<close>

type_synonym called = "lval \<Rightarrow> lval list \<Rightarrow> lua \<Rightarrow> (lval list \<times> lua) option"

definition adjusted :: "nat \<Rightarrow> lval list \<Rightarrow> lval list" where
  "adjusted n rs = take n (rs @ replicate n VNil)"

definition lua_call :: "called \<Rightarrow> nat \<Rightarrow> nat \<Rightarrow> lua \<Rightarrow> lua option" where
  "lua_call F nargs nres L =
     (if length (stk L) \<le> nargs then None
      else map_option (\<lambda>(rs, L'). L'\<lparr>stk := rev (adjusted nres rs) @ drop (Suc nargs) (stk L)\<rparr>)
             (F (stk L ! nargs) (rev (take nargs (stk L))) (L\<lparr>stk := []\<rparr>)))"

section \<open>Setting up a state\<close>

text \<open>The value of a table field: \<open>NULL\<close>, a C function, a pointer to a 64-bit integer, read as signed, or a string.\<close>

datatype field_value = FNull | FFunction string | FNumber int | FString string

definition field_lval :: "field_value \<Rightarrow> lval" where
  "field_lval f = (case f of FNull \<Rightarrow> VNil | FFunction g \<Rightarrow> VCFun g | FNumber n \<Rightarrow> VNum (of_int (as_int64 n)) | FString s \<Rightarrow> VStr s)"

fun set_fields :: "int \<Rightarrow> (string \<times> field_value) list \<Rightarrow> lua \<Rightarrow> lua option" where
  "set_fields i [] L = Some L"
| "set_fields i ((k, f) # fs) L = lua_push (field_lval f) L \<bind> lua_setfield i k \<bind> set_fields i fs"

text \<open>\<open>luaL_newmetatable\<close> and \<open>luaL_register\<close>: the new metatable stays on the stack.\<close>

fun register_all :: "nat \<Rightarrow> (string \<times> string) list \<Rightarrow> lua \<Rightarrow> lua" where
  "register_all t [] L = L"
| "register_all t ((k, f) # fs) L = register_all t fs (set_table t (VStr k) (VCFun f) L)"

definition new_metatable :: "string \<Rightarrow> (string \<times> string) list \<Rightarrow> lua \<Rightarrow> lua option" where
  "new_metatable name lib L = do {
     L1 \<leftarrow> lua_newtable L;
     Some (register_all (fresh L) lib (L1\<lparr>registry := (registry L1)(name := VTab (fresh L))\<rparr>))
   }"

definition addrlib :: "(string \<times> string) list" where
  "addrlib = [(''__tostring'', ''script_addr_tostring''), (''__gc'', ''script_addr_gc'')]"

definition statslib :: "(string \<times> string) list" where
  "statslib = [(''__index'', ''script_stats_get''), (''__len'', ''script_stats_len'')]"

definition threadlib :: "(string \<times> string) list" where
  "threadlib = [(''__index'', ''script_thread_index''), (''__newindex'', ''script_thread_newindex'')]"

definition push_opt :: "string option \<Rightarrow> lua \<Rightarrow> lua option" where
  "push_opt s = lua_push (case s of None \<Rightarrow> VNil | Some x \<Rightarrow> VStr x)"

fun set_headers :: "string list \<Rightarrow> lua \<Rightarrow> lua option" where
  "set_headers [] L = Some L"
| "set_headers (h # hs) L =
     (case header_argument h of
        None \<Rightarrow> set_headers hs L
      | Some (k, v) \<Rightarrow> lua_push (VStr k) L \<bind> lua_push (VStr v) \<bind> lua_rawset 5 \<bind> set_headers hs)"

text \<open>
  \<open>booted\<close> is the new state after \<open>wrk = require "wrk"\<close>, with an empty stack. \<open>run_file\<close> is the run of the script's file: the
  values that it returns, or the message of its error, are left on the stack.
\<close>

definition wrk_fields :: "string \<Rightarrow> (string \<times> field_value) list" where
  "wrk_fields path = [(''lookup'', FFunction ''script_wrk_lookup''), (''connect'', FFunction ''script_wrk_connect''), (''path'', FString path)]"

definition script_create_wrk :: "string \<Rightarrow> string list \<Rightarrow> lua \<Rightarrow> lua option" where
  "script_create_wrk url hs booted = do {
     L1 \<leftarrow> new_metatable ''wrk.addr'' addrlib booted \<bind> new_metatable ''wrk.stats'' statslib \<bind> new_metatable ''wrk.thread'' threadlib;
     (_, parts) \<leftarrow> script_parse_url url no_parts;
     let path = (if has_field parts UF_PATH then drop (unat (field_off parts UF_PATH)) url else ''/'');
     lua_getglobal ''wrk'' L1
       \<bind> push_opt (push_url_part url parts UF_SCHEMA) \<bind> lua_setfield 4 ''scheme''
       \<bind> push_opt (push_url_part url parts UF_HOST) \<bind> lua_setfield 4 ''host''
       \<bind> push_opt (push_url_part url parts UF_PORT) \<bind> lua_setfield 4 ''port''
       \<bind> set_fields 4 (wrk_fields path)
       \<bind> lua_getfield 4 ''headers'' \<bind> set_headers hs \<bind> lua_pop 5
   }"

definition script_create_state ::
  "(lua \<Rightarrow> lval list \<times> lua) option \<Rightarrow> string \<Rightarrow> string list \<Rightarrow> lua \<Rightarrow> lua option" where
  "script_create_state run_file url hs booted = do {
     L \<leftarrow> script_create_wrk url hs booted;
     (case run_file of
        None \<Rightarrow> Some L
      | Some run \<Rightarrow> (let (rs, L') = run (L\<lparr>stk := []\<rparr>) in Some (L'\<lparr>stk := rev rs @ stk L\<rparr>)))
   }"

section \<open>Calling the script\<close>

definition script_is_function :: "string \<Rightarrow> lua \<Rightarrow> (bool \<times> lua) option" where
  "script_is_function name L = do {
     L1 \<leftarrow> lua_getglobal name L;
     L2 \<leftarrow> lua_pop 1 L1;
     Some (lua_isfunction L1 (-1), L2)
   }"

definition script_is_static :: "lua \<Rightarrow> (bool \<times> lua) option" where
  "script_is_static L = map_option (apfst Not) (script_is_function ''request'' L)"

definition script_want_response :: "lua \<Rightarrow> (bool \<times> lua) option" where
  "script_want_response L = script_is_function ''response'' L"

definition script_has_done :: "lua \<Rightarrow> (bool \<times> lua) option" where
  "script_has_done L = script_is_function ''done'' L"

text \<open>\<open>size_of\<close> is the length operator of Lua on a table.\<close>

definition script_resolve :: "called \<Rightarrow> ((lval \<Rightarrow> lval) \<Rightarrow> nat) \<Rightarrow> string \<Rightarrow> string \<Rightarrow> lua \<Rightarrow> (bool \<times> lua) option" where
  "script_resolve F size_of host service L = do {
     L1 \<leftarrow> lua_getglobal ''wrk'' L \<bind> lua_getfield (-1) ''resolve'' \<bind> lua_push (VStr host) \<bind> lua_push (VStr service)
       \<bind> lua_call F 2 0 \<bind> lua_getfield (-1) ''addrs'';
     t \<leftarrow> lua_table_at L1 (-1);
     L2 \<leftarrow> lua_pop 2 L1;
     Some (0 < size_of (tables L1 t), L2)
   }"

definition script_push_thread :: "nat \<Rightarrow> lua \<Rightarrow> lua option" where
  "script_push_thread t L = lua_newuserdata (UThread t) L \<bind> luaL_getmetatable ''wrk.thread'' \<bind> lua_setmetatable (-2)"

fun push_arguments :: "int \<Rightarrow> string list \<Rightarrow> lua \<Rightarrow> lua option" where
  "push_arguments i [] L = Some L"
| "push_arguments i (a # as) L = lua_push (VStr a) L \<bind> lua_rawseti (-2) i \<bind> push_arguments (i + 1) as"

text \<open>
  \<open>setup\<close> is called in the state of \<open>main\<close> and may change the state \<open>A\<close> of the thread through the thread that it is given:
  \<open>F2\<close> takes and returns both.
\<close>

type_synonym called2 = "lval \<Rightarrow> lval list \<Rightarrow> lua \<times> lua \<Rightarrow> (lval list \<times> lua \<times> lua) option"

definition call_setup :: "called2 \<Rightarrow> lua \<times> lua \<Rightarrow> (lua \<times> lua) option" where
  "call_setup F2 s =
     (let (A, B) = s
      in if length (stk B) \<le> 1 then None
         else map_option (\<lambda>(rs, A', B'). (A', B'\<lparr>stk := drop 2 (stk B)\<rparr>)) (F2 (stk B ! 1) [stk B ! 0] (A, B\<lparr>stk := []\<rparr>)))"

definition script_init :: "called2 \<Rightarrow> called \<Rightarrow> nat \<Rightarrow> string list \<Rightarrow> lua \<times> lua \<Rightarrow> (lua \<times> lua) option" where
  "script_init F2 F t args s = do {
     A1 \<leftarrow> lua_getglobal ''wrk'' (fst s) \<bind> script_push_thread t \<bind> lua_setfield (-2) ''thread'';
     B1 \<leftarrow> lua_getglobal ''wrk'' (snd s) \<bind> lua_getfield (-1) ''setup'' \<bind> script_push_thread t;
     (A2, B2) \<leftarrow> call_setup F2 (A1, B1);
     B3 \<leftarrow> lua_pop 1 B2;
     A3 \<leftarrow> lua_getfield (-1) ''init'' A2 \<bind> lua_newtable \<bind> push_arguments 0 args \<bind> lua_call F 1 0 \<bind> lua_pop 1;
     Some (A3, B3)
   }"

text \<open>\<open>number_text\<close> is how Lua writes a number; \<open>lua_tolstring\<close> is \<open>NULL\<close> for other values, which \<open>memcpy\<close> cannot read.\<close>

definition lua_tolstring :: "(real \<Rightarrow> string) \<Rightarrow> lval \<Rightarrow> string option" where
  "lua_tolstring number_text v = (case v of VStr s \<Rightarrow> Some s | VNum n \<Rightarrow> Some (number_text n) | _ \<Rightarrow> None)"

definition script_request :: "called \<Rightarrow> (real \<Rightarrow> string) \<Rightarrow> lua \<Rightarrow> (string \<times> lua) option" where
  "script_request F number_text L = do {
     L1 \<leftarrow> lua_getglobal ''request'' L;
     (n, L2) \<leftarrow> (if lua_isfunction L1 (-1) then Some (1, L1)
       else map_option (Pair 3) (lua_getglobal ''wrk'' L1 \<bind> lua_getfield (-1) ''request''));
     L3 \<leftarrow> lua_call F 0 1 L2;
     text \<leftarrow> lua_value_at L3 (-1) \<bind> lua_tolstring number_text;
     map_option (Pair text) (lua_pop n L3)
   }"

fun raw_headers :: "(string \<times> string) list \<Rightarrow> lua \<Rightarrow> lua option" where
  "raw_headers [] L = Some L"
| "raw_headers ((k, v) # hs) L = lua_push (VStr k) L \<bind> lua_push (VStr v) \<bind> lua_rawset (-3) \<bind> raw_headers hs"

definition call_response :: "called \<Rightarrow> int \<Rightarrow> (string \<times> string) list \<Rightarrow> string \<Rightarrow> lua \<Rightarrow> lua option" where
  "call_response F rc hs txt L =
     lua_getglobal ''response'' L \<bind> lua_push (VNum (of_int rc)) \<bind> lua_newtable \<bind> raw_headers hs
       \<bind> lua_push (VStr txt) \<bind> lua_call F 3 0"

section \<open>The report\<close>

definition script_summary :: "int \<Rightarrow> int \<Rightarrow> int \<Rightarrow> lua \<Rightarrow> lua option" where
  "script_summary duration requests_made bytes_read L =
     lua_newtable L \<bind> set_fields 1
       [(''duration'', FNumber duration), (''requests'', FNumber requests_made), (''bytes'', FNumber bytes_read)]"

text \<open>The counts of errors: of connecting, reading, writing, of status codes and of timeouts.\<close>

definition script_errors :: "int \<times> int \<times> int \<times> int \<times> int \<Rightarrow> lua \<Rightarrow> lua option" where
  "script_errors es L =
     (let (c, r, w, s, t) = es
      in lua_newtable L \<bind> set_fields 2
           [(''connect'', FNumber c), (''read'', FNumber r), (''write'', FNumber w), (''status'', FNumber s), (''timeout'', FNumber t)]
         \<bind> lua_setfield 1 ''errors'')"

definition script_done :: "called \<Rightarrow> nat \<Rightarrow> nat \<Rightarrow> lua \<Rightarrow> lua option" where
  "script_done F latency reqs L =
     lua_getglobal ''done'' L \<bind> lua_pushvalue 1
       \<bind> lua_newuserdata (UStats latency) \<bind> luaL_getmetatable ''wrk.stats'' \<bind> lua_setmetatable 4
       \<bind> lua_newuserdata (UStats reqs) \<bind> luaL_getmetatable ''wrk.stats'' \<bind> lua_setmetatable 5
       \<bind> lua_call F 3 0 \<bind> lua_pop 1"

text \<open>The end of \<open>main\<close>.\<close>

definition report :: "called \<Rightarrow> int \<Rightarrow> int \<Rightarrow> int \<Rightarrow> int \<times> int \<times> int \<times> int \<times> int \<Rightarrow> nat \<Rightarrow> nat \<Rightarrow> lua \<Rightarrow> lua option" where
  "report F runtime_us complete_requests bytes_read es latency reqs L = do {
     (has, L1) \<leftarrow> script_has_done L;
     if has then script_summary runtime_us complete_requests bytes_read L1 \<bind> script_errors es \<bind> script_done F latency reqs
     else Some L1
   }"

lemmas lua_ops = lua_push_def lua_pop_def lua_getglobal_def lua_pushvalue_def lua_newtable_def lua_newuserdata_def
  lua_getfield_def lua_setfield_def lua_rawset_def lua_rawseti_def luaL_getmetatable_def lua_setmetatable_def
  lua_table_at_def lua_value_at_def lua_slot_def Let_def

definition callable :: "lval \<Rightarrow> bool" where
  "callable v \<longleftrightarrow> (case v of VFun _ \<Rightarrow> True | VCFun _ \<Rightarrow> True | _ \<Rightarrow> False)"

lemma is_function_eq: "script_is_function name L = Some (callable (globals L name), L)"
  by (cases "globals L name") (simp_all add: script_is_function_def lua_ops lua_isfunction_def callable_def)

lemma summary_eq:
  assumes "stk L = []"
  shows "script_summary d r b L = Some (L\<lparr>stk := [VTab (fresh L)], fresh := Suc (fresh L),
    tables := (tables L)(fresh L := (\<lambda>_. VNil)(VStr ''duration'' := VNum (of_int (as_int64 d)),
      VStr ''requests'' := VNum (of_int (as_int64 r)), VStr ''bytes'' := VNum (of_int (as_int64 b))))\<rparr>)"
  using assms by (simp add: script_summary_def lua_ops field_lval_def set_table_def)

lemma errors_eq:
  assumes "stk L = [VTab k]" "k \<noteq> fresh L"
  shows "script_errors (c, r, w, s, t) L = Some (L\<lparr>fresh := Suc (fresh L),
    tables := (tables L)(fresh L := (\<lambda>_. VNil)(VStr ''connect'' := VNum (of_int (as_int64 c)),
      VStr ''read'' := VNum (of_int (as_int64 r)), VStr ''write'' := VNum (of_int (as_int64 w)),
      VStr ''status'' := VNum (of_int (as_int64 s)), VStr ''timeout'' := VNum (of_int (as_int64 t))),
      k := (tables L k)(VStr ''errors'' := VTab (fresh L)))\<rparr>)"
  using assms by (simp add: script_errors_def lua_ops field_lval_def set_table_def)

lemma done_eq:
  assumes "stk L = [v]"
  shows "script_done F latency reqs L =
    map_option (\<lambda>(rs, L'). L'\<lparr>stk := []\<rparr>)
      (F (globals L ''done'') [v, VUser (fresh L), VUser (Suc (fresh L))]
        (L\<lparr>fresh := Suc (Suc (fresh L)),
          users := (users L)(fresh L \<mapsto> (UStats latency, registry L ''wrk.stats''),
            Suc (fresh L) \<mapsto> (UStats reqs, registry L ''wrk.stats'')), stk := []\<rparr>))"
  using assms
  by (simp add: script_done_def lua_ops lua_call_def adjusted_def fun_upd_twist map_option_case split: option.splits)

text \<open>What \<open>done\<close> is called with.\<close>

definition summary_table :: "int \<Rightarrow> int \<Rightarrow> int \<Rightarrow> nat \<Rightarrow> lval \<Rightarrow> lval" where
  "summary_table d r b k = (\<lambda>_. VNil)(VStr ''duration'' := VNum (of_int d), VStr ''requests'' := VNum (of_int r),
     VStr ''bytes'' := VNum (of_int b), VStr ''errors'' := VTab k)"

definition errors_table :: "int \<times> int \<times> int \<times> int \<times> int \<Rightarrow> lval \<Rightarrow> lval" where
  "errors_table es = (let (c, r, w, s, t) = es
     in (\<lambda>_. VNil)(VStr ''connect'' := VNum (of_int c), VStr ''read'' := VNum (of_int r),
       VStr ''write'' := VNum (of_int w), VStr ''status'' := VNum (of_int s), VStr ''timeout'' := VNum (of_int t)))"

definition int64_count :: "int \<Rightarrow> bool" where
  "int64_count n \<longleftrightarrow> 0 \<le> n \<and> n < 2 ^ 63"



section \<open>The table \<open>wrk\<close>\<close>

lemma register_all_frame [simp]:
  "stk (register_all t fs L) = stk L" "globals (register_all t fs L) = globals L" "fresh (register_all t fs L) = fresh L"
  "registry (register_all t fs L) = registry L" "users (register_all t fs L) = users L"
  "k \<noteq> t \<Longrightarrow> tables (register_all t fs L) k = tables L k"
  by (induction t fs L rule: register_all.induct) (simp_all add: set_table_def)

lemma new_metatable_eq:
  "\<exists>L'. new_metatable name lib L = Some L' \<and> stk L' = VTab (fresh L) # stk L \<and> globals L' = globals L \<and>
    fresh L' = Suc (fresh L) \<and> (\<forall>k < fresh L. tables L' k = tables L k)"
  by (simp add: new_metatable_def lua_newtable_def)

text \<open>A table with some strings replaced.\<close>

definition override :: "(lval \<Rightarrow> lval) \<Rightarrow> (string \<rightharpoonup> string) \<Rightarrow> lval \<Rightarrow> lval" where
  "override f m v = (case v of VStr s \<Rightarrow> (case m s of Some x \<Rightarrow> VStr x | None \<Rightarrow> f v) | _ \<Rightarrow> f v)"

lemma lua_table_Cons: "lua_table ((k, v) # hs) = [k \<mapsto> v] ++ lua_table hs"
proof -
  have "foldl (\<lambda>t (k, v). t(k \<mapsto> v)) m hs = m ++ foldl (\<lambda>t (k, v). t(k \<mapsto> v)) Map.empty hs" for m :: "string \<rightharpoonup> string" and hs
    by (induction hs rule: rev_induct) (auto simp: map_add_def fun_eq_iff split: option.split)
  from this [of "[k \<mapsto> v]" hs] show ?thesis by (simp add: lua_table_def)
qed

lemma set_headers_eq:
  assumes "stk L = [VTab h, v4, v3, v2, v1]"
  shows "set_headers hs L = Some (L\<lparr>tables := (tables L)(h := override (tables L h) (lua_table (List.map_filter header_argument hs)))\<rparr>)"
  using assms
proof (induction hs arbitrary: L)
  case Nil
  have "override (tables L h) Map.empty = tables L h" by (auto simp: override_def fun_eq_iff split: lval.split)
  then show ?case by (simp add: lua_table_def)
next
  case (Cons x hs)
  show ?case
  proof (cases "header_argument x")
    case (Some kv)
    obtain k v where kv: "kv = (k, v)" by force
    let ?L = "set_table h (VStr k) (VStr v) L" and ?M = "lua_table (List.map_filter header_argument hs)"
    have "lua_push (VStr k) L \<bind> lua_push (VStr v) \<bind> lua_rawset 5 = Some ?L"
      using Cons.prems by (simp add: lua_ops set_table_def)
    moreover have "set_headers (x # hs) L = (lua_push (VStr k) L \<bind> lua_push (VStr v) \<bind> lua_rawset 5) \<bind> set_headers hs"
      by (simp add: Some kv)
    ultimately have "set_headers (x # hs) L = set_headers hs ?L" by simp
    also have "\<dots> = Some (?L\<lparr>tables := (tables ?L)(h := override (tables ?L h) ?M)\<rparr>)"
      by (rule Cons.IH) (use Cons.prems in \<open>simp add: set_table_def\<close>)
    also have "override (tables ?L h) ?M = override (tables L h) ([k \<mapsto> v] ++ ?M)"
      by (auto simp: override_def set_table_def fun_eq_iff map_add_def split: lval.split option.split)
    also have "?L\<lparr>tables := (tables ?L)(h := f)\<rparr> = L\<lparr>tables := (tables L)(h := f)\<rparr>" for f
      by (simp add: set_table_def)
    also have "[k \<mapsto> v] ++ ?M = lua_table (List.map_filter header_argument (x # hs))"
      unfolding lua_table_Cons [symmetric] by (simp add: Some kv map_filter_simps)
    finally show ?thesis .
  qed (use Cons in \<open>simp add: map_filter_simps\<close>)
qed

definition opt_lval :: "string option \<Rightarrow> lval" where
  "opt_lval s = (case s of None \<Rightarrow> VNil | Some x \<Rightarrow> VStr x)"

text \<open>The fields of the table \<open>wrk\<close>, as \<open>script_create\<close> leaves them.\<close>

definition wrk_entries :: "wrk_table \<Rightarrow> lval \<Rightarrow> (lval \<Rightarrow> lval) \<Rightarrow> lval \<Rightarrow> lval" where
  "wrk_entries t hdrs f = f(VStr ''scheme'' := opt_lval (wrk_scheme t), VStr ''host'' := opt_lval (wrk_host t),
     VStr ''port'' := opt_lval (wrk_port t), VStr ''lookup'' := VCFun ''script_wrk_lookup'',
     VStr ''connect'' := VCFun ''script_wrk_connect'', VStr ''path'' := VStr (wrk_path t), VStr ''headers'' := hdrs)"

lemma fill_wrk:
  assumes "stk L = [VTab c, VTab b, VTab a]" "globals L ''wrk'' = VTab w" "tables L w (VStr ''headers'') = VTab h" "h \<noteq> w"
  shows "(lua_getglobal ''wrk'' L \<bind> push_opt sc \<bind> lua_setfield 4 ''scheme'' \<bind> push_opt ho \<bind> lua_setfield 4 ''host''
       \<bind> push_opt po \<bind> lua_setfield 4 ''port'' \<bind> set_fields 4 (wrk_fields pa)
       \<bind> lua_getfield 4 ''headers'' \<bind> set_headers hs \<bind> lua_pop 5) =
    Some (L\<lparr>stk := [], tables := (tables L)(
      w := (tables L w)(VStr ''scheme'' := opt_lval sc, VStr ''host'' := opt_lval ho, VStr ''port'' := opt_lval po,
        VStr ''lookup'' := VCFun ''script_wrk_lookup'', VStr ''connect'' := VCFun ''script_wrk_connect'', VStr ''path'' := VStr pa),
      h := override (tables L h) (lua_table (List.map_filter header_argument hs)))\<rparr>)"
proof -
  let ?W = "(tables L w)(VStr ''scheme'' := opt_lval sc, VStr ''host'' := opt_lval ho, VStr ''port'' := opt_lval po,
        VStr ''lookup'' := VCFun ''script_wrk_lookup'', VStr ''connect'' := VCFun ''script_wrk_connect'', VStr ''path'' := VStr pa)"
  have "(lua_getglobal ''wrk'' L \<bind> push_opt sc \<bind> lua_setfield 4 ''scheme'' \<bind> push_opt ho \<bind> lua_setfield 4 ''host''
       \<bind> push_opt po \<bind> lua_setfield 4 ''port'' \<bind> set_fields 4 (wrk_fields pa) \<bind> lua_getfield 4 ''headers'') =
    Some (L\<lparr>stk := [VTab h, VTab w, VTab c, VTab b, VTab a], tables := (tables L)(w := ?W)\<rparr>)"
    using assms by (simp add: lua_ops push_opt_def opt_lval_def wrk_fields_def field_lval_def set_table_def)
  then show ?thesis using assms(4) by (simp add: set_headers_eq lua_ops)
qed


text \<open>C20: The machine of a new Lua state does what \<open>script_create\<close> promises: started on a state in which \<open>wrk\<close> is a table
  with a table of headers, the operations on the stack leave in \<open>wrk\<close> exactly the scheme, host, port and path of the URL and
  the two C functions, and in its headers those of the command line; nothing else that the script can see changes, the three
  metatables are registered, and the stack is empty again.\<close>

theorem wrk_table_created:
  assumes "script_create url hs = Some t" "stk booted = []"
    and "globals booted ''wrk'' = VTab w" "tables booted w (VStr ''headers'') = VTab h" "h \<noteq> w" "w < fresh booted" "h < fresh booted"
  shows "\<exists>L. script_create_state None url hs booted = Some L \<and> stk L = [] \<and> globals L = globals booted \<and>
    tables L w = wrk_entries t (VTab h) (tables booted w) \<and>
    tables L h = override (tables booted h) (wrk_headers t) \<and>
    (\<forall>k < fresh booted. k \<noteq> w \<and> k \<noteq> h \<longrightarrow> tables L k = tables booted k)"
proof -
  obtain ok parts where u: "script_parse_url url no_parts = Some (ok, parts)" and
    t: "t = \<lparr>wrk_scheme = push_url_part url parts UF_SCHEMA, wrk_host = push_url_part url parts UF_HOST,
      wrk_port = push_url_part url parts UF_PORT,
      wrk_path = (if has_field parts UF_PATH then drop (unat (field_off parts UF_PATH)) url else ''/''),
      wrk_headers = lua_table (List.map_filter header_argument hs)\<rparr>"
    using assms(1) by (auto simp: script_create_def)
  obtain A where A: "new_metatable ''wrk.addr'' addrlib booted = Some A" "stk A = [VTab (fresh booted)]" "globals A = globals booted"
    "fresh A = Suc (fresh booted)" "\<forall>k < fresh booted. tables A k = tables booted k"
    using new_metatable_eq [of "''wrk.addr''" addrlib booted] assms(2) by auto
  obtain B where B: "new_metatable ''wrk.stats'' statslib A = Some B" "stk B = [VTab (fresh A), VTab (fresh booted)]"
    "globals B = globals booted" "fresh B = Suc (fresh A)" "\<forall>k < fresh booted. tables B k = tables booted k"
    using new_metatable_eq [of "''wrk.stats''" statslib A] A by auto
  obtain C where C: "new_metatable ''wrk.thread'' threadlib B = Some C" "stk C = [VTab (fresh B), VTab (fresh A), VTab (fresh booted)]"
    "globals C = globals booted" "\<forall>k < fresh booted. tables C k = tables booted k"
    using new_metatable_eq [of "''wrk.thread''" threadlib B] A(4) B by auto
  have w: "globals C ''wrk'' = VTab w" "tables C w (VStr ''headers'') = VTab h" using assms(3-7) C by auto
  note fill = fill_wrk [OF C(2) w assms(5), of "wrk_scheme t" "wrk_host t" "wrk_port t" "wrk_path t" hs]
  define W where "W = (tables C w)(VStr ''scheme'' := opt_lval (wrk_scheme t), VStr ''host'' := opt_lval (wrk_host t),
    VStr ''port'' := opt_lval (wrk_port t), VStr ''lookup'' := VCFun ''script_wrk_lookup'',
    VStr ''connect'' := VCFun ''script_wrk_connect'', VStr ''path'' := VStr (wrk_path t))"
  define D where "D = C\<lparr>stk := [], tables := (tables C)(w := W,
    h := override (tables C h) (lua_table (List.map_filter header_argument hs)))\<rparr>"
  have "script_create_state None url hs booted = Some D"
    using fill [folded W_def, folded D_def] by (simp add: script_create_state_def script_create_wrk_def A(1) B(1) C(1) u t)
  moreover have "stk D = []" "globals D = globals booted" by (simp_all add: D_def C)
  moreover have "tables C w = tables booted w" "tables C h = tables booted h" using C(4) assms(6,7) by simp_all
  then have "tables D h = override (tables booted h) (wrk_headers t)" "tables D w = wrk_entries t (VTab h) (tables booted w)"
    using assms(4,5) by (simp add: D_def t, auto simp: D_def W_def wrk_entries_def fun_eq_iff)
  moreover have "\<forall>k < fresh booted. k \<noteq> w \<and> k \<noteq> h \<longrightarrow> tables D k = tables booted k" using C(4) by (simp add: D_def)
  ultimately show ?thesis by blast
qed


theorem wrk_table_created_witness:
  "\<exists>L. script_create_state None ''http://ngx:8080/a'' [''Accept: text'']
       \<lparr>stk = [], globals = (\<lambda>_. VNil)(''wrk'' := VTab 0), registry = (\<lambda>_. VNil),
        tables = (\<lambda>_ _. VNil)(0 := (\<lambda>_. VNil)(VStr ''headers'' := VTab 1)), users = Map.empty, fresh = 2\<rparr> = Some L \<and>
     stk L = [] \<and> tables L 0 (VStr ''host'') = VStr ''ngx'' \<and> tables L 1 (VStr ''Accept'') = VStr ''text''"
proof -
  let ?L = "\<lparr>stk = [], globals = (\<lambda>_. VNil)(''wrk'' := VTab 0), registry = (\<lambda>_. VNil),
    tables = (\<lambda>_ _. VNil)(0 := (\<lambda>_. VNil)(VStr ''headers'' := VTab 1)), users = Map.empty, fresh = 2\<rparr>"
  have "map_option (\<lambda>t. (wrk_host t, wrk_headers t ''Accept'')) (script_create ''http://ngx:8080/a'' [''Accept: text'']) =
      Some (Some ''ngx'', Some ''text'')"
    by code_simp
  then obtain t where t: "script_create ''http://ngx:8080/a'' [''Accept: text''] = Some t" "wrk_host t = Some ''ngx''"
    "wrk_headers t ''Accept'' = Some ''text''"
    by auto
  show ?thesis using wrk_table_created [OF t(1), of ?L 0 1] t(2,3) by (auto simp: wrk_entries_def opt_lval_def override_def)
qed

section \<open>Calls of the script's functions\<close>

text \<open>The function that makes requests: a global one, or that of \<open>wrk\<close>.\<close>

definition request_function :: "lua \<Rightarrow> lval option" where
  "request_function L =
     (if callable (globals L ''request'') then Some (globals L ''request'')
      else case globals L ''wrk'' of VTab w \<Rightarrow> Some (tables L w (VStr ''request'')) | _ \<Rightarrow> None)"

definition first_result :: "lval list \<Rightarrow> lval" where
  "first_result rs = (case rs of [] \<Rightarrow> VNil | r # _ \<Rightarrow> r)"

lemma call_one:
  assumes "stk L = f # below"
  shows "lua_call F 0 1 L = map_option (\<lambda>(rs, L'). L'\<lparr>stk := first_result rs # below\<rparr>) (F f [] (L\<lparr>stk := []\<rparr>))"
proof -
  have "adjusted 1 rs = [first_result rs]" for rs by (cases rs) (simp_all add: adjusted_def first_result_def)
  then show ?thesis using assms by (simp add: lua_call_def)
qed

lemma call_none:
  assumes "stk L = rev args @ f # below"
  shows "lua_call F (length args) 0 L = map_option (\<lambda>(rs, L'). L'\<lparr>stk := below\<rparr>) (F f args (L\<lparr>stk := []\<rparr>))"
  using assms by (simp add: lua_call_def adjusted_def nth_append)

lemma request_eq:
  "script_request F number_text L = do {
     f \<leftarrow> request_function L;
     (rs, L') \<leftarrow> F f [] (L\<lparr>stk := []\<rparr>);
     txt \<leftarrow> lua_tolstring number_text (first_result rs);
     Some (txt, L'\<lparr>stk := stk L\<rparr>)
   }"
proof (cases "callable (globals L ''request'')")
  case True
  let ?L = "L\<lparr>stk := globals L ''request'' # stk L\<rparr>"
  have "lua_isfunction ?L (-1)" using True by (simp add: lua_ops lua_isfunction_def callable_def)
  then show ?thesis using call_one [of ?L "globals L ''request''" "stk L" F] True
    by (cases "F (globals L ''request'') [] (L\<lparr>stk := []\<rparr>)") (auto simp: script_request_def request_function_def lua_ops)
next
  case False
  let ?L = "L\<lparr>stk := globals L ''request'' # stk L\<rparr>"
  have nf: "\<not> lua_isfunction ?L (-1)" using False by (simp add: lua_ops lua_isfunction_def callable_def split: lval.split)
  show ?thesis
  proof (cases "globals L ''wrk''")
    case (VTab w)
    let ?f = "tables L w (VStr ''request'')"
    let ?M = "L\<lparr>stk := ?f # VTab w # globals L ''request'' # stk L\<rparr>"
    show ?thesis using nf VTab call_one [of ?M ?f "VTab w # globals L ''request'' # stk L" F] False
      by (cases "F ?f [] (L\<lparr>stk := []\<rparr>)") (auto simp: script_request_def request_function_def lua_ops)
  qed (use nf False in \<open>simp_all add: script_request_def request_function_def lua_ops\<close>)
qed

text \<open>\<open>script_resolve\<close> and \<open>script_init\<close>.\<close>

lemma resolve_eq:
  assumes "globals L ''wrk'' = VTab w"
  shows "script_resolve F size_of host service L = do {
     (rs, L') \<leftarrow> F (tables L w (VStr ''resolve'')) [VStr host, VStr service] (L\<lparr>stk := []\<rparr>);
     (case tables L' w (VStr ''addrs'') of
        VTab t \<Rightarrow> Some (0 < size_of (tables L' t), L'\<lparr>stk := stk L\<rparr>)
      | _ \<Rightarrow> None)
   }"
proof -
  let ?f = "tables L w (VStr ''resolve'')"
  let ?M = "L\<lparr>stk := VStr service # VStr host # ?f # VTab w # stk L\<rparr>"
  show ?thesis
    using assms call_none [of ?M "[VStr host, VStr service]" ?f "VTab w # stk L" F]
    by (cases "F ?f [VStr host, VStr service] (L\<lparr>stk := []\<rparr>)")
      (auto simp: script_resolve_def lua_ops numeral_2_eq_2 split: lval.split)
qed


text \<open>The state in which \<open>setup\<close> is called, and what follows it.\<close>

definition with_thread :: "nat \<Rightarrow> nat \<Rightarrow> lua \<Rightarrow> lua" where
  "with_thread t w A = A\<lparr>stk := VTab w # stk A, fresh := Suc (fresh A),
     users := (users A)(fresh A \<mapsto> (UThread t, registry A ''wrk.thread'')),
     tables := (tables A)(w := (tables A w)(VStr ''thread'' := VUser (fresh A)))\<rparr>"

lemma init_eq:
  assumes "globals A ''wrk'' = VTab w" "globals B ''wrk'' = VTab w'"
  shows "script_init F2 F t args (A, B) = do {
     (rs, A2, B2) \<leftarrow> F2 (tables B w' (VStr ''setup'')) [VUser (fresh B)]
       (with_thread t w A, B\<lparr>fresh := Suc (fresh B), users := (users B)(fresh B \<mapsto> (UThread t, registry B ''wrk.thread'')), stk := []\<rparr>);
     A3 \<leftarrow> lua_getfield (-1) ''init'' A2 \<bind> lua_newtable \<bind> push_arguments 0 args \<bind> lua_call F 1 0 \<bind> lua_pop 1;
     Some (A3, B2\<lparr>stk := stk B\<rparr>)
   }"
proof -
  let ?f = "tables B w' (VStr ''setup'')"
  let ?B = "B\<lparr>fresh := Suc (fresh B), users := (users B)(fresh B \<mapsto> (UThread t, registry B ''wrk.thread'')), stk := []\<rparr>"
  have A: "lua_getglobal ''wrk'' A \<bind> script_push_thread t \<bind> lua_setfield (-2) ''thread'' = Some (with_thread t w A)"
    using assms(1) by (simp add: script_push_thread_def lua_ops set_table_def with_thread_def)
  have B: "lua_getglobal ''wrk'' B \<bind> lua_getfield (-1) ''setup'' \<bind> script_push_thread t =
      Some (?B\<lparr>stk := VUser (fresh B) # ?f # VTab w' # stk B\<rparr>)"
    using assms(2) by (simp add: script_push_thread_def lua_ops)
  show ?thesis
    unfolding script_init_def fst_conv snd_conv A B
    by (cases "F2 ?f [VUser (fresh B)] (with_thread t w A, ?B)") (auto simp: call_setup_def lua_pop_def)
qed

text \<open>The arguments are numbered from 0 in a new table.\<close>

fun argument_table :: "int \<Rightarrow> string list \<Rightarrow> (lval \<Rightarrow> lval) \<Rightarrow> lval \<Rightarrow> lval" where
  "argument_table i [] f = f"
| "argument_table i (a # as) f = argument_table (i + 1) as (f(VNum (of_int i) := VStr a))"

lemma push_arguments_eq:
  assumes "stk L = VTab k # below"
  shows "push_arguments i as L = Some (L\<lparr>tables := (tables L)(k := argument_table i as (tables L k))\<rparr>)"
  using assms
proof (induction as arbitrary: i L)
  case (Cons a as)
  let ?L = "set_table k (VNum (of_int i)) (VStr a) L"
  have "push_arguments i (a # as) L = push_arguments (i + 1) as ?L"
    using Cons.prems by (cases L) (simp add: lua_ops set_table_def)
  also have "\<dots> = Some (?L\<lparr>tables := (tables ?L)(k := argument_table (i + 1) as (tables ?L k))\<rparr>)"
    by (rule Cons.IH) (use Cons.prems in \<open>simp add: set_table_def\<close>)
  also have "?L\<lparr>tables := (tables ?L)(k := f)\<rparr> = L\<lparr>tables := (tables L)(k := f)\<rparr>" for f by (simp add: set_table_def)
  also have "argument_table (i + 1) as (tables ?L k) = argument_table i (a # as) (tables L k)" by (simp add: set_table_def)
  finally show ?case .
qed simp

text \<open>The call of \<open>init\<close> on a stack that has a table on top.\<close>

lemma init_call:
  assumes "stk L = VTab w # below" "w < fresh L"
  shows "(lua_getfield (-1) ''init'' L \<bind> lua_newtable \<bind> push_arguments 0 args \<bind> lua_call F 1 0 \<bind> lua_pop 1) =
    map_option (\<lambda>(rs, L'). L'\<lparr>stk := below\<rparr>)
      (F (tables L w (VStr ''init'')) [VTab (fresh L)]
        (L\<lparr>fresh := Suc (fresh L), tables := (tables L)(fresh L := argument_table 0 args (\<lambda>_. VNil)), stk := []\<rparr>))"
proof -
  let ?f = "tables L w (VStr ''init'')"
  let ?M = "L\<lparr>fresh := Suc (fresh L), tables := (tables L)(fresh L := argument_table 0 args (\<lambda>_. VNil)),
    stk := VTab (fresh L) # ?f # stk L\<rparr>"
  have "(lua_getfield (-1) ''init'' L \<bind> lua_newtable \<bind> push_arguments 0 args) = Some ?M"
    using assms by (simp add: lua_ops push_arguments_eq)
  moreover have "lua_call F 1 0 ?M = map_option (\<lambda>(rs, L'). L'\<lparr>stk := stk L\<rparr>) (F ?f [VTab (fresh L)] (?M\<lparr>stk := []\<rparr>))"
    using call_none [of ?M "[VTab (fresh L)]" ?f "stk L" F] by simp
  ultimately have "(lua_getfield (-1) ''init'' L \<bind> lua_newtable \<bind> push_arguments 0 args \<bind> lua_call F 1 0) =
      map_option (\<lambda>(rs, L'). L'\<lparr>stk := stk L\<rparr>) (F ?f [VTab (fresh L)] (?M\<lparr>stk := []\<rparr>))"
    by (metis bind.bind_lunit bind_assoc)
  then have "(lua_getfield (-1) ''init'' L \<bind> lua_newtable \<bind> push_arguments 0 args \<bind> lua_call F 1 0 \<bind> lua_pop 1) =
      map_option (\<lambda>(rs, L'). L'\<lparr>stk := stk L\<rparr>) (F ?f [VTab (fresh L)] (?M\<lparr>stk := []\<rparr>)) \<bind> lua_pop 1"
    by (metis bind_assoc)
  then show ?thesis using assms(1)
    by (cases "F ?f [VTab (fresh L)] (?M\<lparr>stk := []\<rparr>)") (auto simp: lua_pop_def)
qed


text \<open>The calls keep the stacks: making a request, resolving the host, and the setup of a thread (when \<open>setup\<close> itself
  keeps the stack of the thread's state) leave the stacks as they found them, whatever the script's functions do; the text
  of the request is the first result of the function \<open>request\<close>, or of \<open>wrk.request\<close> if there is none, \<open>wrk.resolve\<close> gets the host
  and the service, and \<open>init\<close> gets a table of the arguments, numbered from 0. But when \<open>setup\<close> returns with the stack
  of the thread's state empty, the setup fails.\<close>

theorem script_calls_keep_stack:
  assumes "globals A ''wrk'' = VTab w" "globals B ''wrk'' = VTab w'"
    and "F2 (tables B w' (VStr ''setup'')) [VUser (fresh B)]
       (with_thread t w A, B\<lparr>fresh := Suc (fresh B), users := (users B)(fresh B \<mapsto> (UThread t, registry B ''wrk.thread'')), stk := []\<rparr>)
      = Some (rs, A2, B2)" "w < fresh A2"
  shows "script_request F number_text A = do {
       f \<leftarrow> request_function A;
       (rs, L') \<leftarrow> F f [] (A\<lparr>stk := []\<rparr>);
       txt \<leftarrow> lua_tolstring number_text (first_result rs);
       Some (txt, L'\<lparr>stk := stk A\<rparr>)
     } \<and>
    script_resolve F size_of host service B = do {
       (rs, L') \<leftarrow> F (tables B w' (VStr ''resolve'')) [VStr host, VStr service] (B\<lparr>stk := []\<rparr>);
       (case tables L' w' (VStr ''addrs'') of
          VTab t \<Rightarrow> Some (0 < size_of (tables L' t), L'\<lparr>stk := stk B\<rparr>)
        | _ \<Rightarrow> None)
     } \<and>
    (stk A2 = stk (with_thread t w A) \<longrightarrow>
      script_init F2 F t args (A, B) =
      map_option (\<lambda>(rs', A3). (A3\<lparr>stk := stk A\<rparr>, B2\<lparr>stk := stk B\<rparr>))
        (F (tables A2 w (VStr ''init'')) [VTab (fresh A2)]
          (A2\<lparr>fresh := Suc (fresh A2), tables := (tables A2)(fresh A2 := argument_table 0 args (\<lambda>_. VNil)), stk := []\<rparr>))) \<and>
    (stk A2 = [] \<longrightarrow> script_init F2 F t args (A, B) = None)"
proof -
  have init: "script_init F2 F t args (A, B) = do {
      A3 \<leftarrow> lua_getfield (-1) ''init'' A2 \<bind> lua_newtable \<bind> push_arguments 0 args \<bind> lua_call F 1 0 \<bind> lua_pop 1;
      Some (A3, B2\<lparr>stk := stk B\<rparr>) }"
    using init_eq [OF assms(1,2), of F2 F t args] assms(3) by simp
  have "script_init F2 F t args (A, B) = None" if "stk A2 = []"
    using that by (simp add: init lua_ops)
  moreover have "script_init F2 F t args (A, B) =
      map_option (\<lambda>(rs', A3). (A3\<lparr>stk := stk A\<rparr>, B2\<lparr>stk := stk B\<rparr>))
        (F (tables A2 w (VStr ''init'')) [VTab (fresh A2)]
          (A2\<lparr>fresh := Suc (fresh A2), tables := (tables A2)(fresh A2 := argument_table 0 args (\<lambda>_. VNil)), stk := []\<rparr>))"
    if "stk A2 = stk (with_thread t w A)"
  proof -
    have "stk A2 = VTab w # stk A" using that by (simp add: with_thread_def)
    from init_call [OF this assms(4), of args F] show ?thesis
      unfolding init by (simp add: map_option_case split: option.split)
  qed
  ultimately show ?thesis using request_eq [of F number_text A] resolve_eq [OF assms(2), of F size_of host service] by blast
qed

section \<open>Values left on the stack\<close>

lemma bottom_value: "stk L \<noteq> [] \<Longrightarrow> lua_value_at L 1 = Some (last (stk L))"
  by (simp add: lua_value_at_def lua_slot_def Let_def last_conv_nth Suc_le_eq)

lemma summary_needs_table:
  assumes "stk L \<noteq> []" "\<forall>t. last (stk L) \<noteq> VTab t"
  shows "script_summary d r b L = None"
proof -
  let ?L = "L\<lparr>tables := (tables L)(fresh L := (\<lambda>_. VNil)), fresh := Suc (fresh L),
    stk := VNum (of_int (as_int64 d)) # VTab (fresh L) # stk L\<rparr>"
  have "lua_table_at ?L 1 = None"
    using bottom_value [of ?L] assms by (simp add: lua_table_at_def split: lval.split)
  then show ?thesis
    by (simp add: script_summary_def lua_newtable_def lua_push_def field_lval_def lua_setfield_def)
qed

text \<open>C34: The report finds its tables from the bottom of the stack, but \<open>script_create\<close> leaves there what the script's file
  returns, or the message of its error: then a script with a function \<open>done\<close> is accepted, and the report at the end of the run
  fails with a Lua error (unless the value is itself a table).\<close>

theorem returned_value_breaks_report:
  assumes "script_create_state None url hs booted = Some L0" "stk L0 = []"
    and "run L0 = (v # vs, L1)" "\<forall>t. v \<noteq> VTab t" "callable (globals L1 ''done'')"
  shows "\<exists>L. script_create_state (Some run) url hs booted = Some L \<and> globals L = globals L1 \<and>
    script_has_done L = Some (True, L) \<and> report F d r b es latency reqs L = None"
proof -
  have "L0\<lparr>stk := []\<rparr> = L0" using assms(2) by (cases L0) simp
  then have r: "run (L0\<lparr>stk := []\<rparr>) = (v # vs, L1)" using assms(3) by (simp only:)
  have c: "script_create_state (Some run) url hs booted = Some (L1\<lparr>stk := rev (v # vs)\<rparr>)"
    using assms(1,2) r by (simp add: script_create_state_def)
  have "script_summary d r b (L1\<lparr>stk := rev (v # vs)\<rparr>) = None"
    by (rule summary_needs_table) (use assms(4) in simp_all)
  then show ?thesis using c assms(5) by (simp add: report_def script_has_done_def is_function_eq)
qed


text \<open>A script whose file ends in \<open>return 1\<close>.\<close>

theorem returned_value_breaks_report_witness:
  "\<exists>L. script_create_state (Some (\<lambda>L. ([VNum 1], L\<lparr>globals := (globals L)(''done'' := VFun 7)\<rparr>))) ''http://ngx/'' []
       \<lparr>stk = [], globals = (\<lambda>_. VNil)(''wrk'' := VTab 0), registry = (\<lambda>_. VNil),
        tables = (\<lambda>_ _. VNil)(0 := (\<lambda>_. VNil)(VStr ''headers'' := VTab 1)), users = Map.empty, fresh = 2\<rparr> = Some L \<and>
     script_has_done L = Some (True, L) \<and> report (\<lambda>_ _ L. Some ([], L)) 5 1 20 (0, 0, 0, 0, 0) 3 4 L = None"
proof -
  let ?L = "\<lparr>stk = [], globals = (\<lambda>_. VNil)(''wrk'' := VTab 0), registry = (\<lambda>_. VNil),
    tables = (\<lambda>_ _. VNil)(0 := (\<lambda>_. VNil)(VStr ''headers'' := VTab 1)), users = Map.empty, fresh = 2\<rparr>"
  let ?run = "\<lambda>L. ([VNum 1], L\<lparr>globals := (globals L)(''done'' := VFun 7)\<rparr>)"
  have "map_option (\<lambda>L. stk L = []) (script_create_state None ''http://ngx/'' [] ?L) = Some True" by code_simp
  then obtain L0 where L0: "script_create_state None ''http://ngx/'' [] ?L = Some L0" "stk L0 = []" by auto
  have "callable (globals (L0\<lparr>globals := (globals L0)(''done'' := VFun 7)\<rparr>) ''done'')" by (simp add: callable_def)
  from returned_value_breaks_report [OF L0, of ?run "VNum 1" "[]", OF _ _ this, of "\<lambda>_ _ L. Some ([], L)" 5 1 20 "(0, 0, 0, 0, 0)" 3 4]
  show ?thesis by auto
qed

theorem script_calls_keep_stack_witness:
  "\<exists>A2 B2. script_init (\<lambda>_ _ s. Some ([], s)) (\<lambda>_ _ L. Some ([], L)) 1 [''http://ngx/'', ''x'']
       (\<lparr>stk = [], globals = (\<lambda>_. VNil)(''wrk'' := VTab 0), registry = (\<lambda>_. VNil), tables = (\<lambda>_ _. VNil), users = Map.empty, fresh = 2\<rparr>,
        \<lparr>stk = [VNil], globals = (\<lambda>_. VNil)(''wrk'' := VTab 0), registry = (\<lambda>_. VNil), tables = (\<lambda>_ _. VNil), users = Map.empty, fresh = 2\<rparr>)
     = Some (A2, B2) \<and> stk A2 = [] \<and> stk B2 = [VNil]"
proof -
  let ?A = "\<lparr>stk = [], globals = (\<lambda>_. VNil)(''wrk'' := VTab 0), registry = (\<lambda>_. VNil), tables = (\<lambda>_ _. VNil),
    users = Map.empty, fresh = 2\<rparr>"
  let ?B = "\<lparr>stk = [VNil], globals = (\<lambda>_. VNil)(''wrk'' := VTab 0), registry = (\<lambda>_. VNil), tables = (\<lambda>_ _. VNil),
    users = Map.empty, fresh = 2\<rparr>"
  let ?A2 = "with_thread 1 0 ?A"
  let ?B2 = "?B\<lparr>fresh := Suc (fresh ?B), users := (users ?B)(fresh ?B \<mapsto> (UThread 1, registry ?B ''wrk.thread'')), stk := []\<rparr>"
  have "0 < fresh ?A2" by (simp add: with_thread_def)
  then have "script_init (\<lambda>_ _ s. Some ([], s)) (\<lambda>_ _ L. Some ([], L)) 1 [''http://ngx/'', ''x''] (?A, ?B) =
      map_option (\<lambda>(rs', A3). (A3\<lparr>stk := stk ?A\<rparr>, ?B2\<lparr>stk := stk ?B\<rparr>))
        (Some ([], ?A2\<lparr>fresh := Suc (fresh ?A2),
          tables := (tables ?A2)(fresh ?A2 := argument_table 0 [''http://ngx/'', ''x''] (\<lambda>_. VNil)), stk := []\<rparr>))"
    using script_calls_keep_stack [of ?A 0 ?B 0 "\<lambda>_ _ s. Some ([], s)" 1 "[]" ?A2 ?B2 "\<lambda>_ _ L. Some ([], L)"
      "\<lambda>_. []" "\<lambda>_. 0" "[]" "[]" "[''http://ngx/'', ''x'']"]
    by simp
  then show ?thesis by simp
qed

end
