(* ===== verification/Script_Thread.thy ===== *)
theory Script_Thread
  imports Script_Lua Ae
begin

text \<open>
  The functions of \<open>wrk2/src/script.c\<close> that the script calls: the fields of statistics and of threads, the values that it
  moves to and from the state of a thread, and the addresses. A function returns the value on top of its own stack, which
  starts with its arguments.
\<close>

section \<open>Statistics\<close>

text \<open>What reading a field gives: a number, a C function, or, when nothing was pushed, the key itself, which is on the top.\<close>

datatype field_reply = ReplyNumber real | ReplyFunction string | ReplyAddress | ReplyKey lua_value

text \<open>\<open>number_of\<close> is how Lua reads a number from a string.\<close>

definition script_stats_get :: "(string \<Rightarrow> rat option) \<Rightarrow> stats \<Rightarrow> lua_value \<Rightarrow> field_reply option" where
  "script_stats_get number_of s key =
     (let index = (\<lambda>q. map_option (\<lambda>n. ReplyNumber (of_int n)) (script_stats_index s (trunc_rat q)))
      in case key of
           LNumber q \<Rightarrow> index q
         | LString m \<Rightarrow>
             (case number_of m of
                Some q \<Rightarrow> index q
              | None \<Rightarrow>
                  if m = ''min'' then Some (ReplyNumber (of_int (uint (smin s))))
                  else if m = ''max'' then Some (ReplyNumber (of_int (uint (smax s))))
                  else if m = ''mean'' then map_option (\<lambda>x. ReplyNumber (of_rat x)) (stats_mean s)
                  else if m = ''stdev'' then Option.bind (stats_mean s) (\<lambda>x. map_option ReplyNumber (stats_stdev s x))
                  else if m = ''percentile'' then Some (ReplyFunction ''script_stats_percentile'')
                  else Some (ReplyKey key))
         | _ \<Rightarrow> Some (ReplyKey key))"

definition script_stats_percentile :: "stats \<Rightarrow> rat \<Rightarrow> real option" where
  "script_stats_percentile s q = map_option (\<lambda>v. of_int (uint v)) (stats_percentile s q)"

section \<open>Threads\<close>

definition script_thread_index :: "string \<Rightarrow> field_reply" where
  "script_thread_index key =
     (if key = ''get'' then ReplyFunction ''script_thread_get''
      else if key = ''set'' then ReplyFunction ''script_thread_set''
      else if key = ''stop'' then ReplyFunction ''script_thread_stop''
      else if key = ''addr'' then ReplyAddress
      else ReplyKey (LString key))"

definition script_thread_stop :: "('p, 'd, 'a) aeEventLoop \<Rightarrow> ('p, 'd, 'a) aeEventLoop" where
  "script_thread_stop l = aeStop l"

text \<open>
  \<open>thread:get(key)\<close>: the global variable of the thread's state, whose stack is \<open>src\<close>, is copied to the caller.
  \<open>thread:set(key, value)\<close>: the value on top of the caller's stack is copied to the thread's state and becomes its global variable.
\<close>

definition script_thread_get ::
  "(string \<Rightarrow> lua_value) \<Rightarrow> string \<Rightarrow> lua_value list \<Rightarrow> lua_value list \<Rightarrow> (lua_value list \<times> lua_value list) option" where
  "script_thread_get globs key src dst = do {
     (src1, dst1) \<leftarrow> script_copy_value (globs key # src) dst 1;
     (case src1 of [] \<Rightarrow> None | _ # src2 \<Rightarrow> Some (src2, dst1))
   }"

definition script_thread_set ::
  "string \<Rightarrow> lua_value list \<Rightarrow> lua_value list \<Rightarrow> (string \<Rightarrow> lua_value)
    \<Rightarrow> (lua_value list \<times> lua_value list \<times> (string \<Rightarrow> lua_value)) option" where
  "script_thread_set key src dst globs = do {
     (src1, dst1) \<leftarrow> script_copy_value src dst 1;
     (case dst1 of [] \<Rightarrow> None | v # dst2 \<Rightarrow> Some (src1, dst2, globs(key := v)))
   }"

section \<open>Addresses\<close>

record addrinfo =
  ai_family :: int
  ai_socktype :: int
  ai_protocol :: int
  ai_addr :: string

text \<open>The copy has its own block of bytes; here an address is a value.\<close>

definition script_addr_copy :: "addrinfo \<Rightarrow> addrinfo" where
  "script_addr_copy a = \<lparr>ai_family = ai_family a, ai_socktype = ai_socktype a, ai_protocol = ai_protocol a, ai_addr = ai_addr a\<rparr>"

text \<open>The numeric host and service that \<open>getnameinfo\<close> gives; a failure is a Lua error.\<close>

definition script_addr_tostring :: "(addrinfo \<Rightarrow> int + string \<times> string) \<Rightarrow> addrinfo \<Rightarrow> string option" where
  "script_addr_tostring getnameinfo a =
     (case getnameinfo a of Inl _ \<Rightarrow> None | Inr (host, service) \<Rightarrow> Some (host @ '':'' @ service))"

text \<open>Only the field \<open>addr\<close> of a thread can be set; anything else is a Lua error.\<close>

definition script_thread_newindex :: "string \<Rightarrow> addrinfo \<Rightarrow> addrinfo option" where
  "script_thread_newindex key a = (if key = ''addr'' then Some (script_addr_copy a) else None)"

text \<open>\<open>getaddrinfo\<close> gives an error or the addresses in order; an error ends the program. The table counts from 1.\<close>

fun lookup_entries :: "int \<Rightarrow> addrinfo list \<Rightarrow> (int \<times> addrinfo) list" where
  "lookup_entries i [] = []"
| "lookup_entries i (a # as) = (i, script_addr_copy a) # lookup_entries (i + 1) as"

definition script_wrk_lookup ::
  "(string \<Rightarrow> string \<Rightarrow> int + addrinfo list) \<Rightarrow> string \<Rightarrow> string \<Rightarrow> (int \<times> addrinfo) list option" where
  "script_wrk_lookup getaddrinfo host service =
     (case getaddrinfo host service of Inl _ \<Rightarrow> None | Inr as \<Rightarrow> Some (lookup_entries 1 as))"

text \<open>\<open>c_socket\<close> gives a descriptor or -1, \<open>c_connect\<close> 0 for a connection; the descriptor is closed in any case.\<close>

definition script_wrk_connect ::
  "(int \<times> int \<times> int \<Rightarrow> int) \<Rightarrow> (int \<Rightarrow> string \<Rightarrow> int) \<Rightarrow> addrinfo \<Rightarrow> bool \<times> int list" where
  "script_wrk_connect c_socket c_connect a =
     (let fd = c_socket (ai_family a, ai_socktype a, ai_protocol a)
      in if fd \<noteq> -1 then (c_connect fd (ai_addr a) = 0, [fd]) else (False, []))"

section \<open>Properties\<close>

lemma lookup_entries_eq: "lookup_entries i as = zip (map (\<lambda>k. i + int k) [0..<length as]) as"
proof (induction as arbitrary: i)
  case (Cons a as)
  have "map (\<lambda>k. i + int k) [0..<length (a # as)] = i # map (\<lambda>k. (i + 1) + int k) [0..<length as]"
    by (rule nth_equalityI) (auto simp: nth_Cons' algebra_simps simp del: upt_Suc)
  then show ?case using Cons.IH [of "i + 1"] by (simp add: script_addr_copy_def del: upt_Suc)
qed simp

text \<open>A field that statistics or threads do not have is not nil: the script gets the name of the field.\<close>

lemma unknown_field:
  assumes "m \<notin> {''min'', ''max'', ''mean'', ''stdev'', ''percentile''}" "number_of m = None"
  shows "script_stats_get number_of s (LString m) = Some (ReplyKey (LString m))"
    "k \<notin> {''get'', ''set'', ''stop'', ''addr''} \<Longrightarrow> script_thread_index k = ReplyKey (LString k)"
  using assms by (simp_all add: script_stats_get_def script_thread_index_def)

text \<open>C35: Strings move between the states as they are and leave the thread's stack as it was, but tables do not: \<open>thread:set\<close> and
  \<open>thread:get\<close> hand over a table of strings with each entry \<open>k = v\<close> turned into \<open>v = k\<close>, and \<open>thread:get\<close> takes one value too many
  from the stack of the thread's state: the one below, which belongs to whoever uses that state (during \<open>setup\<close> it is the
  table \<open>wrk\<close> that \<open>script_init\<close> goes on to use), or, on an empty stack, a value that is not there.\<close>

theorem thread_tables_broken:
  assumes "distinct (map fst es)" "distinct (map snd es)" "\<forall>(k, v) \<in> set es. NUL \<notin> set k \<and> NUL \<notin> set v"
    and "globs key = LTable (string_entries es)" "globs other = LString s" "NUL \<notin> set s"
  shows "script_thread_get globs other src dst = Some (src, LString s # dst) \<and>
    script_thread_set key (LTable (string_entries es) # src) dst g =
      Some (src, dst, g(key := LTable (map (\<lambda>(k, v). (LString v, LString k)) es))) \<and>
    script_thread_get globs key (below # src) dst = Some (src, LTable (map (\<lambda>(k, v). (LString v, LString k)) es) # dst) \<and>
    script_thread_get globs key [] dst = None"
  using table_copied_swapped [OF assms(1-3)] copy_string [OF assms(6), of 1 "LString s # src" dst] assms(4,5)
  by (simp add: script_thread_get_def script_thread_set_def script_copy_value_def)

theorem thread_tables_broken_witness:
  "script_thread_get (\<lambda>k. if k = ''t'' then LTable [(LString ''user'', LString ''ann'')] else LString ''x'') ''t'' [LNumber 1, LNil] []
   = Some ([LNil], [LTable [(LString ''ann'', LString ''user'')]])"
  using thread_tables_broken [of "[(''user'', ''ann'')]"
    "\<lambda>k. if k = ''t'' then LTable [(LString ''user'', LString ''ann'')] else LString ''x''" "''t''" "''u''" "''x''" "[LNil]" "[]" "\<lambda>_. LNil" "LNumber 1"]
  by (simp add: NUL_def)

end
