(* ===== verification/Hdr_Types.thy ===== *)
theory Hdr_Types
  imports Hdr_Props
begin

text \<open>
  The C types of the histogram: its integers are modelled without bounds, and this theory shows that none of them leaves
  the type of its C variable, and that no conversion to 32 bits loses anything, on the values that a histogram can hold.
\<close>

section \<open>The ranges\<close>

definition in_int32 :: "int \<Rightarrow> bool" where
  "in_int32 x \<longleftrightarrow> - (2 ^ 31) \<le> x \<and> x < 2 ^ 31"

definition in_int64 :: "int \<Rightarrow> bool" where
  "in_int64 x \<longleftrightarrow> - (2 ^ 63) \<le> x \<and> x < 2 ^ 63"

text \<open>The members of the structure, with the types that \<open>hdr_histogram.h\<close> gives them.\<close>

definition hdr_typed :: "hdr_histogram \<Rightarrow> bool" where
  "hdr_typed h \<longleftrightarrow>
     in_int64 (lowest_trackable_value h) \<and> in_int64 (highest_trackable_value h) \<and> in_int64 (unit_magnitude h) \<and>
     in_int64 (significant_figures h) \<and> in_int32 (sub_bucket_half_count_magnitude h) \<and> in_int32 (sub_bucket_half_count h) \<and>
     in_int64 (sub_bucket_mask h) \<and> in_int32 (sub_bucket_count h) \<and> in_int32 (bucket_count h) \<and> in_int32 (counts_len h) \<and>
     in_int64 (total_count h) \<and> list_all in_int64 (counts h)"

text \<open>The expressions that the code stores in 32 bits, before they are converted.\<close>

definition wide_bucket_index :: "hdr_histogram \<Rightarrow> int \<Rightarrow> int" where
  "wide_bucket_index h v = 64 - builtin_clzll (v OR sub_bucket_mask h) - unit_magnitude h - (sub_bucket_half_count_magnitude h + 1)"

definition wide_sub_bucket_index :: "hdr_histogram \<Rightarrow> int \<Rightarrow> int" where
  "wide_sub_bucket_index h v = drop_bit (nat (wide_bucket_index h v + unit_magnitude h)) v"

definition wide_base_index :: "hdr_histogram \<Rightarrow> int \<Rightarrow> int" where
  "wide_base_index h v = push_bit (nat (sub_bucket_half_count_magnitude h)) (wide_bucket_index h v + 1)"

definition wide_range_size :: "hdr_histogram \<Rightarrow> int \<Rightarrow> int" where
  "wide_range_size h v =
     push_bit (nat (unit_magnitude h + (if sub_bucket_count h \<le> wide_sub_bucket_index h v
       then wide_bucket_index h v + 1 else wide_bucket_index h v))) 1"

text \<open>The index arithmetic on one value: each 32-bit variable holds its expression, each 64-bit result fits.\<close>

definition hdr_value_typed :: "hdr_histogram \<Rightarrow> int \<Rightarrow> bool" where
  "hdr_value_typed h v \<longleftrightarrow>
     in_int32 (wide_bucket_index h v) \<and> in_int32 (wide_sub_bucket_index h v) \<and> in_int32 (wide_base_index h v) \<and>
     in_int32 (wide_range_size h v) \<and> size_of_equivalent_value_range h v = wide_range_size h v \<and>
     (case counts_index_for h v of None \<Rightarrow> False
      | Some i \<Rightarrow> in_int32 i \<and> i = wide_base_index h v + (wide_sub_bucket_index h v - sub_bucket_half_count h)) \<and>
     in_int64 (lowest_equivalent_value h v) \<and> in_int64 (next_non_equivalent_value h v) \<and>
     in_int64 (highest_equivalent_value h v) \<and> in_int64 (median_equivalent_value h v)"

section \<open>The structure\<close>

lemma in_int32I: "0 \<le> x \<Longrightarrow> x < 2 ^ 31 \<Longrightarrow> in_int32 x"
  by (simp add: in_int32_def)

lemma in_int64I: "0 \<le> x \<Longrightarrow> x < 2 ^ 63 \<Longrightarrow> in_int64 x"
  by (simp add: in_int64_def)

lemma config_ranges:
  assumes "hdr_config h"
  shows "in_int64 (unit_magnitude h)" "in_int64 (significant_figures h)" "in_int32 (sub_bucket_half_count_magnitude h)"
    "in_int32 (sub_bucket_half_count h)" "in_int64 (sub_bucket_mask h)" "in_int32 (sub_bucket_count h)"
    "in_int32 (bucket_count h)" "in_int32 (counts_len h)"
proof -
  note c = hdr_configD [OF assms]
  have "2 * 2 ^ hcm h \<le> counts_len h" using c(6,8) by (simp add: mult_right_mono)
  then have s: "(2::int) ^ Suc (hcm h) < 2 ^ 31" using c(9) by simp
  have "1 \<le> significant_figures h \<and> significant_figures h \<le> 5" using assms by (simp add: hdr_config_def)
  moreover have "0 \<le> counts_len h" using c(6,8) by simp
  moreover have "0 \<le> unit_magnitude h" "0 \<le> sub_bucket_half_count_magnitude h" by (rule hdr_config_nonneg [OF assms])+
  ultimately show "in_int64 (unit_magnitude h)" "in_int64 (significant_figures h)" "in_int32 (sub_bucket_half_count_magnitude h)"
    "in_int32 (bucket_count h)" "in_int32 (counts_len h)"
    using c(5,6,7,9) unfolding in_int64_def in_int32_def by simp_all
  show "in_int64 (sub_bucket_mask h)" using hdr_mask_bits(1,3) [OF assms] by (simp add: in_int64_def)
  show "in_int32 (sub_bucket_half_count h)" "in_int32 (sub_bucket_count h)"
    using s unfolding c(3,4) by (auto intro!: in_int32I)
qed

lemma elem_le_total:
  assumes "\<forall>c \<in> set cs. 0 \<le> c" "c \<in> set cs"
  shows "c \<le> (sum_list cs :: int)"
  using assms by (induction cs) (auto intro: sum_list_nonneg add_increasing add_increasing2)

lemma wf_typed:
  assumes "hdr_wf h" "in_int64 (lowest_trackable_value h)" "in_int64 (highest_trackable_value h)" "total_count h < 2 ^ 63"
  shows "hdr_typed h"
proof -
  have c: "\<forall>c \<in> set (counts h). 0 \<le> c" "total_count h = sum_list (counts h)"
    using hdr_wfD(4,5) [OF assms(1)] by auto
  then have "0 \<le> total_count h" by (simp add: sum_list_nonneg)
  moreover have "list_all in_int64 (counts h)"
    unfolding list_all_iff
  proof
    fix x assume "x \<in> set (counts h)"
    then have "0 \<le> x" "x \<le> total_count h" using c elem_le_total by auto
    with assms(4) show "in_int64 x" by (simp add: in_int64_def)
  qed
  ultimately show ?thesis
    using assms config_ranges [OF hdr_wfD(1) [OF assms(1)]] by (simp add: hdr_typed_def in_int64I)
qed

section \<open>The index arithmetic\<close>

lemma wide_bucket_index_eq:
  assumes "hdr_config h" "0 \<le> v" "v < 2 ^ 63"
  shows "wide_bucket_index h v = get_bucket_index h v"
  unfolding wide_bucket_index_def get_bucket_index_eq [OF assms] by (rule bucket_index_exact [OF assms])

lemma wide_sub_bucket_index_eq:
  assumes "hdr_config h" "0 \<le> v" "v < 2 ^ 63"
  shows "wide_sub_bucket_index h v = v div 2 ^ (nat (get_bucket_index h v) + um h)"
  by (simp add: wide_sub_bucket_index_def wide_bucket_index_eq [OF assms] shift_amount [OF assms] drop_bit_eq_div)

lemma shift_bounds:
  assumes "hdr_wf h" "0 \<le> v" "v < hdr_capacity h"
  shows "v < 2 ^ 62" "0 \<le> get_bucket_index h v" "get_bucket_index h v < bucket_count h"
    "nat (get_bucket_index h v) + um h \<le> 30"
proof -
  note cfg = hdr_wfD(1) [OF assms(1)]
  show "v < 2 ^ 62" using assms(3) hdr_capacity_le [OF cfg] by simp
  then have v': "v < 2 ^ 63" by simp
  show b: "0 \<le> get_bucket_index h v" "get_bucket_index h v < bucket_count h"
    using get_bucket_index_nonneg [OF cfg assms(2) v'] bucket_index_lt_iff [OF cfg assms(2) v'] assms(3) by auto
  show "nat (get_bucket_index h v) + um h \<le> 30"
    using b hdr_wfD(2) [OF assms(1)] hdr_config_nonneg [OF cfg] unfolding hdr_narrow_def by linarith
qed

lemma index_typed:
  assumes wf: "hdr_wf h" and v: "0 \<le> v" "v < hdr_capacity h"
  shows "in_int32 (wide_bucket_index h v)" "in_int32 (wide_sub_bucket_index h v)" "in_int32 (wide_base_index h v)"
    "\<exists>i. counts_index_for h v = Some i \<and> in_int32 i \<and>
       i = wide_base_index h v + (wide_sub_bucket_index h v - sub_bucket_half_count h)"
proof -
  note cfg = hdr_wfD(1) [OF wf] and b = shift_bounds [OF wf v]
  have v': "v < 2 ^ 63" using b(1) by simp
  note wide = wide_bucket_index_eq [OF cfg v(1) v'] wide_sub_bucket_index_eq [OF cfg v(1) v']
    and sub = get_sub_bucket_index_eq [OF cfg v(1) v' refl] and slot = counts_index_for_eq [OF cfg v]
  have base: "wide_base_index h v = (get_bucket_index h v + 1) * 2 ^ hcm h"
    by (simp add: wide_base_index_def wide push_bit_eq_mult)
  show "in_int32 (wide_bucket_index h v)"
    using b(2,3) config_ranges(7) [OF cfg] by (simp add: wide in_int32_def)
  show "in_int32 (wide_sub_bucket_index h v)"
    using sub(2,3) config_ranges(6) [OF cfg] hdr_configD(4) [OF cfg] by (simp add: wide in_int32_def)
  have "wide_base_index h v \<le> counts_len h" using b(2,3) by (simp add: base hdr_configD(8) [OF cfg])
  then show "in_int32 (wide_base_index h v)"
    using b(2) hdr_configD(9) [OF cfg] by (intro in_int32I) (auto simp: base)
  have "slot_of h v = wide_base_index h v + (wide_sub_bucket_index h v - sub_bucket_half_count h)"
    using b(2) hdr_configD(3) [OF cfg] by (simp add: slot_of_def base wide algebra_simps)
  moreover have "in_int32 (slot_of h v)" using slot(2,3) hdr_configD(9) [OF cfg] by (intro in_int32I) auto
  ultimately show "\<exists>i. counts_index_for h v = Some i \<and> in_int32 i \<and>
      i = wide_base_index h v + (wide_sub_bucket_index h v - sub_bucket_half_count h)"
    using slot(1) by blast
qed

lemma half_bounds: "0 \<le> x \<Longrightarrow> 0 \<le> drop_bit 1 x \<and> drop_bit 1 x \<le> (x::int)"
  by (simp add: drop_bit_eq_div)

lemma range_typed:
  assumes wf: "hdr_wf h" and v: "0 \<le> v" "v < hdr_capacity h"
  shows "in_int32 (wide_range_size h v)" "size_of_equivalent_value_range h v = wide_range_size h v"
    "in_int64 (lowest_equivalent_value h v)" "in_int64 (next_non_equivalent_value h v)"
    "in_int64 (highest_equivalent_value h v)" "in_int64 (median_equivalent_value h v)"
proof -
  note cfg = hdr_wfD(1) [OF wf] and nar = hdr_wfD(2) [OF wf] and b = shift_bounds [OF wf v]
  let ?e = "nat (get_bucket_index h v) + um h"
  have v': "v < 2 ^ 63" using b(1) by simp
  have pe: "(2::int) ^ ?e \<le> 2 ^ 30" by (rule power_increasing) (use b(4) in simp_all)
  have size: "size_of_equivalent_value_range h v = 2 ^ ?e" by (rule size_of_range_eq [OF cfg nar v refl])
  have wide: "wide_range_size h v = 2 ^ ?e"
    using get_sub_bucket_index_eq(3) [OF cfg v(1) v' refl] hdr_configD(4) [OF cfg]
    by (simp add: wide_range_size_def wide_sub_bucket_index_eq [OF cfg v(1) v'] wide_bucket_index_eq [OF cfg v(1) v']
      shift_amount(2) [OF cfg v(1) v'] push_bit_eq_mult)
  show "in_int32 (wide_range_size h v)" "size_of_equivalent_value_range h v = wide_range_size h v"
    using pe by (auto simp: wide size intro!: in_int32I)
  have low: "0 \<le> lowest_equivalent_value h v" "lowest_equivalent_value h v \<le> v"
    by (rule lowest_equivalent_nonneg [OF cfg v(1) v'], rule equivalent_range_contains [OF cfg nar v])
  have half: "0 \<le> drop_bit 1 ((2::int) ^ ?e)" "drop_bit 1 ((2::int) ^ ?e) \<le> 2 ^ ?e" "(0::int) < 2 ^ ?e"
    using half_bounds [of "2 ^ ?e"] by simp_all
  have near: "in_int64 (lowest_equivalent_value h v + d)" if "- 1 \<le> d" "d \<le> 2 ^ ?e" for d
    using low b(1) that pe by (simp add: in_int64_def)
  show "in_int64 (lowest_equivalent_value h v)" using near [of 0] by simp
  show "in_int64 (next_non_equivalent_value h v)" using near [of "2 ^ ?e"] half by (simp add: next_non_equivalent_value_def size)
  show "in_int64 (highest_equivalent_value h v)"
    using near [of "2 ^ ?e - 1"] half(3) by (simp add: highest_equivalent_value_def next_non_equivalent_value_def size add_diff_eq)
  show "in_int64 (median_equivalent_value h v)"
    unfolding median_equivalent_value_def size by (rule near [OF _ half(2)]) (use half(1) in linarith)
qed

lemma value_typed:
  assumes "hdr_wf h" "0 \<le> v" "v < hdr_capacity h"
  shows "hdr_value_typed h v"
  using index_typed [OF assms] range_typed [OF assms] by (auto simp: hdr_value_typed_def)

section \<open>Recording\<close>

lemma record_keeps_limits:
  "hdr_record_value h v = Some (ok, h') \<Longrightarrow>
    lowest_trackable_value h' = lowest_trackable_value h \<and> highest_trackable_value h' = highest_trackable_value h"
  by (auto simp: hdr_record_value_def bind_eq_Some_conv split: if_splits)

lemma record_all_keeps_limits:
  "record_all h vs = Some (ok, h') \<Longrightarrow>
    lowest_trackable_value h' = lowest_trackable_value h \<and> highest_trackable_value h' = highest_trackable_value h"
  by (induction h vs rule: record_all.induct) (auto split: option.splits if_splits dest: record_keeps_limits)

lemma init_limits:
  "hdr_init True lowest highest figures = Some (Inr h) \<Longrightarrow> lowest_trackable_value h = lowest \<and> highest_trackable_value h = highest"
  by (auto simp: hdr_init_def bind_eq_Some_conv Let_def split: if_splits)

text \<open>C15: The integers of a histogram stay within their C types: from \<open>hdr_init\<close> on and after fewer than 2^63 recorded
  values in range, every member of the structure is within the type that the header gives it, and for every value below the
  capacity each 32-bit variable of the index arithmetic (bucket, sub-bucket, base index, size of the range, index) holds the
  whole value of its expression and each 64-bit result fits. The unbounded integers of this model therefore never differ
  from the machine's.\<close>

theorem hdr_int_types:
  assumes "1 \<le> figures" "figures \<le> 5" "1 \<le> lowest" "lowest < 2 ^ 14" "0 \<le> highest" "highest \<le> 2 ^ 30 * 10 ^ nat figures"
    and "hdr_init True lowest highest figures = Some (Inr h)"
    and "\<forall>v \<in> set vs. 0 \<le> v \<and> v < hdr_capacity h" "int (length vs) < 2 ^ 63"
  shows "hdr_typed h \<and> (\<exists>h'. record_all h vs = Some (True, h') \<and> hdr_typed h' \<and>
    (\<forall>w. 0 \<le> w \<and> w < hdr_capacity h \<longrightarrow> hdr_value_typed h' w))"
proof -
  have h: "hdr_wf h" "total_count h = 0" using hdr_init_establishes [OF assms(1-4,6)] assms(7) by auto
  have "(2::int) ^ 30 * 10 ^ nat figures \<le> 2 ^ 30 * 10 ^ 5" using assms(2) by (intro mult_left_mono power_increasing) auto
  then have lim: "in_int64 (lowest_trackable_value h)" "in_int64 (highest_trackable_value h)"
    using assms(3-6) init_limits [OF assms(7)] by (simp_all add: in_int64_def)
  obtain h' where h': "record_all h vs = Some (True, h')" "hdr_wf h'" "total_count h' = total_count h + int (length vs)"
    "(\<lambda>v. 0 \<le> v \<and> v < hdr_capacity h') = (\<lambda>v. 0 \<le> v \<and> v < hdr_capacity h)"
    using hdr_rec.recv_all_ok [OF h(1) assms(8)] unfolding record_all_recv by blast
  have "hdr_typed h" by (rule wf_typed [OF h(1) lim]) (simp add: h(2))
  moreover have "hdr_typed h'"
    by (rule wf_typed [OF h'(2)]) (use lim record_all_keeps_limits [OF h'(1)] h'(3) h(2) assms(9) in simp_all)
  ultimately show ?thesis using h'(1) value_typed [OF h'(2)] same_capacity [OF h'(4)] by blast
qed

theorem hdr_int_types_witness:
  "\<exists>h h'. hdr_init True 1 1000 2 = Some (Inr h) \<and> record_all h [5, 700] = Some (True, h') \<and> hdr_typed h' \<and> hdr_value_typed h' 900"
proof -
  obtain h where h: "hdr_init True 1 1000 2 = Some (Inr h)" using small_init by blast
  then have cap: "1000 < hdr_capacity h" using holds_init [of 2 1 1000 h] by simp
  obtain h' where "record_all h [5, 700] = Some (True, h')" "hdr_typed h'"
    "\<forall>w. 0 \<le> w \<and> w < hdr_capacity h \<longrightarrow> hdr_value_typed h' w"
    using hdr_int_types [of 2 1 1000 h "[5, 700]"] h cap by (auto simp del: record_all.simps)
  then show ?thesis using h cap by (intro exI [of _ h] exI [of _ h']) (simp del: record_all.simps)
qed

end
